(* ===== verification/Prelude.thy ===== *)
theory Prelude
  imports Main "HOL-Library.Word" "HOL-Library.Multiset" "HOL-Library.AList" "HOL-Library.Sublist"
begin

section \<open>Shared vocabulary of the model\<close>

text \<open>
  What every component of the server model uses: fixed-width integers with Rust's checked and
  saturating operations, byte strings with the \<^verbatim>\<open>str\<close> operations the server calls, the \<open>?\<close>
  operator on results (\<open>error + value\<close>, the error on the left), panics as values, hash maps as
  association lists, and the collections of rewrite rules that the component proofs pass to the
  simplifier.

  A Rust string is a sequence of UTF-8 bytes; a HOL \<^typ>\<open>char\<close> is one byte, so \<^typ>\<open>string\<close>
  models \<^verbatim>\<open>String\<close>/\<^verbatim>\<open>&str\<close> at the byte level and \<^term>\<open>length\<close> is \<^verbatim>\<open>str::len\<close>.
\<close>

named_theorems result_simps \<open>rewrite rules for the question-mark operator\<close>
named_theorems handler_defs \<open>definitions of request handlers and response builders\<close>
named_theorems step_defs \<open>definitions of the atomic steps of the concurrent models\<close>

subsection \<open>Machine integers\<close>

type_synonym u8 = "8 word"
type_synonym u16 = "16 word"
type_synonym u64 = "64 word"
type_synonym bytes = "u8 list"

definition checked_add :: "'a::len word \<Rightarrow> 'a word \<Rightarrow> 'a word option" where
  "checked_add a b = (if unat a + unat b < 2 ^ LENGTH('a) then Some (a + b) else None)"

definition saturating_add :: "'a::len word \<Rightarrow> 'a word \<Rightarrow> 'a word" where
  "saturating_add a b = (if unat a + unat b < 2 ^ LENGTH('a) then a + b else - 1)"

definition saturating_sub :: "'a::len word \<Rightarrow> 'a word \<Rightarrow> 'a word" where
  "saturating_sub a b = (if b \<le> a then a - b else 0)"

lemma unat_plus_no_overflow:
  fixes a b :: "'a::len word"
  shows "unat a + unat b < 2 ^ LENGTH('a) \<Longrightarrow> unat (a + b) = unat a + unat b"
  by (simp add: unat_word_ariths)

lemma checked_add_Some_iff:
  fixes a b c :: "'a::len word"
  shows "checked_add a b = Some c \<longleftrightarrow>
    unat a + unat b < 2 ^ LENGTH('a) \<and> c = a + b \<and> unat c = unat a + unat b"
  by (auto simp: checked_add_def unat_plus_no_overflow split: if_splits)

lemma unat_saturating_add:
  fixes a b :: "'a::len word"
  shows "unat (saturating_add a b) = min (unat a + unat b) (2 ^ LENGTH('a) - 1)"
proof (cases "unat a + unat b < 2 ^ LENGTH('a)")
  case True
  then show ?thesis by (simp add: saturating_add_def unat_plus_no_overflow)
next
  case False
  moreover have "unat (- 1 :: 'a word) = 2 ^ LENGTH('a) - 1"
    by (simp add: unsigned_minus_1_eq_mask mask_eq_exp_minus_1)
  ultimately show ?thesis by (simp add: saturating_add_def)
qed

lemma unat_saturating_sub: "unat (saturating_sub a b) = unat a - unat b"
  by (auto simp: saturating_sub_def unat_sub word_le_nat_alt)

lemma unat_u8_less: "unat (w :: u8) < 256"
  using unsigned_less [of w] by simp

lemma unat_u64_less: "unat (w :: u64) < 2 ^ 64"
  using unsigned_less [of w] by simp

subsection \<open>Results and the question-mark operator\<close>

definition bind_result :: "'e + 'a \<Rightarrow> ('a \<Rightarrow> 'e + 'b) \<Rightarrow> 'e + 'b" where
  "bind_result m f = (case m of Inl e \<Rightarrow> Inl e | Inr x \<Rightarrow> f x)"

definition ok_or :: "'a option \<Rightarrow> 'e \<Rightarrow> 'e + 'a" where
  "ok_or v e = (case v of None \<Rightarrow> Inl e | Some x \<Rightarrow> Inr x)"

definition map_err :: "('e \<Rightarrow> 'f) \<Rightarrow> 'e + 'a \<Rightarrow> 'f + 'a" where
  "map_err f m = (case m of Inl e \<Rightarrow> Inl (f e) | Inr x \<Rightarrow> Inr x)"

definition unwrap_or :: "'a option \<Rightarrow> 'a \<Rightarrow> 'a" where
  "unwrap_or v d = (case v of None \<Rightarrow> d | Some x \<Rightarrow> x)"

definition opt_or :: "'a option \<Rightarrow> 'a option \<Rightarrow> 'a option" where
  "opt_or a b = (case a of Some x \<Rightarrow> Some x | None \<Rightarrow> b)"

definition is_ok :: "'e + 'a \<Rightarrow> bool" where
  "is_ok m = (case m of Inl _ \<Rightarrow> False | Inr _ \<Rightarrow> True)"

lemma bind_result_simps [simp, result_simps]:
  "bind_result (Inl e) f = Inl e"
  "bind_result (Inr x) f = f x"
  by (simp_all add: bind_result_def)

lemma bind_result_Inr_iff [result_simps]:
  "bind_result m f = Inr b \<longleftrightarrow> (\<exists>a. m = Inr a \<and> f a = Inr b)"
  by (cases m) auto

lemma bind_result_Inl_iff [result_simps]:
  "bind_result m f = Inl e \<longleftrightarrow> m = Inl e \<or> (\<exists>a. m = Inr a \<and> f a = Inl e)"
  by (cases m) auto

lemma ok_or_simps [simp, result_simps]:
  "ok_or None e = Inl e"
  "ok_or (Some x) e = Inr x"
  by (simp_all add: ok_or_def)

lemma ok_or_Inr_iff [simp, result_simps]: "ok_or v e = Inr x \<longleftrightarrow> v = Some x"
  by (cases v) auto

lemma ok_or_Inl_iff [simp, result_simps]: "ok_or v e = Inl e' \<longleftrightarrow> v = None \<and> e' = e"
  by (cases v) auto

lemma map_err_simps [simp, result_simps]:
  "map_err f (Inl e) = Inl (f e)"
  "map_err f (Inr x) = Inr x"
  by (simp_all add: map_err_def)

lemma map_err_Inr_iff [simp, result_simps]: "map_err f m = Inr x \<longleftrightarrow> m = Inr x"
  by (cases m) auto

lemma map_err_Inl_iff [result_simps]: "map_err f m = Inl e \<longleftrightarrow> (\<exists>e'. m = Inl e' \<and> e = f e')"
  by (cases m) auto

lemma unwrap_or_simps [simp]: "unwrap_or None d = d" "unwrap_or (Some x) d = x"
  by (simp_all add: unwrap_or_def)

lemma opt_or_simps [simp]: "opt_or (Some x) b = Some x" "opt_or None b = b"
  "opt_or a None = a"
  by (simp_all add: opt_or_def split: option.splits)

lemma is_ok_simps [simp]: "\<not> is_ok (Inl e)" "is_ok (Inr x)"
  by (simp_all add: is_ok_def)

text \<open>A Rust panic (\<^verbatim>\<open>unreachable!\<close>, \<^verbatim>\<open>expect\<close>) unwinds past every \<open>?\<close>: it is a third outcome.\<close>

datatype 'a outcome = Panics | Returns 'a

definition bind_outcome :: "'a outcome \<Rightarrow> ('a \<Rightarrow> 'b outcome) \<Rightarrow> 'b outcome" where
  "bind_outcome m f = (case m of Panics \<Rightarrow> Panics | Returns x \<Rightarrow> f x)"

lemma bind_outcome_simps [simp, result_simps]:
  "bind_outcome Panics f = Panics"
  "bind_outcome (Returns x) f = f x"
  by (simp_all add: bind_outcome_def)

lemma bind_outcome_Returns_iff [result_simps]:
  "bind_outcome m f = Returns y \<longleftrightarrow> (\<exists>x. m = Returns x \<and> f x = Returns y)"
  by (cases m) auto

subsection \<open>Byte strings\<close>

definition as_bytes :: "string \<Rightarrow> bytes" where
  "as_bytes s = map of_char s"

lemma of_char_u8_inject: "(of_char c :: u8) = of_char d \<longleftrightarrow> c = d"
proof
  assume eq: "(of_char c :: u8) = of_char d"
  have "unat (of_char x :: u8) = of_char x" for x
    by (simp add: of_char_def flip: unat_of_nat)
  with eq show "c = d" by (metis of_char_eq_iff)
qed simp

lemma as_bytes_inject [simp]: "as_bytes s = as_bytes t \<longleftrightarrow> s = t"
  by (auto simp: as_bytes_def of_char_u8_inject inj_def intro: map_injective)

lemma length_as_bytes [simp]: "length (as_bytes s) = length s"
  by (simp add: as_bytes_def)

text \<open>\<^verbatim>\<open>str::eq_ignore_ascii_case\<close>, \<^verbatim>\<open>split_once\<close>, \<^verbatim>\<open>split\<close>, \<^verbatim>\<open>strip_prefix\<close>, \<^verbatim>\<open>trim_end_matches\<close>.\<close>

definition to_ascii_lowercase :: "char \<Rightarrow> char" where
  "to_ascii_lowercase c =
     (let n = (of_char c :: nat) in if 65 \<le> n \<and> n \<le> 90 then char_of (n + 32) else c)"

definition eq_ignore_ascii_case :: "string \<Rightarrow> string \<Rightarrow> bool" where
  "eq_ignore_ascii_case a b \<longleftrightarrow> map to_ascii_lowercase a = map to_ascii_lowercase b"

fun split_once :: "char \<Rightarrow> string \<Rightarrow> (string \<times> string) option" where
  "split_once d [] = None"
| "split_once d (c # cs) =
     (if c = d then Some ([], cs)
      else map_option (\<lambda>(l, r). (c # l, r)) (split_once d cs))"

fun split_on :: "char \<Rightarrow> string \<Rightarrow> string list" where
  "split_on d [] = [[]]"
| "split_on d (c # cs) =
     (if c = d then [] # split_on d cs
      else (case split_on d cs of [] \<Rightarrow> [[c]] | w # ws \<Rightarrow> (c # w) # ws))"

fun strip_prefix :: "string \<Rightarrow> string \<Rightarrow> string option" where
  "strip_prefix [] s = Some s"
| "strip_prefix (p # ps) [] = None"
| "strip_prefix (p # ps) (c # cs) = (if p = c then strip_prefix ps cs else None)"

definition trim_end_matches :: "char \<Rightarrow> string \<Rightarrow> string" where
  "trim_end_matches d s = rev (dropWhile (\<lambda>c. c = d) (rev s))"

text \<open>
  \<^verbatim>\<open>str::trim\<close> strips the Unicode \<^verbatim>\<open>White_Space\<close> code points. They are listed here as their
  UTF-8 encodings: U+0009 to U+000D, U+0020, U+0085, U+00A0, U+1680, U+2000 to U+200A, U+2028,
  U+2029, U+202F, U+205F and U+3000.
\<close>

definition white_space :: "string list" where
  "white_space = map (\<lambda>n. [char_of (n::nat)]) [9, 10, 11, 12, 13, 32]
     @ [[CHR 0xC2, CHR 0x85], [CHR 0xC2, CHR 0xA0], [CHR 0xE1, CHR 0x9A, CHR 0x80]]
     @ map (\<lambda>n. [CHR 0xE2, CHR 0x80, char_of (n::nat)])
         [128, 129, 130, 131, 132, 133, 134, 135, 136, 137, 138, 168, 169, 175]
     @ [[CHR 0xE2, CHR 0x81, CHR 0x9F], [CHR 0xE3, CHR 0x80, CHR 0x80]]"

fun first_match :: "string list \<Rightarrow> string \<Rightarrow> string option" where
  "first_match [] s = None"
| "first_match (w # ws) s =
     (case strip_prefix w s of Some r \<Rightarrow> Some r | None \<Rightarrow> first_match ws s)"

lemma strip_prefix_Some_iff: "strip_prefix p s = Some r \<longleftrightarrow> s = p @ r"
  by (induction p s rule: strip_prefix.induct) auto

lemma first_match_shorter:
  "first_match ws s = Some r \<Longrightarrow> [] \<notin> set ws \<Longrightarrow> length r < length s"
  by (induction ws) (auto simp: strip_prefix_Some_iff split: option.splits)

text \<open>\<^verbatim>\<open>trim_start_with ws\<close> strips leading occurrences of the (non-empty) strings of \<^verbatim>\<open>ws\<close>.\<close>

function trim_start_with :: "string list \<Rightarrow> string \<Rightarrow> string" where
  "trim_start_with ws s =
     (case first_match (filter (\<lambda>w. w \<noteq> []) ws) s of
        None \<Rightarrow> s
      | Some r \<Rightarrow> trim_start_with ws r)"
  by pat_completeness auto
termination
  by (relation "measure (\<lambda>(ws, s). length s)") (auto dest: first_match_shorter)

declare trim_start_with.simps [simp del]

definition trim :: "string \<Rightarrow> string" where
  "trim s = rev (trim_start_with (map rev white_space) (rev (trim_start_with white_space s)))"

lemma trim_start_with_suffix: "\<exists>p. s = p @ trim_start_with ws s"
proof (induction ws s rule: trim_start_with.induct)
  case (1 ws s)
  show ?case
  proof (cases "first_match (filter (\<lambda>w. w \<noteq> []) ws) s")
    case None
    then show ?thesis by (simp add: trim_start_with.simps [of ws s])
  next
    case (Some r)
    have "first_match us s = Some r \<Longrightarrow> \<exists>p. s = p @ r" for us
      by (induction us) (auto simp: strip_prefix_Some_iff split: option.splits)
    with Some obtain p where "s = p @ r" by blast
    with 1 [OF Some] Some show ?thesis
      by (metis append.assoc option.simps(5) trim_start_with.simps)
  qed
qed

lemma trim_sublist: "\<exists>p q. s = p @ trim s @ q"
proof -
  obtain p where p: "s = p @ trim_start_with white_space s"
    using trim_start_with_suffix by blast
  let ?m = "trim_start_with white_space s"
  obtain q where "rev ?m = q @ trim_start_with (map rev white_space) (rev ?m)"
    using trim_start_with_suffix by blast
  then have "rev (rev ?m) = rev (q @ trim_start_with (map rev white_space) (rev ?m))"
    by (rule arg_cong)
  then have "?m = trim s @ rev q"
    by (simp only: rev_rev_ident rev_append trim_def)
  then have "s = p @ trim s @ rev q" using p by argo
  then show ?thesis by blast
qed

lemma trim_start_with_id:
  assumes "\<forall>w \<in> set ws. w \<noteq> [] \<longrightarrow> hd w \<notin> set s"
  shows "trim_start_with ws s = s"
proof -
  have "first_match us s = None" if "\<forall>w \<in> set us. w \<noteq> [] \<and> hd w \<notin> set s" for us
    using that
  proof (induction us)
    case (Cons w us)
    then have "strip_prefix w s = None" by (cases w; cases s) auto
    with Cons show ?case by simp
  qed simp
  then show ?thesis using assms by (simp add: trim_start_with.simps)
qed

lemma trim_id:
  assumes "\<forall>w \<in> set white_space. hd w \<notin> set s \<and> last w \<notin> set s"
  shows "trim s = s"
proof -
  have "[] \<notin> set white_space" by (auto simp: white_space_def)
  then have "\<forall>w \<in> set (map rev white_space). w \<noteq> [] \<longrightarrow> hd w \<notin> set (rev s)"
    using assms by (auto simp: hd_rev)
  then have "trim_start_with (map rev white_space) (rev s) = rev s" by (rule trim_start_with_id)
  moreover have "trim_start_with white_space s = s" using assms by (intro trim_start_with_id) auto
  ultimately show ?thesis by (simp add: trim_def)
qed

lemma trim_visible:
  assumes "\<forall>c \<in> set s. 33 \<le> (of_char c :: nat) \<and> (of_char c :: nat) < 127"
  shows "trim s = s"
proof (rule trim_id, intro ballI conjI)
  fix w assume w: "w \<in> set white_space"
  have "\<forall>w \<in> set white_space. (of_char (hd w) < (33 :: nat) \<or> 127 \<le> (of_char (hd w) :: nat)) \<and>
      (of_char (last w) < (33 :: nat) \<or> 127 \<le> (of_char (last w) :: nat))"
    by (simp add: white_space_def)
  with w assms show "hd w \<notin> set s" "last w \<notin> set s" by fastforce+
qed

lemma split_once_Some_iff:
  "split_once d s = Some (l, r) \<longleftrightarrow> s = l @ d # r \<and> d \<notin> set l"
proof (induction s arbitrary: l)
  case (Cons c cs)
  then show ?case by (cases l) auto
qed simp

lemma trim_end_matches_prefix: "\<exists>q. s = trim_end_matches d s @ q \<and> set q \<subseteq> {d}"
proof -
  have "rev s = takeWhile (\<lambda>c. c = d) (rev s) @ dropWhile (\<lambda>c. c = d) (rev s)"
    by simp
  then have "rev (rev s) =
      rev (takeWhile (\<lambda>c. c = d) (rev s) @ dropWhile (\<lambda>c. c = d) (rev s))"
    by (rule arg_cong)
  then have "s = trim_end_matches d s @ rev (takeWhile (\<lambda>c. c = d) (rev s))"
    by (simp only: rev_rev_ident rev_append trim_end_matches_def)
  moreover have "set (rev (takeWhile (\<lambda>c. c = d) (rev s))) \<subseteq> {d}"
    by (auto dest: set_takeWhileD)
  ultimately show ?thesis by blast
qed

subsection \<open>Decimal numbers\<close>

definition digit_value :: "char \<Rightarrow> nat option" where
  "digit_value c = (let n = (of_char c :: nat) in if 48 \<le> n \<and> n \<le> 57 then Some (n - 48) else None)"

fun digits_value :: "nat \<Rightarrow> string \<Rightarrow> nat option" where
  "digits_value acc [] = Some acc"
| "digits_value acc (c # cs) =
     (case digit_value c of None \<Rightarrow> None | Some d \<Rightarrow> digits_value (10 * acc + d) cs)"

text \<open>\<^verbatim>\<open>str::parse::<u64>\<close>: an optional leading plus sign, at least one digit, no overflow.\<close>

definition parse_u64 :: "string \<Rightarrow> u64 option" where
  "parse_u64 s =
     (let ds = (case s of [] \<Rightarrow> [] | c # cs \<Rightarrow> if c = CHR ''+'' then cs else s) in
      if ds = [] then None
      else (case digits_value 0 ds of
              None \<Rightarrow> None
            | Some n \<Rightarrow> if n < 2 ^ 64 then Some (of_nat n) else None))"

fun show_nat :: "nat \<Rightarrow> string" where
  "show_nat n = (if n < 10 then [char_of (48 + n)] else show_nat (n div 10) @ [char_of (48 + n mod 10)])"

declare show_nat.simps [simp del]

definition show_int :: "int \<Rightarrow> string" where
  "show_int i = (if i < 0 then CHR ''-'' # show_nat (nat (- i)) else show_nat (nat i))"

lemma digits_value_append:
  "digits_value acc (xs @ ys) =
     (case digits_value acc xs of None \<Rightarrow> None | Some a \<Rightarrow> digits_value a ys)"
  by (induction xs arbitrary: acc) (auto split: option.splits)

lemma digit_value_char_of [simp]: "n < 10 \<Longrightarrow> digit_value (char_of (48 + n)) = Some n"
  by (simp add: digit_value_def Let_def)

lemma digits_value_show_nat: "digits_value 0 (show_nat n) = Some n"
proof (induction n rule: show_nat.induct)
  case (1 n)
  show ?case
  proof (cases "n < 10")
    case True
    then show ?thesis by (simp add: show_nat.simps [of n])
  next
    case False
    with 1 show ?thesis
      by (simp add: show_nat.simps [of n] digits_value_append)
  qed
qed

lemma show_nat_head_digit: "\<exists>c cs. show_nat n = c # cs \<and> digit_value c \<noteq> None"
proof (induction n rule: show_nat.induct)
  case (1 n)
  show ?case
  proof (cases "n < 10")
    case True
    then show ?thesis by (simp add: show_nat.simps [of n])
  next
    case False
    with 1 show ?thesis by (auto simp: show_nat.simps [of n])
  qed
qed

lemma parse_u64_show_nat:
  assumes "n < 2 ^ 64"
  shows "parse_u64 (show_nat n) = Some (of_nat n)"
proof -
  obtain c cs where c: "show_nat n = c # cs" "digit_value c \<noteq> None"
    using show_nat_head_digit by blast
  then have "c \<noteq> CHR ''+''" by (auto simp: digit_value_def Let_def)
  with c assms show ?thesis
    using digits_value_show_nat [of n] by (simp add: parse_u64_def Let_def)
qed

subsection \<open>Hash maps as association lists\<close>

text \<open>
  A \<^verbatim>\<open>HashMap\<close> is an association list without duplicate keys (\<^verbatim>\<open>insert\<close> is
  \<^const>\<open>AList.update\<close>, \<^verbatim>\<open>remove\<close> is \<^const>\<open>AList.delete\<close>, \<^verbatim>\<open>get\<close> is \<^const>\<open>map_of\<close>); the
  order of the list is never observed by the code that is modelled with it.
\<close>

abbreviation hm_wf :: "('k \<times> 'v) list \<Rightarrow> bool" where
  "hm_wf m \<equiv> distinct (map fst m)"

abbreviation hm_contains :: "('k \<times> 'v) list \<Rightarrow> 'k \<Rightarrow> bool" where
  "hm_contains m k \<equiv> map_of m k \<noteq> None"

lemma hm_wf_update [simp]: "hm_wf m \<Longrightarrow> hm_wf (AList.update k v m)"
  by (rule distinct_update)

lemma hm_wf_delete [simp]: "hm_wf m \<Longrightarrow> hm_wf (AList.delete k m)"
  by (rule distinct_delete)

lemma map_of_update [simp]: "map_of (AList.update k v m) = (map_of m)(k \<mapsto> v)"
  by (rule update_conv')

lemma map_of_delete [simp]: "map_of (AList.delete k m) = (map_of m)(k := None)"
  by (rule delete_conv')

lemma length_update_new: "map_of m k = None \<Longrightarrow> length (AList.update k v m) = Suc (length m)"
  by (induction m) auto

lemma keys_update: "fst ` set (AList.update k v m) = insert k (fst ` set m)"
  by (induction m) auto

lemma mset_update_new: "map_of m k = None \<Longrightarrow> mset (AList.update k v m) = add_mset (k, v) (mset m)"
  by (induction m) auto

lemma map_of_fold_delete:
  "map_of (fold AList.delete ks m) = (\<lambda>k. if k \<in> set ks then None else map_of m k)"
  by (induction ks arbitrary: m) (auto simp: fun_eq_iff)

lemma hm_wf_fold_delete: "hm_wf m \<Longrightarrow> hm_wf (fold AList.delete ks m)"
  by (induction ks arbitrary: m) simp_all

end
