(* ===== verification/Crypto.thy ===== *)
theory Crypto
  imports Prelude
begin

section \<open>Constant-time comparison and JWK thumbprints (auth/crypto.rs)\<close>

text \<open>
  The third-party primitives that \<^verbatim>\<open>auth::crypto\<close> calls are the fields of a record that every
  definition takes as an argument: \<^verbatim>\<open>sha2::Sha256::digest\<close>, the \<^verbatim>\<open>URL_SAFE_NO_PAD\<close> engine of
  \<^verbatim>\<open>base64\<close>, and \<^verbatim>\<open>subtle\<close>'s slice comparison. What the theorems need of them are the named
  hypotheses below, each a documented property of the crate. Collision resistance of SHA-256 is
  never assumed: where it matters, the theorem is about the digests of the two messages.
\<close>

record crypto_ext =
  sha256 :: "bytes \<Rightarrow> bytes"
  b64_encode :: "bytes \<Rightarrow> string"
  b64_decode :: "string \<Rightarrow> string + bytes"
  slice_ct_eq :: "bytes \<Rightarrow> bytes \<Rightarrow> bool"

text \<open>\<^verbatim>\<open>subtle\<close>: comparing two slices of one length decides their equality.\<close>

definition subtle_decides_eq :: "'a crypto_ext_scheme \<Rightarrow> bool" where
  "subtle_decides_eq X \<longleftrightarrow> (\<forall>a b. length a = length b \<longrightarrow> slice_ct_eq X a b = (a = b))"

text \<open>\<^verbatim>\<open>sha2\<close>: a digest has 32 bytes.\<close>

definition sha256_len32 :: "'a crypto_ext_scheme \<Rightarrow> bool" where
  "sha256_len32 X \<longleftrightarrow> (\<forall>m. length (sha256 X m) = 32)"

text \<open>\<^verbatim>\<open>base64\<close>: decoding an encoding gives the bytes back; the URL-safe alphabet has no quote.\<close>

definition base64_roundtrip :: "'a crypto_ext_scheme \<Rightarrow> bool" where
  "base64_roundtrip X \<longleftrightarrow> (\<forall>b. b64_decode X (b64_encode X b) = Inr b)"

definition base64_no_quote :: "'a crypto_ext_scheme \<Rightarrow> bool" where
  "base64_no_quote X \<longleftrightarrow> (\<forall>b. CHR 0x22 \<notin> set (b64_encode X b))"

subsection \<open>The comparison wrappers\<close>

definition ct_eq_bytes :: "'a crypto_ext_scheme \<Rightarrow> bytes \<Rightarrow> bytes \<Rightarrow> bool" where
  "ct_eq_bytes X a b = (if length a \<noteq> length b then False else slice_ct_eq X a b)"

definition ct_eq_str :: "'a crypto_ext_scheme \<Rightarrow> string \<Rightarrow> string \<Rightarrow> bool" where
  "ct_eq_str X a b = ct_eq_bytes X (as_bytes a) (as_bytes b)"

text \<open>\<^verbatim>\<open>ct_eq_32\<close> compares two \<^verbatim>\<open>[u8; 32]\<close> arrays: the length is part of the Rust type.\<close>

definition ct_eq_32 :: "'a crypto_ext_scheme \<Rightarrow> bytes \<Rightarrow> bytes \<Rightarrow> bool" where
  "ct_eq_32 X a b = slice_ct_eq X a b"

lemma ct_eq_bytes_iff: "subtle_decides_eq X \<Longrightarrow> ct_eq_bytes X a b \<longleftrightarrow> a = b"
  by (auto simp: ct_eq_bytes_def subtle_decides_eq_def)

lemma ct_eq_str_iff: "subtle_decides_eq X \<Longrightarrow> ct_eq_str X s t \<longleftrightarrow> s = t"
  by (simp add: ct_eq_str_def ct_eq_bytes_iff)

lemma ct_eq_32_iff:
  "subtle_decides_eq X \<Longrightarrow> length a = 32 \<Longrightarrow> length b = 32 \<Longrightarrow> ct_eq_32 X a b \<longleftrightarrow> a = b"
  by (simp add: ct_eq_32_def subtle_decides_eq_def)

lemmas ct_eq_iffs = ct_eq_bytes_iff ct_eq_str_iff ct_eq_32_iff

subsection \<open>RFC 7638 thumbprints\<close>

datatype jwk_thumbprint_input = Rsa (rsa_n: bytes) (rsa_e: bytes) | EcP256 (ec_x: bytes) (ec_y: bytes)

definition canonical_json :: "'a crypto_ext_scheme \<Rightarrow> jwk_thumbprint_input \<Rightarrow> string" where
  \<open>canonical_json X input = (case input of
      Rsa n e \<Rightarrow>
        (let e_b64 = b64_encode X e; n_b64 = b64_encode X n in
         ''{"e":"'' @ e_b64 @ ''","kty":"RSA","n":"'' @ n_b64 @ ''"}'')
    | EcP256 x y \<Rightarrow>
        (let x_b64 = b64_encode X x; y_b64 = b64_encode X y in
         ''{"crv":"P-256","kty":"EC","x":"'' @ x_b64 @ ''","y":"'' @ y_b64 @ ''"}''))\<close>

definition jwk_thumbprint :: "'a crypto_ext_scheme \<Rightarrow> jwk_thumbprint_input \<Rightarrow> bytes" where
  "jwk_thumbprint X input = sha256 X (as_bytes (canonical_json X input))"

definition jwk_thumbprint_b64url :: "'a crypto_ext_scheme \<Rightarrow> jwk_thumbprint_input \<Rightarrow> string" where
  "jwk_thumbprint_b64url X input = b64_encode X (jwk_thumbprint X input)"

text \<open>An extension of the record of primitives computes the same thumbprints.\<close>

lemma canonical_json_truncate: "canonical_json (crypto_ext.truncate X) = canonical_json X"
  by (simp add: canonical_json_def crypto_ext.truncate_def fun_eq_iff split: jwk_thumbprint_input.splits)

lemma jwk_thumbprint_truncate: "jwk_thumbprint (crypto_ext.truncate X) = jwk_thumbprint X"
  by (simp add: jwk_thumbprint_def canonical_json_truncate fun_eq_iff)
    (simp add: crypto_ext.truncate_def)

lemma length_jwk_thumbprint: "sha256_len32 X \<Longrightarrow> length (jwk_thumbprint X i) = 32"
  by (simp add: jwk_thumbprint_def sha256_len32_def)

lemma b64_encode_inject:
  assumes "base64_roundtrip X" and "b64_encode X a = b64_encode X b"
  shows "a = b"
proof -
  have "Inr a = b64_decode X (b64_encode X a)"
    using assms(1) by (simp add: base64_roundtrip_def)
  also have "\<dots> = Inr b" using assms by (simp add: base64_roundtrip_def)
  finally show ?thesis by simp
qed

lemma append_quote_inject:
  assumes "a @ q # r = a' @ q # r'" and "q \<notin> set a" and "q \<notin> set a'"
  shows "a = a' \<and> r = r'"
  using assms
proof (induction a arbitrary: a')
  case Nil
  then show ?case by (cases a') auto
next
  case (Cons c cs)
  then show ?case by (cases a') auto
qed

lemma quoted_fields_inject:
  assumes "a @ q # m @ b @ q # t = a' @ q # m @ b' @ q # t"
    and "q \<notin> set a" "q \<notin> set a'" "q \<notin> set b" "q \<notin> set b'"
  shows "a = a' \<and> b = b'"
proof -
  from append_quote_inject [OF assms(1,2,3)]
  have "a = a'" and "m @ b @ q # t = m @ b' @ q # t" by auto
  then show ?thesis using assms(4,5) append_quote_inject [of b q t b' t] by simp
qed

lemma canonical_json_inject:
  assumes rt: "base64_roundtrip X" and nq: "base64_no_quote X"
    and eq: "canonical_json X i = canonical_json X j"
  shows "i = j"
proof -
  have nq': "CHR 0x22 \<notin> set (b64_encode X b)" for b
    using nq by (simp add: base64_no_quote_def)
  note fields = quoted_fields_inject [OF _ nq' nq' nq' nq']
  show ?thesis
  proof (cases i; cases j)
    fix n e n' e'
    assume ij: "i = Rsa n e" "j = Rsa n' e'"
    from eq have "b64_encode X e = b64_encode X e' \<and> b64_encode X n = b64_encode X n'"
      by (intro fields [where m = \<open>'',"kty":"RSA","n":"''\<close> and t = \<open>''}''\<close>])
        (simp add: canonical_json_def ij)
    then show ?thesis using b64_encode_inject [OF rt] ij by blast
  next
    fix x y x' y'
    assume ij: "i = EcP256 x y" "j = EcP256 x' y'"
    from eq have "b64_encode X x = b64_encode X x' \<and> b64_encode X y = b64_encode X y'"
      by (intro fields [where m = \<open>'',"y":"''\<close> and t = \<open>''}''\<close>])
        (simp add: canonical_json_def ij)
    then show ?thesis using b64_encode_inject [OF rt] ij by blast
  qed (use eq in \<open>simp_all add: canonical_json_def\<close>)
qed

text \<open>
  Keys with equal thumbprints are equal, or their canonical documents are two different messages with one
  digest.
\<close>

lemma jwk_thumbprint_binds:
  assumes "base64_roundtrip X" and "base64_no_quote X"
    and "jwk_thumbprint X i = jwk_thumbprint X j" and "i \<noteq> j"
  shows "canonical_json X i \<noteq> canonical_json X j \<and>
    sha256 X (as_bytes (canonical_json X i)) = sha256 X (as_bytes (canonical_json X j))"
  using assms canonical_json_inject [OF assms(1,2), of i j] by (auto simp: jwk_thumbprint_def)

subsection \<open>A concrete instance of the primitives\<close>

text \<open>
  The hypotheses above are consistent: hexadecimal text for base64 (it round-trips and has no
  quote), truncation and zero padding for the digest, equality for the comparison.
\<close>

definition hex_char :: "nat \<Rightarrow> char" where
  "hex_char n = char_of (97 + n)"

definition hex_encode :: "bytes \<Rightarrow> string" where
  "hex_encode b = concat (map (\<lambda>w. [hex_char (unat w div 16), hex_char (unat w mod 16)]) b)"

fun hex_decode :: "string \<Rightarrow> string + bytes" where
  "hex_decode [] = Inr []"
| "hex_decode [c] = Inl ''Invalid input length''"
| "hex_decode (c # d # cs) =
     (if 97 \<le> (of_char c :: nat) \<and> (of_char c :: nat) < 113 \<and>
         97 \<le> (of_char d :: nat) \<and> (of_char d :: nat) < 113
      then bind_result (hex_decode cs)
             (\<lambda>r. Inr (of_nat (16 * (of_char c - 97) + (of_char d - 97)) # r))
      else Inl ''Invalid symbol'')"

definition pad32 :: "bytes \<Rightarrow> bytes" where
  "pad32 b = take 32 (b @ replicate 32 0)"

definition demo_crypto :: crypto_ext where
  "demo_crypto = \<lparr>sha256 = pad32, b64_encode = hex_encode, b64_decode = hex_decode,
                  slice_ct_eq = (\<lambda>a b. a = b)\<rparr>"

lemma of_char_hex_char: "n < 16 \<Longrightarrow> of_char (hex_char n) = 97 + n"
  by (simp add: hex_char_def)

lemma hex_decode_encode: "hex_decode (hex_encode b) = Inr b"
proof (induction b)
  case Nil
  then show ?case by (simp add: hex_encode_def)
next
  case (Cons w ws)
  have "unat w div 16 < 16" using unat_u8_less [of w] by simp
  with Cons show ?case by (simp add: hex_encode_def of_char_hex_char)
qed

lemma demo_crypto_subtle: "subtle_decides_eq demo_crypto"
  by (simp add: subtle_decides_eq_def demo_crypto_def)

lemma demo_crypto_sha256: "sha256_len32 demo_crypto"
  by (simp add: sha256_len32_def demo_crypto_def pad32_def min_def)

lemma demo_crypto_roundtrip: "base64_roundtrip demo_crypto"
  by (simp add: base64_roundtrip_def demo_crypto_def hex_decode_encode)

lemma demo_crypto_no_quote: "base64_no_quote demo_crypto"
proof -
  have "hex_char n \<noteq> CHR 0x22" if "n < 16" for n
    using of_char_hex_char [OF that] by auto
  moreover have "unat (w :: u8) div 16 < 16" for w
    using unat_u8_less [of w] by simp
  ultimately have "CHR 0x22 \<notin> set (hex_encode b)" for b
    by (auto simp: hex_encode_def) (metis mod_less_divisor zero_less_numeral)+
  then show ?thesis by (simp add: base64_no_quote_def demo_crypto_def)
qed

lemmas demo_crypto_laws =
  demo_crypto_subtle demo_crypto_sha256 demo_crypto_roundtrip demo_crypto_no_quote

end
