(* ===== verification/Wire.thy ===== *)
theory Wire
  imports Crypto
begin

section \<open>Data at the boundary to third-party crates\<close>

text \<open>
  The server consumes values that other crates produce: parsed URLs (\<^verbatim>\<open>url\<close>), JOSE headers, JSON
  Web Keys and verified claims (\<^verbatim>\<open>jsonwebtoken\<close>, \<^verbatim>\<open>serde_json\<close>) and HTTP replies (\<^verbatim>\<open>reqwest\<close>).
  Their data types are given here by what the server's code reads of them: an accessor per field
  and a constructor per variant the code matches on, with one constructor for the variants it
  treats alike. The functions of those crates are the fields of the record at the end, which the
  model's definitions take as an argument.
\<close>

subsection \<open>URLs\<close>

record url =
  url_scheme :: string
  url_host_str :: "string option"
  url_port_or_known_default :: "u16 option"
  url_path :: string
  url_query :: "string option"
  url_fragment :: "string option"
  url_username :: string
  url_password :: "string option"
  url_as_str :: string

subsection \<open>JSON Web Keys\<close>

datatype key_algorithm = KA_PS256 | KA_ES256 | KA_Other string

datatype elliptic_curve = P256 | Curve_Other string

datatype algorithm_parameters =
    EllipticCurve elliptic_curve string string
  | RSA string string
  | OctetKey string
  | OctetKeyPair string

record raw_jwk =
  raw_key_algorithm :: "key_algorithm option"
  raw_key_id :: "string option"
  raw_algorithm :: algorithm_parameters

subsection \<open>Signed tokens\<close>

datatype jwt_algorithm = ALG_PS256 | ALG_ES256 | ALG_Other string

record jose_header =
  hdr_typ :: "string option"
  hdr_alg :: jwt_algorithm
  hdr_kid :: "string option"
  hdr_jwk :: "raw_jwk option"

record validation =
  v_algorithms :: "jwt_algorithm list"
  v_validate_exp :: bool
  v_validate_nbf :: bool
  v_validate_aud :: bool
  v_leeway :: u64
  v_required_spec_claims :: "string list"
  v_aud :: "string list option"

datatype jwt_error_kind =
    ExpiredSignature | ImmatureSignature | InvalidIssuer | InvalidAudience
  | InvalidAlgorithm | InvalidAlgorithmName | InvalidKeyFormat | JwtErrorOther string

text \<open>
  The claim structs that \<^verbatim>\<open>serde\<close> fills (auth/token.rs, auth/dpop.rs). Every claim is optional so
  that its absence is reported by name.
\<close>

datatype audience_field = Single string | Multiple "string list"

record cnf_claim =
  cnf_jkt_claim :: "string option"

record token_claims =
  tc_sub :: "string option"
  tc_aud :: "audience_field option"
  tc_iss :: "string option"
  tc_exp :: "u64 option"
  tc_iat :: "u64 option"
  tc_nbf :: "u64 option"
  tc_cnf :: "cnf_claim option"

record dpop_claims =
  dc_htm :: "string option"
  dc_htu :: "string option"
  dc_iat :: "u64 option"
  dc_jti :: "string option"
  dc_ath :: "string option"

subsection \<open>HTTP replies to the server's own requests\<close>

text \<open>
  A GET either fails in transport, or answers with a status and a body whose transfer can still
  fail.
\<close>

datatype http_reply = HttpError string | HttpResponse u16 "string + bytes"

definition is_success :: "u16 \<Rightarrow> bool" where
  "is_success status \<longleftrightarrow> 200 \<le> status \<and> status < 300"

subsection \<open>The third-party functions\<close>

record 'dk ext = crypto_ext +
  url_parse :: "string \<Rightarrow> string + url"
  json_jwk_set :: "bytes \<Rightarrow> string + raw_jwk list"
  json_discovery_jwks_uri :: "bytes \<Rightarrow> string + string"
  decoding_key_from_jwk :: "raw_jwk \<Rightarrow> string + 'dk"
  jwt_decode_header :: "string \<Rightarrow> string + jose_header"
  validation_new :: "jwt_algorithm \<Rightarrow> validation"
  jwt_decode_token :: "string \<Rightarrow> 'dk \<Rightarrow> validation \<Rightarrow> jwt_error_kind + token_claims"
  jwt_decode_proof :: "string \<Rightarrow> 'dk \<Rightarrow> validation \<Rightarrow> jwt_error_kind + dpop_claims"

subsection \<open>A concrete instance\<close>

text \<open>
  An instance of the third-party functions for evaluating the model on examples: URLs all parse to
  the https origin below, and nothing decodes. The theories that need more replace single fields.
\<close>

definition demo_url :: "string \<Rightarrow> url" where
  "demo_url s = \<lparr>url_scheme = ''https'', url_host_str = Some ''h'', url_port_or_known_default = Some 443,
     url_path = s, url_query = None, url_fragment = None, url_username = [], url_password = None,
     url_as_str = s\<rparr>"

definition demo_ext :: "unit ext" where
  "demo_ext = crypto_ext.extend demo_crypto
     \<lparr>url_parse = (\<lambda>s. Inr (demo_url s)), json_jwk_set = (\<lambda>_. Inl ''json''),
      json_discovery_jwks_uri = (\<lambda>_. Inl ''json''), decoding_key_from_jwk = (\<lambda>_. Inr ()),
      jwt_decode_header = (\<lambda>_. Inl ''header''),
      validation_new = (\<lambda>a. \<lparr>v_algorithms = [a], v_validate_exp = True, v_validate_nbf = False,
        v_validate_aud = True, v_leeway = 60, v_required_spec_claims = [''exp''], v_aud = None\<rparr>),
      jwt_decode_token = (\<lambda>_ _ _. Inl InvalidKeyFormat),
      jwt_decode_proof = (\<lambda>_ _ _. Inl InvalidKeyFormat)\<rparr>"

lemma demo_ext_sel [simp]:
  "sha256 demo_ext = pad32" "b64_encode demo_ext = hex_encode" "b64_decode demo_ext = hex_decode"
  "slice_ct_eq demo_ext = (\<lambda>a b. a = b)" "url_parse demo_ext = (\<lambda>s. Inr (demo_url s))"
  "decoding_key_from_jwk demo_ext = (\<lambda>_. Inr ())"
  by (simp_all add: demo_ext_def demo_crypto_def crypto_ext.defs)

end
