(* ===== verification/Jwks.thy ===== *)
theory Jwks
  imports Wire
begin

section \<open>Key sets and the algorithm allowlist (auth/jwks.rs)\<close>

text \<open>
  The typed allowlist, the indexed key set and its parser. The parser can return an error, and it
  can panic: \<open>compute_thumbprint\<close> calls \<^verbatim>\<open>unreachable!\<close> on octet keys.
\<close>

datatype jws_alg = Ps256 | Es256

definition from_jwt_key_alg :: "key_algorithm \<Rightarrow> jws_alg option" where
  "from_jwt_key_alg alg = (case alg of
      KA_PS256 \<Rightarrow> Some Ps256
    | KA_ES256 \<Rightarrow> Some Es256
    | _ \<Rightarrow> None)"

definition to_jwt_algorithm :: "jws_alg \<Rightarrow> jwt_algorithm" where
  "to_jwt_algorithm alg = (case alg of Ps256 \<Rightarrow> ALG_PS256 | Es256 \<Rightarrow> ALG_ES256)"

record jwk =
  jwk_kid :: "string option"
  jwk_alg :: jws_alg
  jwk_thumbprint_field :: bytes
  jwk_raw :: raw_jwk

record jwks =
  by_kid :: "(string \<times> jwk) list"
  by_thumbprint :: "(bytes \<times> jwk) list"
  keyless :: "jwk list"

definition jwks_empty :: jwks where
  "jwks_empty = \<lparr>by_kid = [], by_thumbprint = [], keyless = []\<rparr>"

definition jwks_is_empty :: "jwks \<Rightarrow> bool" where
  "jwks_is_empty j \<longleftrightarrow> by_kid j = [] \<and> keyless j = []"

definition jwks_len :: "jwks \<Rightarrow> nat" where
  "jwks_len j = length (by_kid j) + length (keyless j)"

definition iter_thumbprints :: "jwks \<Rightarrow> bytes list" where
  "iter_thumbprints j = map fst (by_thumbprint j)"

definition lookup_candidates :: "jwks \<Rightarrow> string option \<Rightarrow> jwk list" where
  "lookup_candidates j kid =
     (case kid of
        Some k \<Rightarrow> (case map_of (by_kid j) k of Some found \<Rightarrow> [found] | None \<Rightarrow> keyless j)
      | None \<Rightarrow> keyless j)"

definition lookup_by_thumbprint :: "jwks \<Rightarrow> bytes \<Rightarrow> jwk option" where
  "lookup_by_thumbprint j tp = map_of (by_thumbprint j) tp"

datatype jwks_fetch_error =
    JwksHttp string
  | JwksBadStatus u16
  | JwksParse string
  | JwksEmpty
  | UnsupportedCurve
  | InvalidEcCoordinate nat
  | Base64Decode string

definition compute_thumbprint ::
    "'a crypto_ext_scheme \<Rightarrow> raw_jwk \<Rightarrow> (jwks_fetch_error + bytes) outcome" where
  "compute_thumbprint X jwk = (case raw_algorithm jwk of
      EllipticCurve curve x_b64 y_b64 \<Rightarrow> Returns (
        if curve \<noteq> P256 then Inl UnsupportedCurve
        else bind_result (map_err Base64Decode (b64_decode X x_b64)) (\<lambda>x.
             bind_result (map_err Base64Decode (b64_decode X y_b64)) (\<lambda>y.
             if length x \<noteq> 32 \<or> length y \<noteq> 32
             then Inl (InvalidEcCoordinate (max (length x) (length y)))
             else Inr (jwk_thumbprint X (EcP256 x y)))))
    | RSA n_b64 e_b64 \<Rightarrow> Returns (
        bind_result (map_err Base64Decode (b64_decode X n_b64)) (\<lambda>n.
        bind_result (map_err Base64Decode (b64_decode X e_b64)) (\<lambda>e.
        Inr (jwk_thumbprint X (Rsa n e)))))
    | OctetKey _ \<Rightarrow> Panics
    | OctetKeyPair _ \<Rightarrow> Panics)"

text \<open>One iteration of the loop of \<open>parse_jwks\<close> after the filter, and the loop.\<close>

definition add_key :: "raw_jwk \<Rightarrow> jws_alg \<Rightarrow> bytes \<Rightarrow> jwks \<Rightarrow> jwks" where
  "add_key raw alg thumbprint j =
     (let kid = raw_key_id raw;
          entry = \<lparr>jwk_kid = kid, jwk_alg = alg, jwk_thumbprint_field = thumbprint, jwk_raw = raw\<rparr>;
          j' = j\<lparr>by_thumbprint := AList.update thumbprint entry (by_thumbprint j)\<rparr>
      in (case kid of
            Some k \<Rightarrow> j'\<lparr>by_kid := AList.update k entry (by_kid j')\<rparr>
          | None \<Rightarrow> j'\<lparr>keyless := keyless j' @ [entry]\<rparr>))"

fun parse_keys ::
    "'a crypto_ext_scheme \<Rightarrow> raw_jwk list \<Rightarrow> jwks \<Rightarrow> (jwks_fetch_error + jwks) outcome" where
  "parse_keys X [] j = Returns (Inr j)"
| "parse_keys X (raw # rest) j =
     (case Option.bind (raw_key_algorithm raw) from_jwt_key_alg of
        None \<Rightarrow> parse_keys X rest j
      | Some alg \<Rightarrow>
          (case compute_thumbprint X raw of
             Panics \<Rightarrow> Panics
           | Returns (Inl e) \<Rightarrow> Returns (Inl e)
           | Returns (Inr thumbprint) \<Rightarrow> parse_keys X rest (add_key raw alg thumbprint j)))"

definition parse_jwks ::
    "'a crypto_ext_scheme \<Rightarrow> raw_jwk list \<Rightarrow> (jwks_fetch_error + jwks) outcome" where
  "parse_jwks X raw = bind_outcome (parse_keys X raw jwks_empty) (\<lambda>r. Returns (
     bind_result r (\<lambda>j. if by_kid j = [] \<and> keyless j = [] then Inl JwksEmpty else Inr j)))"

definition fetch_jwks ::
    "'dk ext \<Rightarrow> (string \<Rightarrow> http_reply) \<Rightarrow> url \<Rightarrow> (jwks_fetch_error + jwks) outcome" where
  "fetch_jwks X http jwks_uri =
     (case http (url_as_str jwks_uri) of
        HttpError e \<Rightarrow> Returns (Inl (JwksHttp e))
      | HttpResponse status body \<Rightarrow>
          if \<not> is_success status then Returns (Inl (JwksBadStatus status))
          else (case body of
                  Inl e \<Rightarrow> Returns (Inl (JwksHttp e))
                | Inr bytes \<Rightarrow>
                    (case json_jwk_set X bytes of
                       Inl e \<Rightarrow> Returns (Inl (JwksParse e))
                     | Inr raw \<Rightarrow> parse_jwks X raw)))"

subsection \<open>Well-formed key sets\<close>

text \<open>
  A key of a parsed set carries an allowlisted algorithm that agrees with its JWK and the
  thumbprint of its own key material; every key that verification can use (found by its \<^verbatim>\<open>kid\<close>, or
  keyless) is also in the thumbprint index that the overlap check reads.
\<close>

definition allowlisted :: "raw_jwk \<Rightarrow> bool" where
  "allowlisted raw \<longleftrightarrow> Option.bind (raw_key_algorithm raw) from_jwt_key_alg \<noteq> None"

definition octet_key :: "raw_jwk \<Rightarrow> bool" where
  "octet_key raw = (case raw_algorithm raw of
      OctetKey _ \<Rightarrow> True | OctetKeyPair _ \<Rightarrow> True | _ \<Rightarrow> False)"

definition jwk_wf :: "'a crypto_ext_scheme \<Rightarrow> jwk \<Rightarrow> bool" where
  "jwk_wf X e \<longleftrightarrow>
     Option.bind (raw_key_algorithm (jwk_raw e)) from_jwt_key_alg = Some (jwk_alg e) \<and>
     jwk_kid e = raw_key_id (jwk_raw e) \<and>
     compute_thumbprint X (jwk_raw e) = Returns (Inr (jwk_thumbprint_field e))"

definition jwks_wf :: "'a crypto_ext_scheme \<Rightarrow> jwks \<Rightarrow> bool" where
  "jwks_wf X j \<longleftrightarrow> hm_wf (by_kid j) \<and> hm_wf (by_thumbprint j) \<and>
     (\<forall>k e. map_of (by_kid j) k = Some e \<longrightarrow>
        jwk_wf X e \<and> jwk_kid e = Some k \<and> jwk_thumbprint_field e \<in> set (iter_thumbprints j)) \<and>
     (\<forall>e \<in> set (keyless j).
        jwk_wf X e \<and> jwk_kid e = None \<and> jwk_thumbprint_field e \<in> set (iter_thumbprints j)) \<and>
     (\<forall>t e. map_of (by_thumbprint j) t = Some e \<longrightarrow> jwk_wf X e \<and> jwk_thumbprint_field e = t)"

lemma jwks_wf_empty: "jwks_wf X jwks_empty"
  by (simp add: jwks_wf_def jwks_empty_def)

lemma iter_thumbprints_add_key:
  "set (iter_thumbprints (add_key raw alg tp j)) = insert tp (set (iter_thumbprints j))"
  by (simp add: add_key_def Let_def iter_thumbprints_def keys_update split: option.splits)

lemma jwks_wf_add_key:
  assumes "jwks_wf X j" and "Option.bind (raw_key_algorithm raw) from_jwt_key_alg = Some alg"
    and "compute_thumbprint X raw = Returns (Inr tp)"
  shows "jwks_wf X (add_key raw alg tp j)"
proof -
  have tps: "set (iter_thumbprints (add_key raw alg tp j)) = insert tp (set (iter_thumbprints j))"
    by (rule iter_thumbprints_add_key)
  have "jwk_wf X \<lparr>jwk_kid = raw_key_id raw, jwk_alg = alg, jwk_thumbprint_field = tp, jwk_raw = raw\<rparr>"
    using assms(2,3) by (simp add: jwk_wf_def)
  then show ?thesis
    unfolding jwks_wf_def tps using assms(1)
    by (auto simp: add_key_def Let_def jwks_wf_def simp del: map_of_eq_Some_iff
        split: option.splits if_splits)
qed

lemma parse_keys_wf:
  "parse_keys X raws j = Returns (Inr j') \<Longrightarrow> jwks_wf X j \<Longrightarrow> jwks_wf X j'"
proof (induction X raws j rule: parse_keys.induct)
  case (2 X raw rest j)
  then show ?case
    by (auto split: option.splits outcome.splits sum.splits dest: jwks_wf_add_key)
qed simp

lemma jwks_wf_candidates:
  assumes "jwks_wf X j" and "c \<in> set (lookup_candidates j kid)"
  shows "jwk_wf X c" and "jwk_thumbprint_field c \<in> set (iter_thumbprints j)"
  using assms
  by (auto simp: lookup_candidates_def jwks_wf_def simp del: map_of_eq_Some_iff
      split: option.splits)

lemma parse_keys_panics_iff:
  "parse_keys X raws j = Panics \<longleftrightarrow>
     (\<exists>pre r post. raws = pre @ r # post \<and> allowlisted r \<and> octet_key r \<and>
        (\<forall>p \<in> set pre. allowlisted p \<longrightarrow> (\<exists>t. compute_thumbprint X p = Returns (Inr t))))"
  (is "_ \<longleftrightarrow> ?bad raws")
proof (induction raws arbitrary: j)
  case (Cons raw rest)
  have oct: "compute_thumbprint X raw = Panics \<longleftrightarrow> octet_key raw"
    by (auto simp: compute_thumbprint_def octet_key_def split: algorithm_parameters.splits)
  have step: "?bad (raw # rest) \<longleftrightarrow> (allowlisted raw \<and> octet_key raw) \<or>
      ((allowlisted raw \<longrightarrow> (\<exists>t. compute_thumbprint X raw = Returns (Inr t))) \<and> ?bad rest)"
    (is "?l \<longleftrightarrow> ?r")
  proof
    assume ?l
    then obtain pre r post where d: "raw # rest = pre @ r # post" "allowlisted r" "octet_key r"
      "\<forall>p \<in> set pre. allowlisted p \<longrightarrow> (\<exists>t. compute_thumbprint X p = Returns (Inr t))" by blast
    show ?r
    proof (cases pre)
      case Nil
      with d show ?thesis by simp
    next
      case (Cons p ps)
      with d show ?thesis by auto
    qed
  next
    assume ?r
    then show ?l
    proof
      assume "allowlisted raw \<and> octet_key raw"
      then show ?l by (intro exI [of _ "[]"]) auto
    next
      assume a: "(allowlisted raw \<longrightarrow> (\<exists>t. compute_thumbprint X raw = Returns (Inr t))) \<and> ?bad rest"
      then obtain pre r post where "rest = pre @ r # post" "allowlisted r" "octet_key r"
        "\<forall>p \<in> set pre. allowlisted p \<longrightarrow> (\<exists>t. compute_thumbprint X p = Returns (Inr t))" by blast
      with a show ?l by (intro exI [of _ "raw # pre"]) auto
    qed
  qed
  show ?case
    unfolding step using Cons oct
    by (auto simp: allowlisted_def split: option.splits outcome.splits sum.splits)
qed simp

lemma parse_jwks_Inr:
  assumes "parse_jwks X raws = Returns (Inr j)"
  shows "jwks_wf X j" and "\<not> jwks_is_empty j"
proof -
  from assms have "parse_keys X raws jwks_empty = Returns (Inr j)" and ne: "by_kid j \<noteq> [] \<or> keyless j \<noteq> []"
    by (auto simp: parse_jwks_def result_simps split: if_splits)
  then show "jwks_wf X j" using parse_keys_wf jwks_wf_empty by blast
  from ne show "\<not> jwks_is_empty j" by (auto simp: jwks_is_empty_def)
qed

lemma fetch_jwks_Inr:
  "fetch_jwks X http u = Returns (Inr j) \<Longrightarrow> jwks_wf X j \<and> \<not> jwks_is_empty j"
  by (auto simp: fetch_jwks_def parse_jwks_Inr split: http_reply.splits if_splits sum.splits)

lemma parse_keys_index:
  "parse_keys X raws j = Returns (Inr j') \<Longrightarrow>
     set (iter_thumbprints j') = set (iter_thumbprints j) \<union>
       {t. \<exists>r \<in> set raws. allowlisted r \<and> compute_thumbprint X r = Returns (Inr t)}"
proof (induction X raws j rule: parse_keys.induct)
  case (2 X raw rest j)
  then show ?case
    by (auto simp: allowlisted_def iter_thumbprints_add_key
        split: option.splits outcome.splits sum.splits)
qed simp

text \<open>Every key that verification may use was in the document.\<close>

definition jwks_keys :: "jwks \<Rightarrow> jwk set" where
  "jwks_keys j = ran (map_of (by_kid j)) \<union> set (keyless j)"

lemma jwks_keys_candidates: "set (lookup_candidates j kid) \<subseteq> jwks_keys j"
  by (auto simp: lookup_candidates_def jwks_keys_def ran_def split: option.splits)

lemma jwks_keys_add_key:
  "jwk_raw ` jwks_keys (add_key raw alg tp j) \<subseteq> insert raw (jwk_raw ` jwks_keys j)"
  by (auto simp: jwks_keys_def add_key_def Let_def ran_def split: option.splits if_splits)

lemma parse_keys_origin:
  "parse_keys X raws j = Returns (Inr j') \<Longrightarrow>
     jwk_raw ` jwks_keys j' \<subseteq> jwk_raw ` jwks_keys j \<union> set raws"
proof (induction X raws j rule: parse_keys.induct)
  case (2 X raw rest j)
  show ?case
  proof (cases "Option.bind (raw_key_algorithm raw) from_jwt_key_alg")
    case None
    with 2 show ?thesis by auto
  next
    case (Some alg)
    with "2.prems" obtain t where t: "compute_thumbprint X raw = Returns (Inr t)"
      by (auto split: outcome.splits sum.splits)
    have "jwk_raw ` jwks_keys j' \<subseteq> jwk_raw ` jwks_keys (add_key raw alg t j) \<union> set rest"
      using "2.prems" Some t by (intro "2.IH"(2)) auto
    then show ?thesis using jwks_keys_add_key [of raw alg t j] by auto
  qed
qed simp

lemma compute_thumbprint_truncate:
  "compute_thumbprint (crypto_ext.truncate X) = compute_thumbprint X"
proof -
  have dec: "b64_decode (crypto_ext.truncate X) = b64_decode X"
    by (simp add: crypto_ext.truncate_def)
  show ?thesis
    by (intro ext, unfold compute_thumbprint_def jwk_thumbprint_truncate dec) (rule refl)
qed

lemma parse_keys_truncate: "parse_keys (crypto_ext.truncate X) rs j = parse_keys X rs j"
  by (induction rs arbitrary: j)
    (simp_all add: compute_thumbprint_truncate split: option.splits outcome.splits sum.splits)

lemma parse_jwks_truncate: "parse_jwks (crypto_ext.truncate X) rs = parse_jwks X rs"
  by (simp add: parse_jwks_def parse_keys_truncate)

lemma jwks_wf_truncate: "jwks_wf (crypto_ext.truncate X) j = jwks_wf X j"
  by (simp add: jwks_wf_def jwk_wf_def compute_thumbprint_truncate)

subsection \<open>Properties\<close>

text \<open>
  C30. A key set that \<open>parse_jwks\<close> accepts is not empty, its thumbprint index (which the
  cross-context overlap check reads) holds exactly the thumbprints of the allowlisted keys of the
  document, and every key that signature verification can be offered, for any \<^verbatim>\<open>kid\<close>, is a key of
  the document with algorithm PS256 or ES256, carries the thumbprint of its own key material and
  is covered by that index.
\<close>

theorem parse_jwks_sound:
  assumes "parse_jwks X raws = Returns (Inr j)"
  shows "\<not> jwks_is_empty j \<and>
    set (iter_thumbprints j) =
      {t. \<exists>r \<in> set raws. allowlisted r \<and> compute_thumbprint X r = Returns (Inr t)} \<and>
    (\<forall>kid. \<forall>c \<in> set (lookup_candidates j kid).
       jwk_raw c \<in> set raws \<and> allowlisted (jwk_raw c) \<and>
       compute_thumbprint X (jwk_raw c) = Returns (Inr (jwk_thumbprint_field c)) \<and>
       jwk_thumbprint_field c \<in> set (iter_thumbprints j))"
proof -
  have p: "parse_keys X raws jwks_empty = Returns (Inr j)"
    using assms by (auto simp: parse_jwks_def result_simps split: if_splits)
  note wf = parse_jwks_Inr [OF assms]
  have "jwk_raw ` jwks_keys j \<subseteq> set raws"
    using parse_keys_origin [OF p] by (simp add: jwks_keys_def jwks_empty_def)
  then have "jwk_raw c \<in> set raws" if "c \<in> set (lookup_candidates j kid)" for c kid
    using that jwks_keys_candidates by blast
  moreover have "set (iter_thumbprints j) =
      {t. \<exists>r \<in> set raws. allowlisted r \<and> compute_thumbprint X r = Returns (Inr t)}"
    using parse_keys_index [OF p] by (simp add: iter_thumbprints_def jwks_empty_def)
  ultimately show ?thesis
    using wf jwks_wf_candidates [OF wf(1)] by (auto simp: jwk_wf_def allowlisted_def)
qed

definition demo_rsa_key :: "string \<Rightarrow> bytes \<Rightarrow> raw_jwk" where
  "demo_rsa_key k e = \<lparr>raw_key_algorithm = Some KA_PS256, raw_key_id = Some k,
     raw_algorithm = RSA ''bc'' (hex_encode e)\<rparr>"

definition demo_octet_key :: raw_jwk where
  "demo_octet_key = \<lparr>raw_key_algorithm = Some KA_ES256, raw_key_id = None,
     raw_algorithm = OctetKey ''aa''\<rparr>"

definition demo_jwks :: "string \<Rightarrow> bytes \<Rightarrow> jwks" where
  "demo_jwks k e = add_key (demo_rsa_key k e) Ps256 (jwk_thumbprint demo_crypto (Rsa [18] e)) jwks_empty"

lemma demo_rsa_thumbprint:
  "compute_thumbprint demo_crypto (demo_rsa_key k e) =
     Returns (Inr (jwk_thumbprint demo_crypto (Rsa [18] e)))"
  by (simp add: compute_thumbprint_def demo_rsa_key_def demo_crypto_def hex_decode_encode)

lemma demo_jwks_parse: "parse_jwks demo_crypto [demo_rsa_key k e] = Returns (Inr (demo_jwks k e))"
proof -
  have "Option.bind (raw_key_algorithm (demo_rsa_key k e)) from_jwt_key_alg = Some Ps256"
    by (simp add: demo_rsa_key_def from_jwt_key_alg_def)
  moreover have "by_kid (demo_jwks k e) \<noteq> []"
    by (simp add: demo_jwks_def demo_rsa_key_def add_key_def jwks_empty_def Let_def)
  ultimately show ?thesis
    by (simp add: parse_jwks_def demo_rsa_thumbprint demo_jwks_def)
qed

lemma demo_jwks_thumbprints:
  "iter_thumbprints (demo_jwks k e) = [jwk_thumbprint demo_crypto (Rsa [18] e)]"
  by (simp add: demo_jwks_def add_key_def Let_def iter_thumbprints_def jwks_empty_def
      demo_rsa_key_def)

theorem parse_jwks_sound_witness:
  "\<not> jwks_is_empty (demo_jwks ''k1'' [1]) \<and>
   iter_thumbprints (demo_jwks ''k1'' [1]) = [jwk_thumbprint demo_crypto (Rsa [18] [1])] \<and>
   (\<forall>kid. jwk_raw ` set (lookup_candidates (demo_jwks ''k1'' [1]) kid) \<subseteq> {demo_rsa_key ''k1'' [1]})"
  using parse_jwks_sound [OF demo_jwks_parse [of "''k1''" "[1]"]]
  by (auto simp: demo_jwks_thumbprints)

text \<open>
  C31. Parsing a key set panics exactly when some allowlisted key of the document (by its \<^verbatim>\<open>alg\<close>
  member) is an octet key or octet key pair and every allowlisted key before it has a thumbprint:
  the \<^verbatim>\<open>unreachable!\<close> of \<open>compute_thumbprint\<close> is reachable, because the filter looks at \<^verbatim>\<open>alg\<close>
  and not at \<^verbatim>\<open>kty\<close>.
\<close>

theorem parse_jwks_panics_iff:
  "parse_jwks X raws = Panics \<longleftrightarrow>
     (\<exists>pre r post. raws = pre @ r # post \<and> allowlisted r \<and> octet_key r \<and>
        (\<forall>p \<in> set pre. allowlisted p \<longrightarrow> (\<exists>t. compute_thumbprint X p = Returns (Inr t))))"
  unfolding parse_keys_panics_iff [where j = jwks_empty, symmetric]
  by (simp add: parse_jwks_def bind_outcome_def split: outcome.splits)

theorem parse_jwks_panics_witness:
  "parse_jwks demo_crypto [demo_rsa_key ''k1'' [1], demo_octet_key] = Panics"
proof -
  have "allowlisted demo_octet_key" and "octet_key demo_octet_key"
    by (simp_all add: demo_octet_key_def allowlisted_def octet_key_def from_jwt_key_alg_def)
  then show ?thesis
    unfolding parse_jwks_panics_iff
    by (intro exI [of _ "[demo_rsa_key ''k1'' [1]]"] exI [of _ demo_octet_key] exI [of _ "[]"])
      (simp add: demo_rsa_thumbprint)
qed

end
