(* ===== verification/Settings.thy ===== *)
theory Settings
  imports Prelude
begin

section \<open>Authentication settings and clocks\<close>

text \<open>
  The seven tuning knobs of \<^verbatim>\<open>AuthConfig\<close> (config/server_config.rs), which every part of
  \<^verbatim>\<open>auth/\<close> reads, and the monotonic clock. \<^verbatim>\<open>usize\<close> is 64 bits wide: the server is built for
  64-bit Unix targets, where the checked conversion in the validator is the identity.
\<close>

record auth_config =
  clock_skew_secs :: u64
  dpop_freshness_secs :: u64
  jwks_refresh_secs :: u64
  discovery_refresh_secs :: u64
  on_demand_refresh_min_interval_secs :: u64
  jti_replay_window_secs :: u64
  max_replay_entries :: u64

definition auth_config_default :: auth_config where
  "auth_config_default = (let clock_skew = 60; dpop_freshness = 30 in
     \<lparr>clock_skew_secs = clock_skew, dpop_freshness_secs = dpop_freshness,
      jwks_refresh_secs = 3600, discovery_refresh_secs = 86400,
      on_demand_refresh_min_interval_secs = 30,
      jti_replay_window_secs = dpop_freshness + clock_skew,
      max_replay_entries = 100000\<rparr>)"

text \<open>
  What the validator of config/validate.rs guarantees about the settings: freshness plus skew does
  not overflow and is covered by the replay window, and the replay store has room for at least
  1024 entries.
\<close>

definition auth_config_ok :: "auth_config \<Rightarrow> bool" where
  "auth_config_ok c \<longleftrightarrow>
     0 < clock_skew_secs c \<and> 0 < dpop_freshness_secs c \<and> 0 < jwks_refresh_secs c \<and>
     0 < discovery_refresh_secs c \<and> 0 < on_demand_refresh_min_interval_secs c \<and>
     unat (dpop_freshness_secs c) + unat (clock_skew_secs c) < 2 ^ 64 \<and>
     dpop_freshness_secs c + clock_skew_secs c \<le> jti_replay_window_secs c \<and>
     1024 \<le> max_replay_entries c"

lemma auth_config_default_ok: "auth_config_ok auth_config_default"
  by (simp add: auth_config_ok_def auth_config_default_def)

subsection \<open>Monotonic instants\<close>

text \<open>
  \<^verbatim>\<open>std::time::Instant\<close> on Unix is a timespec whose seconds are an \<^verbatim>\<open>i64\<close>. An instant is modelled
  in nanoseconds; \<^verbatim>\<open>Instant::checked_add\<close> fails when the seconds leave the \<^verbatim>\<open>i64\<close> range.
\<close>

type_synonym instant = nat

definition nanos_per_sec :: nat where
  "nanos_per_sec = 1000000000"

definition instant_checked_add :: "instant \<Rightarrow> u64 \<Rightarrow> instant option" where
  "instant_checked_add t secs =
     (let r = t + unat secs * nanos_per_sec in
      if r div nanos_per_sec < 2 ^ 63 then Some r else None)"

lemma instant_checked_add_Some:
  "instant_checked_add t secs = Some r \<Longrightarrow> r = t + unat secs * nanos_per_sec"
  by (auto simp: instant_checked_add_def Let_def split: if_splits)

end
