(* ===== verification/Net.thy ===== *)
theory Net
  imports Prelude
begin

section \<open>Socket addresses of the standard library\<close>

text \<open>
  \<^verbatim>\<open>std::net\<close> as the server uses it: the address types and their \<^verbatim>\<open>FromStr\<close> parser. The parser is
  a set of readers over the remaining input; a reader that fails leaves the input where it was,
  which in this model is the caller still holding the input it passed.
\<close>

datatype ip_addr = V4 "u8 list" | V6 "u16 list"

datatype socket_addr = SocketV4 "u8 list" u16 | SocketV6 "u16 list" "32 word" u16

definition to_digit :: "nat \<Rightarrow> char \<Rightarrow> nat option" where
  "to_digit radix c =
     (let n = (of_char c :: nat);
          v = (if 48 \<le> n \<and> n \<le> 57 then Some (n - 48)
               else if 97 \<le> n \<and> n \<le> 122 then Some (n - 87)
               else if 65 \<le> n \<and> n \<le> 90 then Some (n - 55)
               else None)
      in (case v of None \<Rightarrow> None | Some d \<Rightarrow> if d < radix then Some d else None))"

text \<open>The maximal run of digits at the front of the input.\<close>

fun take_digits :: "nat \<Rightarrow> string \<Rightarrow> nat list \<times> string" where
  "take_digits radix [] = ([], [])"
| "take_digits radix (c # cs) =
     (case to_digit radix c of
        None \<Rightarrow> ([], c # cs)
      | Some d \<Rightarrow> (let (ds, rest) = take_digits radix cs in (d # ds, rest)))"

definition digits_to_nat :: "nat \<Rightarrow> nat list \<Rightarrow> nat" where
  "digits_to_nat radix ds = foldl (\<lambda>acc d. acc * radix + d) 0 ds"

text \<open>
  \<^verbatim>\<open>read_number\<close> for a result type below \<open>bound\<close>: without a limit on the digits the arithmetic is
  checked at the width of the result.
\<close>

definition read_number ::
    "nat \<Rightarrow> nat option \<Rightarrow> bool \<Rightarrow> nat \<Rightarrow> string \<Rightarrow> (nat \<times> string) option" where
  "read_number radix max_digits allow_zero_prefix bound s =
     (let (ds, rest) = take_digits radix s in
      if ds = [] then None
      else if (case max_digits of None \<Rightarrow> False | Some m \<Rightarrow> m < length ds) then None
      else if \<not> allow_zero_prefix \<and> hd ds = 0 \<and> 1 < length ds then None
      else if bound \<le> digits_to_nat radix ds then None
      else Some (digits_to_nat radix ds, rest))"

definition read_given_char :: "char \<Rightarrow> string \<Rightarrow> string option" where
  "read_given_char t s = (case s of [] \<Rightarrow> None | c # cs \<Rightarrow> if c = t then Some cs else None)"

definition read_separator :: "char \<Rightarrow> nat \<Rightarrow> string \<Rightarrow> string option" where
  "read_separator sep index s = (if 0 < index then read_given_char sep s else Some s)"

fun read_octets :: "nat \<Rightarrow> nat \<Rightarrow> string \<Rightarrow> (u8 list \<times> string) option" where
  "read_octets 0 i s = Some ([], s)"
| "read_octets (Suc n) i s =
     Option.bind (read_separator CHR ''.'' i s) (\<lambda>s1.
     Option.bind (read_number 10 (Some 3) False 256 s1) (\<lambda>(v, s2).
     Option.bind (read_octets n (Suc i) s2) (\<lambda>(vs, s3).
     Some (of_nat v # vs, s3))))"

definition read_ipv4_addr :: "string \<Rightarrow> (u8 list \<times> string) option" where
  "read_ipv4_addr s = read_octets 4 0 s"

definition group_of_octets :: "u8 \<Rightarrow> u8 \<Rightarrow> u16" where
  "group_of_octets a b = of_nat (unat a * 256 + unat b)"

text \<open>
  \<^verbatim>\<open>read_groups\<close> with \<open>n\<close> groups left: the groups read, whether they end in an embedded IPv4
  address, and the rest.
\<close>

fun read_groups :: "nat \<Rightarrow> nat \<Rightarrow> string \<Rightarrow> u16 list \<times> bool \<times> string" where
  "read_groups 0 i s = ([], False, s)"
| "read_groups (Suc n) i s =
     (case (if 0 < n then Option.bind (read_separator CHR '':'' i s) read_ipv4_addr else None) of
        Some (os, rest) \<Rightarrow>
          ([group_of_octets (os ! 0) (os ! 1), group_of_octets (os ! 2) (os ! 3)], True, rest)
      | None \<Rightarrow>
          (case Option.bind (read_separator CHR '':'' i s) (read_number 16 (Some 4) True 65536) of
             None \<Rightarrow> ([], False, s)
           | Some (g, s1) \<Rightarrow>
               (let (gs, v4, s2) = read_groups n (Suc i) s1 in (of_nat g # gs, v4, s2))))"

definition read_ipv6_addr :: "string \<Rightarrow> (u16 list \<times> string) option" where
  "read_ipv6_addr s =
     (let (head, head_ipv4, s1) = read_groups 8 0 s in
      if length head = 8 then Some (head, s1)
      else if head_ipv4 then None
      else Option.bind (read_given_char CHR '':'' s1) (\<lambda>s2.
           Option.bind (read_given_char CHR '':'' s2) (\<lambda>s3.
           let (tail, _, s4) = read_groups (8 - (length head + 1)) 0 s3 in
           Some (head @ replicate (8 - length head - length tail) 0 @ tail, s4))))"

definition read_port :: "string \<Rightarrow> (u16 \<times> string) option" where
  "read_port s = Option.bind (read_given_char CHR '':'' s) (\<lambda>s1.
     map_option (\<lambda>(p, r). (of_nat p, r)) (read_number 10 None True 65536 s1))"

definition read_scope_id :: "string \<Rightarrow> (32 word \<times> string) option" where
  "read_scope_id s = Option.bind (read_given_char CHR ''%'' s) (\<lambda>s1.
     map_option (\<lambda>(p, r). (of_nat p, r)) (read_number 10 None True 4294967296 s1))"

definition read_socket_addr_v4 :: "string \<Rightarrow> (socket_addr \<times> string) option" where
  "read_socket_addr_v4 s = Option.bind (read_ipv4_addr s) (\<lambda>(ip, s1).
     Option.bind (read_port s1) (\<lambda>(port, s2). Some (SocketV4 ip port, s2)))"

definition read_socket_addr_v6 :: "string \<Rightarrow> (socket_addr \<times> string) option" where
  "read_socket_addr_v6 s =
     Option.bind (read_given_char CHR ''['' s) (\<lambda>s1.
     Option.bind (read_ipv6_addr s1) (\<lambda>(ip, s2).
     let (scope_id, s3) = unwrap_or (read_scope_id s2) (0, s2) in
     Option.bind (read_given_char CHR '']'' s3) (\<lambda>s4.
     Option.bind (read_port s4) (\<lambda>(port, s5).
     Some (SocketV6 ip scope_id port, s5)))))"

text \<open>\<^verbatim>\<open>parse_with\<close>: the whole input must be consumed.\<close>

definition parse_all :: "('a \<times> string) option \<Rightarrow> 'a option" where
  "parse_all r = (case r of Some (x, []) \<Rightarrow> Some x | _ \<Rightarrow> None)"

definition parse_ip_addr :: "string \<Rightarrow> ip_addr option" where
  "parse_ip_addr s = parse_all (opt_or
     (map_option (\<lambda>(a, r). (V4 a, r)) (read_ipv4_addr s))
     (map_option (\<lambda>(a, r). (V6 a, r)) (read_ipv6_addr s)))"

definition parse_socket_addr :: "string \<Rightarrow> socket_addr option" where
  "parse_socket_addr s = parse_all (opt_or (read_socket_addr_v4 s) (read_socket_addr_v6 s))"

definition socket_ip :: "socket_addr \<Rightarrow> ip_addr" where
  "socket_ip a = (case a of SocketV4 ip _ \<Rightarrow> V4 ip | SocketV6 ip _ _ \<Rightarrow> V6 ip)"

subsection \<open>Addresses have their type's size\<close>

lemma read_octets_length: "read_octets n i s = Some (vs, r) \<Longrightarrow> length vs = n"
  by (induction n i s arbitrary: vs r rule: read_octets.induct)
    (auto simp: bind_eq_Some_conv)

lemma read_ipv4_addr_length: "read_ipv4_addr s = Some (vs, r) \<Longrightarrow> length vs = 4"
  by (simp add: read_ipv4_addr_def read_octets_length)

lemma read_groups_length: "read_groups n i s = (gs, v4, r) \<Longrightarrow> length gs \<le> n"
proof (induction n i s arbitrary: gs v4 r rule: read_groups.induct)
  case (2 n i s)
  let ?four = "if 0 < n then Option.bind (read_separator CHR '':'' i s) read_ipv4_addr else None"
  let ?num = "Option.bind (read_separator CHR '':'' i s) (read_number 16 (Some 4) True 65536)"
  show ?case
  proof (cases ?four)
    case None
    note four = this
    show ?thesis
    proof (cases ?num)
      case None
      with four "2.prems" show ?thesis by simp
    next
      case (Some p)
      then obtain g s1 where p: "?num = Some (g, s1)" by (cases p) auto
      obtain gs' v' r' where rest: "read_groups n (Suc i) s1 = (gs', v', r')" by (metis prod_cases3)
      from "2.IH" [OF four p refl rest] show ?thesis
        using "2.prems" four p rest by auto
    qed
  next
    case (Some p)
    then have "0 < n" by (auto split: if_splits)
    with Some "2.prems" show ?thesis by (cases p) auto
  qed
qed simp

lemma read_ipv6_addr_length: "read_ipv6_addr s = Some (gs, r) \<Longrightarrow> length gs = 8"
proof -
  assume a: "read_ipv6_addr s = Some (gs, r)"
  obtain head v4 s1 where h: "read_groups 8 0 s = (head, v4, s1)" by (metis prod_cases3)
  show ?thesis
  proof (cases "length head = 8")
    case True
    with a h show ?thesis by (simp add: read_ipv6_addr_def)
  next
    case False
    obtain s3 where gs: "gs = head @ replicate (8 - length head -
          length (fst (read_groups (8 - (length head + 1)) 0 s3))) 0 @
        fst (read_groups (8 - (length head + 1)) 0 s3)"
      using a h False
      by (auto simp: read_ipv6_addr_def bind_eq_Some_conv case_prod_unfold Let_def split: if_splits)
    have "length (fst (read_groups (8 - (length head + 1)) 0 s3)) \<le> 8 - (length head + 1)"
      by (metis read_groups_length prod.collapse)
    then show ?thesis
      using gs read_groups_length [OF h] False by simp
  qed
qed

definition ip_addr_wf :: "ip_addr \<Rightarrow> bool" where
  "ip_addr_wf a = (case a of V4 os \<Rightarrow> length os = 4 | V6 gs \<Rightarrow> length gs = 8)"

lemma parse_ip_addr_wf: "parse_ip_addr s = Some a \<Longrightarrow> ip_addr_wf a"
  by (auto simp: parse_ip_addr_def parse_all_def opt_or_def ip_addr_wf_def read_ipv4_addr_length
      read_ipv6_addr_length split: option.splits list.splits)

end
