(* ===== verification/Config.thy ===== *)
theory Config
  imports Wire Settings Net
begin

section \<open>Configuration (config/)\<close>

text \<open>
  Loading the configuration: environment variables and an optional TOML file are read into partial
  configurations (config/env.rs, config/file.rs), merged key by key with the environment first
  (config/merge.rs) and validated (config/validate.rs, config/server_config.rs). The TOML
  deserializer, the \<^verbatim>\<open>url\<close> and the \<^verbatim>\<open>ipnet\<close> parsers are third-party and parameters here; so are the
  contents of the file system and of the process environment.
\<close>

subsection \<open>Partial configurations (config/env.rs)\<close>

text \<open>
  \<^verbatim>\<open>toml::Value\<close> as the validator matches on it: integers are \<^verbatim>\<open>i64\<close>, and for every other kind
  only its printed form matters.
\<close>

datatype toml_value = TomlInteger "64 word" | TomlString string | TomlOther string

datatype trusted_proxies_source = ProxyList "string list" | Csv string

record partial_oidc =
  po_issuer_url :: "string option"
  po_audience :: "string option"

record partial_storage_local_fs =
  pl_root :: "string option"

record partial_storage =
  ps_local_fs :: "partial_storage_local_fs option"

record partial_auth =
  pa_clock_skew_secs :: "toml_value option"
  pa_dpop_freshness_secs :: "toml_value option"
  pa_jwks_refresh_secs :: "toml_value option"
  pa_discovery_refresh_secs :: "toml_value option"
  pa_on_demand_refresh_min_interval_secs :: "toml_value option"
  pa_jti_replay_window_secs :: "toml_value option"
  pa_max_replay_entries :: "toml_value option"

record partial_config =
  pc_bind_address :: "string option"
  pc_block_size_bytes :: "toml_value option"
  pc_storage_backend :: "string option"
  pc_storage :: "partial_storage option"
  pc_trusted_proxies :: "trusted_proxies_source option"
  pc_drain_timeout_secs :: "toml_value option"
  pc_vault_oidc :: "partial_oidc option"
  pc_admin_oidc :: "partial_oidc option"
  pc_auth :: "partial_auth option"

definition partial_config_default :: partial_config where
  "partial_config_default = \<lparr>pc_bind_address = None, pc_block_size_bytes = None,
     pc_storage_backend = None, pc_storage = None, pc_trusted_proxies = None,
     pc_drain_timeout_secs = None, pc_vault_oidc = None, pc_admin_oidc = None, pc_auth = None\<rparr>"

type_synonym env_map = "string \<rightharpoonup> string"

definition collect_oidc :: "env_map \<Rightarrow> string \<Rightarrow> string \<Rightarrow> partial_oidc option" where
  "collect_oidc env issuer_key audience_key =
     (let o1 = \<lparr>po_issuer_url = env issuer_key, po_audience = env audience_key\<rparr> in
      if po_issuer_url o1 \<noteq> None \<or> po_audience o1 \<noteq> None then Some o1 else None)"

definition collect_auth :: "env_map \<Rightarrow> partial_auth option" where
  "collect_auth env =
     (let get = (\<lambda>k. map_option TomlString (env k));
          auth = \<lparr>pa_clock_skew_secs = get ''APOK_AUTH_CLOCK_SKEW_SECS'',
            pa_dpop_freshness_secs = get ''APOK_AUTH_DPOP_FRESHNESS_SECS'',
            pa_jwks_refresh_secs = get ''APOK_AUTH_JWKS_REFRESH_SECS'',
            pa_discovery_refresh_secs = get ''APOK_AUTH_DISCOVERY_REFRESH_SECS'',
            pa_on_demand_refresh_min_interval_secs =
              get ''APOK_AUTH_ON_DEMAND_REFRESH_MIN_INTERVAL_SECS'',
            pa_jti_replay_window_secs = get ''APOK_AUTH_JTI_REPLAY_WINDOW_SECS'',
            pa_max_replay_entries = get ''APOK_AUTH_MAX_REPLAY_ENTRIES''\<rparr>;
          any_auth_field = (\<exists>k \<in> set [''APOK_AUTH_CLOCK_SKEW_SECS'',
            ''APOK_AUTH_DPOP_FRESHNESS_SECS'', ''APOK_AUTH_JWKS_REFRESH_SECS'',
            ''APOK_AUTH_DISCOVERY_REFRESH_SECS'', ''APOK_AUTH_ON_DEMAND_REFRESH_MIN_INTERVAL_SECS'',
            ''APOK_AUTH_JTI_REPLAY_WINDOW_SECS'', ''APOK_AUTH_MAX_REPLAY_ENTRIES'']. env k \<noteq> None)
      in if any_auth_field then Some auth else None)"

definition collect_env :: "env_map \<Rightarrow> partial_config" where
  "collect_env env =
     \<lparr>pc_bind_address = env ''APOK_BIND_ADDRESS'',
      pc_block_size_bytes = map_option TomlString (env ''APOK_BLOCK_SIZE_BYTES''),
      pc_storage_backend = env ''APOK_STORAGE_BACKEND'',
      pc_storage = map_option (\<lambda>v. \<lparr>ps_local_fs = Some \<lparr>pl_root = Some v\<rparr>\<rparr>)
        (env ''APOK_STORAGE_LOCAL_FS_ROOT''),
      pc_trusted_proxies = map_option Csv (env ''APOK_TRUSTED_PROXIES''),
      pc_drain_timeout_secs = map_option TomlString (env ''APOK_DRAIN_TIMEOUT_SECS''),
      pc_vault_oidc = collect_oidc env ''APOK_VAULT_OIDC_ISSUER_URL'' ''APOK_VAULT_OIDC_AUDIENCE'',
      pc_admin_oidc = collect_oidc env ''APOK_ADMIN_OIDC_ISSUER_URL'' ''APOK_ADMIN_OIDC_AUDIENCE'',
      pc_auth = collect_auth env\<rparr>"

subsection \<open>Merging (config/merge.rs)\<close>

text \<open>The shape that the four merge functions share: two present tables are merged key by key.\<close>

definition merge_tables :: "('a \<Rightarrow> 'a \<Rightarrow> 'a) \<Rightarrow> 'a option \<Rightarrow> 'a option \<Rightarrow> 'a option" where
  "merge_tables f env file = (case (env, file) of
      (Some e, Some g) \<Rightarrow> Some (f e g)
    | (Some e, None) \<Rightarrow> Some e
    | (None, Some g) \<Rightarrow> Some g
    | (None, None) \<Rightarrow> None)"

definition merge_local_fs ::
    "partial_storage_local_fs option \<Rightarrow> partial_storage_local_fs option \<Rightarrow> partial_storage_local_fs option" where
  "merge_local_fs = merge_tables (\<lambda>e f. \<lparr>pl_root = opt_or (pl_root e) (pl_root f)\<rparr>)"

definition merge_storage ::
    "partial_storage option \<Rightarrow> partial_storage option \<Rightarrow> partial_storage option" where
  "merge_storage = merge_tables (\<lambda>e f.
     \<lparr>ps_local_fs = merge_local_fs (ps_local_fs e) (ps_local_fs f)\<rparr>)"

definition merge_oidc :: "partial_oidc option \<Rightarrow> partial_oidc option \<Rightarrow> partial_oidc option" where
  "merge_oidc = merge_tables (\<lambda>e f.
     \<lparr>po_issuer_url = opt_or (po_issuer_url e) (po_issuer_url f),
      po_audience = opt_or (po_audience e) (po_audience f)\<rparr>)"

definition merge_auth :: "partial_auth option \<Rightarrow> partial_auth option \<Rightarrow> partial_auth option" where
  "merge_auth = merge_tables (\<lambda>e f.
     \<lparr>pa_clock_skew_secs = opt_or (pa_clock_skew_secs e) (pa_clock_skew_secs f),
      pa_dpop_freshness_secs = opt_or (pa_dpop_freshness_secs e) (pa_dpop_freshness_secs f),
      pa_jwks_refresh_secs = opt_or (pa_jwks_refresh_secs e) (pa_jwks_refresh_secs f),
      pa_discovery_refresh_secs = opt_or (pa_discovery_refresh_secs e) (pa_discovery_refresh_secs f),
      pa_on_demand_refresh_min_interval_secs =
        opt_or (pa_on_demand_refresh_min_interval_secs e) (pa_on_demand_refresh_min_interval_secs f),
      pa_jti_replay_window_secs = opt_or (pa_jti_replay_window_secs e) (pa_jti_replay_window_secs f),
      pa_max_replay_entries = opt_or (pa_max_replay_entries e) (pa_max_replay_entries f)\<rparr>)"

definition env_overrides_file :: "partial_config \<Rightarrow> partial_config \<Rightarrow> partial_config" where
  "env_overrides_file env file =
     \<lparr>pc_bind_address = opt_or (pc_bind_address env) (pc_bind_address file),
      pc_block_size_bytes = opt_or (pc_block_size_bytes env) (pc_block_size_bytes file),
      pc_storage_backend = opt_or (pc_storage_backend env) (pc_storage_backend file),
      pc_storage = merge_storage (pc_storage env) (pc_storage file),
      pc_trusted_proxies = opt_or (pc_trusted_proxies env) (pc_trusted_proxies file),
      pc_drain_timeout_secs = opt_or (pc_drain_timeout_secs env) (pc_drain_timeout_secs file),
      pc_vault_oidc = merge_oidc (pc_vault_oidc env) (pc_vault_oidc file),
      pc_admin_oidc = merge_oidc (pc_admin_oidc env) (pc_admin_oidc file),
      pc_auth = merge_auth (pc_auth env) (pc_auth file)\<rparr>"

subsection \<open>The validated configuration (config/server_config.rs, config/error.rs)\<close>

datatype storage_backend = BackendNone | BackendLocalFs (local_fs_root: string)

record oidc_audience_config =
  oc_issuer_url :: url
  oc_audience :: string

record 'net server_config =
  bind_address :: socket_addr
  block_size_bytes :: u64
  backend :: storage_backend
  trusted_proxies :: "'net list"
  vault_oidc :: oidc_audience_config
  admin_oidc :: oidc_audience_config
  drain_timeout :: u64
  auth :: auth_config

datatype config_error =
    Missing string
  | InvalidBindAddress string
  | InvalidBlockSize string
  | InvalidStorageBackend string
  | LocalFsRootMissing
  | LocalFsRootNotAbsolute string
  | InvalidCidr string nat string
  | InvalidIssuerUrl string string string
  | InvalidIssuerUrlScheme string string string
  | IssuerUrlHasComponent string string string
  | EmptyAudience string
  | DuplicateAudience string
  | InvalidDrainTimeout string
  | InvalidAuthDurationSecs string string
  | InvalidAuthMaxReplayEntries string
  | AuthReplayWindowTooSmall u64 u64 u64 u64
  | FileRead string string
  | TomlParse string
  | NonUnicodeEnv string

definition oidc_audience_config_new ::
    "'dk ext \<Rightarrow> string \<Rightarrow> string \<Rightarrow> string \<Rightarrow> config_error + oidc_audience_config" where
  "oidc_audience_config_new X audience_name issuer_url audience =
     bind_result (map_err (InvalidIssuerUrl audience_name issuer_url) (url_parse X issuer_url)) (\<lambda>parsed.
     if url_scheme parsed \<noteq> ''https''
     then Inl (InvalidIssuerUrlScheme audience_name issuer_url (url_scheme parsed))
     else if url_query parsed \<noteq> None
     then Inl (IssuerUrlHasComponent audience_name issuer_url ''query'')
     else if url_fragment parsed \<noteq> None
     then Inl (IssuerUrlHasComponent audience_name issuer_url ''fragment'')
     else if audience = [] then Inl (EmptyAudience audience_name)
     else Inr \<lparr>oc_issuer_url = parsed, oc_audience = audience\<rparr>)"

subsection \<open>Validation (config/validate.rs)\<close>

definition default_drain_timeout_secs :: u64 where
  "default_drain_timeout_secs = 30"

definition min_replay_entries :: u64 where
  "min_replay_entries = 1024"

definition parse_positive_u64 ::
    "toml_value option \<Rightarrow> (string \<Rightarrow> config_error) \<Rightarrow> config_error + u64 option" where
  "parse_positive_u64 v invalid = (case v of
      None \<Rightarrow> Inr None
    | Some (TomlInteger n) \<Rightarrow>
        if 0 < sint n then Inr (Some n) else Inl (invalid (show_int (sint n)))
    | Some (TomlString s) \<Rightarrow>
        (case parse_u64 s of
           None \<Rightarrow> Inl (invalid s)
         | Some n \<Rightarrow> if 0 < n then Inr (Some n) else Inl (invalid s))
    | Some (TomlOther printed) \<Rightarrow> Inl (invalid printed))"

definition parse_auth_positive_u64 :: "string \<Rightarrow> toml_value option \<Rightarrow> config_error + u64 option" where
  "parse_auth_positive_u64 key v = parse_positive_u64 v (InvalidAuthDurationSecs key)"

text \<open>\<^verbatim>\<open>usize::try_from\<close> of a \<^verbatim>\<open>u64\<close> succeeds on the 64-bit targets of the model.\<close>

definition parse_max_replay_entries :: "toml_value option \<Rightarrow> config_error + u64 option" where
  "parse_max_replay_entries v = (case v of
      None \<Rightarrow> Inr None
    | Some (TomlInteger n) \<Rightarrow>
        if sint min_replay_entries \<le> sint n then Inr (Some n)
        else Inl (InvalidAuthMaxReplayEntries (show_int (sint n)))
    | Some (TomlString s) \<Rightarrow>
        (case parse_u64 s of
           None \<Rightarrow> Inl (InvalidAuthMaxReplayEntries s)
         | Some n \<Rightarrow> if min_replay_entries \<le> n then Inr (Some n)
                    else Inl (InvalidAuthMaxReplayEntries s))
    | Some (TomlOther printed) \<Rightarrow> Inl (InvalidAuthMaxReplayEntries printed))"

definition parse_auth :: "partial_auth option \<Rightarrow> config_error + auth_config" where
  "parse_auth partial = (let defaults = auth_config_default in (case partial of
      None \<Rightarrow> Inr defaults
    | Some p \<Rightarrow>
        bind_result (parse_auth_positive_u64 ''clock_skew_secs'' (pa_clock_skew_secs p)) (\<lambda>v1.
        let skew = unwrap_or v1 (clock_skew_secs defaults) in
        bind_result (parse_auth_positive_u64 ''dpop_freshness_secs'' (pa_dpop_freshness_secs p)) (\<lambda>v2.
        let freshness = unwrap_or v2 (dpop_freshness_secs defaults) in
        bind_result (parse_auth_positive_u64 ''jwks_refresh_secs'' (pa_jwks_refresh_secs p)) (\<lambda>v3.
        let jwks_refresh = unwrap_or v3 (jwks_refresh_secs defaults) in
        bind_result (parse_auth_positive_u64 ''discovery_refresh_secs'' (pa_discovery_refresh_secs p)) (\<lambda>v4.
        let discovery_refresh = unwrap_or v4 (discovery_refresh_secs defaults) in
        bind_result (parse_auth_positive_u64 ''on_demand_refresh_min_interval_secs''
          (pa_on_demand_refresh_min_interval_secs p)) (\<lambda>v5.
        let on_demand = unwrap_or v5 (on_demand_refresh_min_interval_secs defaults) in
        bind_result (ok_or (checked_add freshness skew)
          (AuthReplayWindowTooSmall 0 freshness skew (- 1))) (\<lambda>required.
        bind_result (parse_auth_positive_u64 ''jti_replay_window_secs'' (pa_jti_replay_window_secs p)) (\<lambda>v6.
        let window = unwrap_or v6 required in
        bind_result (parse_max_replay_entries (pa_max_replay_entries p)) (\<lambda>v7.
        let max_entries = unwrap_or v7 (max_replay_entries defaults) in
        if window < required
        then Inl (AuthReplayWindowTooSmall window freshness skew required)
        else Inr \<lparr>clock_skew_secs = skew, dpop_freshness_secs = freshness,
               jwks_refresh_secs = jwks_refresh, discovery_refresh_secs = discovery_refresh,
               on_demand_refresh_min_interval_secs = on_demand,
               jti_replay_window_secs = window, max_replay_entries = max_entries\<rparr>))))))))))"

definition parse_bind_address :: "string option \<Rightarrow> config_error + socket_addr" where
  "parse_bind_address v =
     bind_result (ok_or v (Missing ''bind_address'')) (\<lambda>s.
     ok_or (parse_socket_addr s) (InvalidBindAddress s))"

definition path_is_absolute :: "string \<Rightarrow> bool" where
  "path_is_absolute p = (case p of [] \<Rightarrow> False | c # _ \<Rightarrow> c = CHR ''/'')"

definition parse_storage_backend ::
    "string option \<Rightarrow> partial_storage option \<Rightarrow> config_error + storage_backend" where
  "parse_storage_backend discriminator storage_block =
     bind_result (ok_or discriminator (Missing ''storage_backend'')) (\<lambda>v.
     if v = ''none'' then Inr BackendNone
     else if v = ''local_fs'' then
       bind_result (ok_or (Option.bind (Option.bind storage_block ps_local_fs) pl_root)
         LocalFsRootMissing) (\<lambda>root.
       if \<not> path_is_absolute root then Inl (LocalFsRootNotAbsolute root)
       else Inr (BackendLocalFs root))
     else Inl (InvalidStorageBackend v))"

text \<open>
  For an empty entry the source reports the error of parsing the empty string, which \<^verbatim>\<open>ipnet\<close>
  always rejects.
\<close>

definition unwrap_err :: "string + 'a \<Rightarrow> string" where
  "unwrap_err r = (case r of Inl e \<Rightarrow> e | Inr _ \<Rightarrow> [])"

fun parse_cidrs ::
    "(string \<Rightarrow> string + 'net) \<Rightarrow> nat \<Rightarrow> string list \<Rightarrow> config_error + 'net list" where
  "parse_cidrs parse_net position [] = Inr []"
| "parse_cidrs parse_net position (entry # rest) =
     (if entry = [] then Inl (InvalidCidr entry position (unwrap_err (parse_net [])))
      else (case parse_net entry of
              Inl e \<Rightarrow> Inl (InvalidCidr entry position e)
            | Inr net \<Rightarrow>
                bind_result (parse_cidrs parse_net (position + 1) rest) (\<lambda>nets. Inr (net # nets))))"

definition parse_trusted_proxies ::
    "(string \<Rightarrow> string + 'net) \<Rightarrow> trusted_proxies_source option \<Rightarrow> config_error + 'net list" where
  "parse_trusted_proxies parse_net v = (case v of
      None \<Rightarrow> Inl (Missing ''trusted_proxies'')
    | Some src \<Rightarrow>
        (let entries = (case src of
             ProxyList xs \<Rightarrow> xs
           | Csv s \<Rightarrow> if s = [] then [] else map trim (split_on CHR '','' s))
         in parse_cidrs parse_net 0 entries))"

definition parse_drain_timeout :: "toml_value option \<Rightarrow> config_error + u64" where
  "parse_drain_timeout v =
     bind_result (parse_positive_u64 v InvalidDrainTimeout) (\<lambda>secs.
     Inr (unwrap_or secs default_drain_timeout_secs))"

text \<open>The four key names; the callers pass no other audience or field.\<close>

definition oidc_missing_key :: "string \<Rightarrow> string \<Rightarrow> string" where
  "oidc_missing_key audience_name field = audience_name @ ''_oidc.'' @ field"

definition parse_oidc ::
    "'dk ext \<Rightarrow> string \<Rightarrow> partial_oidc option \<Rightarrow> config_error + oidc_audience_config" where
  "parse_oidc X audience_name v =
     bind_result (ok_or v (Missing (oidc_missing_key audience_name ''issuer_url''))) (\<lambda>po.
     bind_result (ok_or (po_issuer_url po)
       (Missing (oidc_missing_key audience_name ''issuer_url''))) (\<lambda>issuer.
     bind_result (ok_or (po_audience po)
       (Missing (oidc_missing_key audience_name ''audience''))) (\<lambda>audience.
     oidc_audience_config_new X audience_name issuer audience)))"

definition validate ::
    "'dk ext \<Rightarrow> (string \<Rightarrow> string + 'net) \<Rightarrow> partial_config \<Rightarrow> config_error + 'net server_config" where
  "validate X parse_net p =
     bind_result (parse_bind_address (pc_bind_address p)) (\<lambda>bind.
     bind_result (parse_positive_u64 (pc_block_size_bytes p) InvalidBlockSize) (\<lambda>bs.
     bind_result (ok_or bs (Missing ''block_size_bytes'')) (\<lambda>block_size.
     bind_result (parse_storage_backend (pc_storage_backend p) (pc_storage p)) (\<lambda>sb.
     bind_result (parse_trusted_proxies parse_net (pc_trusted_proxies p)) (\<lambda>proxies.
     bind_result (parse_drain_timeout (pc_drain_timeout_secs p)) (\<lambda>drain.
     bind_result (parse_oidc X ''vault'' (pc_vault_oidc p)) (\<lambda>vault.
     bind_result (parse_oidc X ''admin'' (pc_admin_oidc p)) (\<lambda>admin.
     if oc_audience vault = oc_audience admin then Inl (DuplicateAudience (oc_audience vault))
     else bind_result (parse_auth (pc_auth p)) (\<lambda>au.
     Inr \<lparr>bind_address = bind, block_size_bytes = block_size, backend = sb,
          trusted_proxies = proxies, vault_oidc = vault, admin_oidc = admin,
          drain_timeout = drain, auth = au\<rparr>)))))))))"

subsection \<open>Loading (config/mod.rs, config/file.rs, config/extra_ca.rs)\<close>

text \<open>
  An operating-system string is a byte string; \<^verbatim>\<open>to_str\<close> accepts the well-formed UTF-8 ones.
\<close>

definition cont_byte :: "nat \<Rightarrow> bool" where
  "cont_byte n \<longleftrightarrow> 0x80 \<le> n \<and> n \<le> 0xBF"

fun utf8_valid :: "nat list \<Rightarrow> bool" where
  "utf8_valid [] \<longleftrightarrow> True"
| "utf8_valid (a # bs) \<longleftrightarrow>
     (if a < 0x80 then utf8_valid bs
      else if 0xC2 \<le> a \<and> a \<le> 0xDF then
        (case bs of b # r \<Rightarrow> cont_byte b \<and> utf8_valid r | _ \<Rightarrow> False)
      else if 0xE0 \<le> a \<and> a \<le> 0xEF then
        (case bs of b # c # r \<Rightarrow>
            cont_byte b \<and> (a = 0xE0 \<longrightarrow> 0xA0 \<le> b) \<and> (a = 0xED \<longrightarrow> b \<le> 0x9F) \<and>
            cont_byte c \<and> utf8_valid r
         | _ \<Rightarrow> False)
      else if 0xF0 \<le> a \<and> a \<le> 0xF4 then
        (case bs of b # c # d # r \<Rightarrow>
            cont_byte b \<and> (a = 0xF0 \<longrightarrow> 0x90 \<le> b) \<and> (a = 0xF4 \<longrightarrow> b \<le> 0x8F) \<and>
            cont_byte c \<and> cont_byte d \<and> utf8_valid r
         | _ \<Rightarrow> False)
      else False)"

definition to_str :: "string \<Rightarrow> string option" where
  "to_str os = (if utf8_valid (map of_char os) then Some os else None)"

fun collect_apok_env :: "(string \<times> string) list \<Rightarrow> env_map \<Rightarrow> config_error + env_map" where
  "collect_apok_env [] m = Inr m"
| "collect_apok_env ((key_os, val_os) # rest) m =
     (case to_str key_os of
        None \<Rightarrow> collect_apok_env rest m
      | Some key \<Rightarrow>
          if strip_prefix ''APOK_'' key = None then collect_apok_env rest m
          else (case to_str val_os of
                  None \<Rightarrow> Inl (NonUnicodeEnv key)
                | Some v \<Rightarrow> collect_apok_env rest (m(key \<mapsto> v))))"

definition load_optional_file ::
    "(string \<Rightarrow> string + string) \<Rightarrow> (string \<Rightarrow> string + partial_config) \<Rightarrow> string option \<Rightarrow>
     config_error + partial_config" where
  "load_optional_file read_to_string toml_from_str path = (case path of
      None \<Rightarrow> Inr partial_config_default
    | Some path_str \<Rightarrow>
        bind_result (map_err (FileRead path_str) (read_to_string path_str)) (\<lambda>content.
        map_err TomlParse (toml_from_str content)))"

definition load ::
    "'dk ext \<Rightarrow> (string \<Rightarrow> string + 'net) \<Rightarrow> (string \<Rightarrow> string + string) \<Rightarrow>
     (string \<Rightarrow> string + partial_config) \<Rightarrow> (string \<times> string) list \<Rightarrow>
     config_error + 'net server_config" where
  "load X parse_net read_to_string toml_from_str vars_os =
     bind_result (collect_apok_env vars_os Map.empty) (\<lambda>env_map.
     let env_partial = collect_env env_map;
         toml_path = Option.bind (env_map ''APOK_CONFIG_PATH'') (\<lambda>s. if s = [] then None else Some s)
     in bind_result (load_optional_file read_to_string toml_from_str toml_path) (\<lambda>file_partial.
        validate X parse_net (env_overrides_file env_partial file_partial)))"

text \<open>The same from explicit inputs, as the tests use it.\<close>

definition load_from ::
    "'dk ext \<Rightarrow> (string \<Rightarrow> string + 'net) \<Rightarrow> (string \<Rightarrow> string + partial_config) \<Rightarrow> (string \<rightharpoonup> string) \<Rightarrow> string option \<Rightarrow>
     config_error + 'net server_config" where
  "load_from X parse_net toml_from_str env toml_text =
     (let env_partial = collect_env env in
      bind_result (case toml_text of
          Some t \<Rightarrow> map_err TomlParse (toml_from_str t)
        | None \<Rightarrow> Inr partial_config_default) (\<lambda>file_partial.
      validate X parse_net (env_overrides_file env_partial file_partial)))"

lemma load_is_load_from:
  assumes "collect_apok_env vars_os Map.empty = Inr env"
    and "Option.bind (env ''APOK_CONFIG_PATH'') (\<lambda>s. if s = [] then None else Some s) = path"
    and "case path of None \<Rightarrow> toml_text = None | Some p \<Rightarrow> \<exists>t. read_to_string p = Inr t \<and> toml_text = Some t"
  shows "load X parse_net read_to_string toml_from_str vars_os = load_from X parse_net toml_from_str env toml_text"
  using assms by (auto simp: load_def load_from_def load_optional_file_def Let_def split: option.splits)

datatype extra_ca_error = ExtraCaErrorRead string string

definition load_optional_pem ::
    "(string \<Rightarrow> string + bytes) \<Rightarrow> string option \<Rightarrow> extra_ca_error + (string \<times> bytes) option" where
  "load_optional_pem read_file extra_ca_cert_file = (case extra_ca_cert_file of
      None \<Rightarrow> Inr None
    | Some path \<Rightarrow>
        if path = [] then Inr None
        else bind_result (map_err (ExtraCaErrorRead path) (read_file path)) (\<lambda>bytes. Inr (Some (path, bytes))))"

subsection \<open>The environment map\<close>

definition apok_key :: "string \<Rightarrow> bool" where
  "apok_key k \<longleftrightarrow> to_str k \<noteq> None \<and> strip_prefix ''APOK_'' k \<noteq> None"

lemma collect_apok_env_eq:
  "(\<forall>(k, v) \<in> set vs. apok_key k \<longrightarrow> to_str v \<noteq> None) \<Longrightarrow>
     collect_apok_env vs m = Inr (m ++ map_of (rev (filter (\<lambda>(k, _). apok_key k) vs)))"
proof (induction vs m rule: collect_apok_env.induct)
  case (2 k v rest m)
  have t: "to_str os = None \<or> to_str os = Some os" for os by (simp add: to_str_def)
  show ?case
  proof (cases "apok_key k")
    case False
    then have "collect_apok_env ((k, v) # rest) m = collect_apok_env rest m"
      using t [of k] by (auto simp: apok_key_def)
    with False 2 t [of k] show ?thesis by (auto simp: apok_key_def)
  next
    case True
    then have k: "to_str k = Some k" "strip_prefix ''APOK_'' k \<noteq> None"
      using t [of k] by (auto simp: apok_key_def)
    have v: "to_str v = Some v" using True "2.prems" t [of v] by auto
    have "collect_apok_env ((k, v) # rest) m = collect_apok_env rest (m(k \<mapsto> v))"
      using k v by auto
    also have "\<dots> = Inr (m(k \<mapsto> v) ++ map_of (rev (filter (\<lambda>(k, _). apok_key k) rest)))"
      using "2.IH"(3) [OF k(1) k(2) v] "2.prems" by (simp add: fun_upd_def)
    finally show ?thesis using True by (simp add: map_add_def fun_eq_iff split: option.splits)
  qed
qed simp

subsection \<open>What validation guarantees\<close>

lemma parse_positive_u64_pos:
  "parse_positive_u64 v invalid = Inr (Some n) \<Longrightarrow> 0 < n"
proof -
  have "0 < sint m \<Longrightarrow> 0 < m" for m :: "64 word"
    by (metis less_irrefl signed_0 word_gt_0)
  moreover assume "parse_positive_u64 v invalid = Inr (Some n)"
  ultimately show ?thesis
    by (auto simp: parse_positive_u64_def split: option.splits toml_value.splits if_splits)
qed

lemma parse_auth_positive_u64_pos:
  "parse_auth_positive_u64 key v = Inr r \<Longrightarrow> 0 < d \<Longrightarrow> 0 < unwrap_or r d"
  by (cases r) (auto simp: parse_auth_positive_u64_def dest: parse_positive_u64_pos)

lemma uint_of_nonneg_sint:
  fixes m :: "64 word"
  assumes "0 \<le> sint m"
  shows "uint m = sint m"
proof -
  have "sint m < 2 ^ 63" using sint_lt [of m] by simp
  with assms show ?thesis by (simp add: uint_sint take_bit_int_eq_self)
qed

lemma parse_max_replay_entries_ge:
  assumes "parse_max_replay_entries v = Inr r"
  shows "1024 \<le> unwrap_or r (max_replay_entries auth_config_default)"
proof -
  have "1024 \<le> m" if "1024 \<le> sint m" for m :: "64 word"
    using that uint_of_nonneg_sint [of m] by (simp add: word_le_def)
  then show ?thesis
    using assms
    by (cases r) (auto simp: parse_max_replay_entries_def min_replay_entries_def auth_config_default_def
        split: option.splits toml_value.splits if_splits)
qed

lemma parse_auth_ok: "parse_auth partial = Inr c \<Longrightarrow> auth_config_ok c"
proof (cases partial)
  case None
  then show "parse_auth partial = Inr c \<Longrightarrow> auth_config_ok c"
    using auth_config_default_ok by (simp add: parse_auth_def)
next
  case (Some p)
  have d: "0 < clock_skew_secs auth_config_default" "0 < dpop_freshness_secs auth_config_default"
    "0 < jwks_refresh_secs auth_config_default" "0 < discovery_refresh_secs auth_config_default"
    "0 < on_demand_refresh_min_interval_secs auth_config_default"
    by (simp_all add: auth_config_default_def)
  assume "parse_auth partial = Inr c"
  then show "auth_config_ok c"
    using Some d parse_max_replay_entries_ge
    by (auto simp: parse_auth_def Let_def result_simps checked_add_Some_iff auth_config_ok_def
        not_less parse_auth_positive_u64_pos split: if_splits)
qed

lemma parse_drain_timeout_pos: "parse_drain_timeout v = Inr d \<Longrightarrow> 0 < d"
  by (auto simp: parse_drain_timeout_def result_simps unwrap_or_def default_drain_timeout_secs_def
      dest: parse_positive_u64_pos split: option.splits)

lemma parse_oidc_ok:
  "parse_oidc X name v = Inr c \<Longrightarrow>
     url_scheme (oc_issuer_url c) = ''https'' \<and> url_query (oc_issuer_url c) = None \<and>
     url_fragment (oc_issuer_url c) = None \<and> oc_audience c \<noteq> []"
  by (auto simp: parse_oidc_def oidc_audience_config_new_def result_simps split: if_splits)

definition server_config_ok :: "'net server_config \<Rightarrow> bool" where
  "server_config_ok c \<longleftrightarrow>
     0 < block_size_bytes c \<and> 0 < drain_timeout c \<and>
     (case backend c of BackendNone \<Rightarrow> True | BackendLocalFs root \<Rightarrow> path_is_absolute root) \<and>
     (\<forall>o1 \<in> set [vault_oidc c, admin_oidc c].
        url_scheme (oc_issuer_url o1) = ''https'' \<and> url_query (oc_issuer_url o1) = None \<and>
        url_fragment (oc_issuer_url o1) = None \<and> oc_audience o1 \<noteq> []) \<and>
     oc_audience (vault_oidc c) \<noteq> oc_audience (admin_oidc c) \<and>
     auth_config_ok (auth c)"

lemma validate_ok: "validate X parse_net p = Inr c \<Longrightarrow> server_config_ok c"
  by (auto simp: validate_def result_simps server_config_ok_def parse_oidc_ok parse_auth_ok
      parse_positive_u64_pos parse_storage_backend_def parse_drain_timeout_pos
      split: if_splits storage_backend.splits)

subsection \<open>Properties\<close>

text \<open>
  C28. Whatever the environment, the file and the third-party parsers deliver, a configuration that
  \<open>load\<close> returns is safe to run: positive block size and drain timeout, an absolute storage root,
  https issuers without query or fragment, two different non-empty audiences, positive intervals,
  a replay window that covers freshness plus clock skew without overflow, and room for at least
  1024 replay entries.
\<close>

theorem load_ok:
  assumes "load X parse_net read_to_string toml_from_str vars_os = Inr c"
  shows "server_config_ok c"
  using assms by (auto simp: load_def Let_def result_simps intro: validate_ok)

definition demo_vars :: "(string \<times> string) list" where
  "demo_vars =
     [(''APOK_BIND_ADDRESS'', ''0.0.0.0:80''), (''APOK_BLOCK_SIZE_BYTES'', ''4096''),
      (''APOK_STORAGE_BACKEND'', ''local_fs''), (''APOK_STORAGE_LOCAL_FS_ROOT'', ''/data''),
      (''APOK_TRUSTED_PROXIES'', []),
      (''APOK_VAULT_OIDC_ISSUER_URL'', ''https://v''), (''APOK_VAULT_OIDC_AUDIENCE'', ''vault''),
      (''APOK_ADMIN_OIDC_ISSUER_URL'', ''https://a''), (''APOK_ADMIN_OIDC_AUDIENCE'', ''admin'')]"

definition demo_config :: "unit server_config" where
  "demo_config = \<lparr>bind_address = SocketV4 [0, 0, 0, 0] 80, block_size_bytes = 4096,
     backend = BackendLocalFs ''/data'', trusted_proxies = [],
     vault_oidc = \<lparr>oc_issuer_url = demo_url ''https://v'', oc_audience = ''vault''\<rparr>,
     admin_oidc = \<lparr>oc_issuer_url = demo_url ''https://a'', oc_audience = ''admin''\<rparr>,
     drain_timeout = 30, auth = auth_config_default\<rparr>"

lemma demo_env: "collect_apok_env demo_vars Map.empty = Inr (map_of (rev demo_vars))"
proof -
  have ok: "\<forall>(k, v) \<in> set demo_vars. apok_key k \<and> to_str v \<noteq> None"
    by (simp add: demo_vars_def apok_key_def to_str_def)
  then have "filter (\<lambda>(k, _). apok_key k) demo_vars = demo_vars"
    by (intro filter_True) auto
  with ok show ?thesis by (subst collect_apok_env_eq) auto
qed

lemma demo_partial:
  "collect_env (map_of (rev demo_vars)) =
    \<lparr>pc_bind_address = Some ''0.0.0.0:80'', pc_block_size_bytes = Some (TomlString ''4096''),
     pc_storage_backend = Some ''local_fs'',
     pc_storage = Some \<lparr>ps_local_fs = Some \<lparr>pl_root = Some ''/data''\<rparr>\<rparr>,
     pc_trusted_proxies = Some (Csv []), pc_drain_timeout_secs = None,
     pc_vault_oidc = Some \<lparr>po_issuer_url = Some ''https://v'', po_audience = Some ''vault''\<rparr>,
     pc_admin_oidc = Some \<lparr>po_issuer_url = Some ''https://a'', po_audience = Some ''admin''\<rparr>,
     pc_auth = None\<rparr>"
  by (simp add: demo_vars_def collect_env_def collect_oidc_def collect_auth_def Let_def)

lemma demo_parses:
  "parse_socket_addr ''0.0.0.0:80'' = Some (SocketV4 [0, 0, 0, 0] 80)"
  "parse_u64 ''4096'' = Some 4096"
proof -
  have "read_ipv4_addr s = read_octets (Suc (Suc (Suc (Suc 0)))) 0 s" for s
    by (simp add: read_ipv4_addr_def eval_nat_numeral)
  then show "parse_socket_addr ''0.0.0.0:80'' = Some (SocketV4 [0, 0, 0, 0] 80)"
    by (simp add: parse_socket_addr_def read_socket_addr_v4_def read_separator_def
        read_given_char_def read_number_def to_digit_def digits_to_nat_def read_port_def
        parse_all_def)
  show "parse_u64 ''4096'' = Some 4096" by (simp add: parse_u64_def digit_value_def)
qed

lemma demo_load:
  "load demo_ext (\<lambda>_. Inl ''cidr'') (\<lambda>_. Inl ''io'') (\<lambda>_. Inl ''toml'') demo_vars = Inr demo_config"
proof -
  have "map_of (rev demo_vars) ''APOK_CONFIG_PATH'' = None" by (simp add: demo_vars_def)
  then show ?thesis
    by (simp add: load_def demo_env demo_partial load_optional_file_def partial_config_default_def
        env_overrides_file_def merge_storage_def merge_oidc_def merge_auth_def merge_tables_def
        validate_def parse_bind_address_def parse_positive_u64_def parse_storage_backend_def
        demo_parses path_is_absolute_def parse_trusted_proxies_def parse_drain_timeout_def
        default_drain_timeout_secs_def parse_oidc_def oidc_audience_config_new_def demo_url_def
        parse_auth_def demo_config_def)
qed

theorem load_ok_witness: "server_config_ok demo_config"
  using load_ok [OF demo_load] .

definition oidc_key :: "(partial_oidc \<Rightarrow> 'v option) \<Rightarrow> partial_oidc option \<Rightarrow> 'v option" where
  "oidc_key f t = Option.bind t f"

definition root_key :: "partial_config \<Rightarrow> string option" where
  "root_key p = Option.bind (Option.bind (pc_storage p) ps_local_fs) pl_root"

definition auth_keys :: "partial_config \<Rightarrow> toml_value option list" where
  "auth_keys p = map (\<lambda>f. Option.bind (pc_auth p) f)
     [pa_clock_skew_secs, pa_dpop_freshness_secs, pa_jwks_refresh_secs, pa_discovery_refresh_secs,
      pa_on_demand_refresh_min_interval_secs, pa_jti_replay_window_secs, pa_max_replay_entries]"

text \<open>
  The environment overrides the file per key, not per table: for every leaf key of the
  configuration, also inside the nested tables, the merged value is the environment's if it has
  one and the file's otherwise.
\<close>

theorem merge_env_first_per_key:
  "pc_bind_address (env_overrides_file e f) = opt_or (pc_bind_address e) (pc_bind_address f) \<and>
   pc_block_size_bytes (env_overrides_file e f) = opt_or (pc_block_size_bytes e) (pc_block_size_bytes f) \<and>
   pc_storage_backend (env_overrides_file e f) = opt_or (pc_storage_backend e) (pc_storage_backend f) \<and>
   root_key (env_overrides_file e f) = opt_or (root_key e) (root_key f) \<and>
   pc_trusted_proxies (env_overrides_file e f) = opt_or (pc_trusted_proxies e) (pc_trusted_proxies f) \<and>
   pc_drain_timeout_secs (env_overrides_file e f) =
     opt_or (pc_drain_timeout_secs e) (pc_drain_timeout_secs f) \<and>
   oidc_key po_issuer_url (pc_vault_oidc (env_overrides_file e f)) =
     opt_or (oidc_key po_issuer_url (pc_vault_oidc e)) (oidc_key po_issuer_url (pc_vault_oidc f)) \<and>
   oidc_key po_audience (pc_vault_oidc (env_overrides_file e f)) =
     opt_or (oidc_key po_audience (pc_vault_oidc e)) (oidc_key po_audience (pc_vault_oidc f)) \<and>
   oidc_key po_issuer_url (pc_admin_oidc (env_overrides_file e f)) =
     opt_or (oidc_key po_issuer_url (pc_admin_oidc e)) (oidc_key po_issuer_url (pc_admin_oidc f)) \<and>
   oidc_key po_audience (pc_admin_oidc (env_overrides_file e f)) =
     opt_or (oidc_key po_audience (pc_admin_oidc e)) (oidc_key po_audience (pc_admin_oidc f)) \<and>
   auth_keys (env_overrides_file e f) = map2 opt_or (auth_keys e) (auth_keys f)"
proof -
  have fs: "Option.bind (merge_local_fs a b) pl_root = opt_or (Option.bind a pl_root) (Option.bind b pl_root)"
    for a b
    by (auto simp: merge_local_fs_def merge_tables_def opt_or_def split: option.splits)
  have root: "root_key (env_overrides_file e f) = opt_or (root_key e) (root_key f)"
    by (cases "pc_storage e"; cases "pc_storage f")
      (auto simp: root_key_def env_overrides_file_def merge_storage_def merge_tables_def fs)
  have oidc: "oidc_key po_issuer_url (merge_oidc a b) =
      opt_or (oidc_key po_issuer_url a) (oidc_key po_issuer_url b)"
    "oidc_key po_audience (merge_oidc a b) =
      opt_or (oidc_key po_audience a) (oidc_key po_audience b)" for a b
    by (auto simp: oidc_key_def merge_oidc_def merge_tables_def opt_or_def split: option.splits)
  have "auth_keys (env_overrides_file e f) = map2 opt_or (auth_keys e) (auth_keys f)"
    by (cases "pc_auth e"; cases "pc_auth f")
      (auto simp: auth_keys_def env_overrides_file_def merge_auth_def merge_tables_def)
  with root show ?thesis by (simp add: env_overrides_file_def oidc)
qed

text \<open>
  A number gives the same setting in both forms: the decimal string of the environment and the
  TOML integer. (A TOML integer is at most \<open>2 ^ 63 - 1\<close>; the environment can express more.)
\<close>

theorem env_and_toml_numbers_agree:
  assumes "n < 2 ^ 63"
  shows "is_ok (parse_positive_u64 (Some (TomlString (show_nat n))) invalid) =
           is_ok (parse_positive_u64 (Some (TomlInteger (of_nat n))) invalid) \<and>
         (0 < n \<longrightarrow> parse_positive_u64 (Some (TomlString (show_nat n))) invalid = Inr (Some (of_nat n)) \<and>
            parse_positive_u64 (Some (TomlInteger (of_nat n))) invalid = Inr (Some (of_nat n)))"
proof -
  have p: "parse_u64 (show_nat n) = Some (of_nat n)"
    using assms by (intro parse_u64_show_nat) simp
  have u: "unat (of_nat n :: u64) = n"
    using assms by (simp add: unat_of_nat take_bit_nat_eq_self)
  have s: "sint (of_nat n :: u64) = int n"
    using assms by (simp add: signed_of_nat signed_take_bit_int_eq_self)
  have z: "0 < (of_nat n :: u64) \<longleftrightarrow> 0 < n"
    using u by (simp add: word_less_nat_alt)
  show ?thesis by (simp add: parse_positive_u64_def p s z)
qed

theorem env_and_toml_numbers_agree_witness:
  "parse_positive_u64 (Some (TomlString (show_nat 90))) InvalidDrainTimeout =
   parse_positive_u64 (Some (TomlInteger 90)) InvalidDrainTimeout"
  using env_and_toml_numbers_agree [of 90 InvalidDrainTimeout] by simp

end
