(* ===== verification/Context.thy ===== *)
theory Context
  imports Jwks Config
begin

section \<open>Audience contexts (auth/context.rs, auth/discovery.rs)\<close>

text \<open>
  The two per-audience contexts: start-up (\<open>fetch_discovery\<close>, \<open>init_single_context\<close>,
  \<open>init_contexts\<close>) and the installation of refreshed key sets. A context is shared between tasks
  through reference-counted pointers and refers to the other context by a weak pointer, so the
  contexts live in a heap of addresses; upgrading a weak pointer is a lookup, which fails when the
  context has been dropped. HTTP requests are answered by a function of the number of the request
  and its URL, so that an endpoint may answer differently every time.
\<close>

datatype audience_tag = Vault | Admin

definition as_jti_key_byte :: "audience_tag \<Rightarrow> u8" where
  "as_jti_key_byte tag = (case tag of Vault \<Rightarrow> 0x01 | Admin \<Rightarrow> 0x02)"

definition audience_name :: "audience_tag \<Rightarrow> string" where
  "audience_name tag = (case tag of Vault \<Rightarrow> ''vault'' | Admin \<Rightarrow> ''admin'')"

subsection \<open>Discovery\<close>

record discovery =
  jwks_uri :: url

datatype discovery_fetch_error =
    DiscUrlBuild string string
  | DiscHttp string
  | DiscBadStatus u16
  | DiscParse string
  | JwksUriParse string string
  | JwksUriScheme string

definition discovery_suffix :: string where
  "discovery_suffix = ''/.well-known/openid-configuration''"

text \<open>The build without the test features: a \<open>jwks_uri\<close> must use https.\<close>

definition fetch_discovery ::
    "'dk ext \<Rightarrow> (string \<Rightarrow> http_reply) \<Rightarrow> url \<Rightarrow> discovery_fetch_error + discovery" where
  "fetch_discovery X http issuer_url =
     (let raw = trim_end_matches CHR ''/'' (url_as_str issuer_url) @ discovery_suffix in
      bind_result (map_err (DiscUrlBuild (url_as_str issuer_url)) (url_parse X raw)) (\<lambda>discovery_url.
      case http (url_as_str discovery_url) of
        HttpError e \<Rightarrow> Inl (DiscHttp e)
      | HttpResponse status body \<Rightarrow>
          if \<not> is_success status then Inl (DiscBadStatus status)
          else bind_result (map_err DiscHttp body) (\<lambda>bytes.
               bind_result (map_err DiscParse (json_discovery_jwks_uri X bytes)) (\<lambda>doc.
               bind_result (map_err (JwksUriParse doc) (url_parse X doc)) (\<lambda>u.
               if url_scheme u \<noteq> ''https'' then Inl (JwksUriScheme (url_scheme u))
               else Inr \<lparr>jwks_uri = u\<rparr>)))))"

subsection \<open>Contexts\<close>

record oidc_context =
  ctx_tag :: audience_tag
  issuer_url :: url
  audience :: string
  ctx_jwks :: jwks
  ctx_discovery :: discovery
  ctx_auth_config :: auth_config
  last_on_demand_refresh :: u64
  last_refresh_completed :: u64
  other :: "nat option"

type_synonym ctx_heap = "nat \<rightharpoonup> oidc_context"

datatype overlap_error = OverlapError (context_with_extra_key: audience_tag)

datatype context_init_error =
    DiscoveryFetch audience_tag discovery_fetch_error
  | JwksFetch audience_tag jwks_fetch_error
  | EmptyJwks audience_tag
  | JwksOverlap audience_tag

definition init_single_context ::
    "'dk ext \<Rightarrow> (nat \<Rightarrow> string \<Rightarrow> http_reply) \<Rightarrow> nat \<Rightarrow> audience_tag \<Rightarrow> oidc_audience_config \<Rightarrow>
     auth_config \<Rightarrow> (context_init_error + oidc_context) outcome" where
  "init_single_context X http n tag oidc_cfg auth_cfg =
     (case fetch_discovery X (http n) (oc_issuer_url oidc_cfg) of
        Inl e \<Rightarrow> Returns (Inl (DiscoveryFetch tag e))
      | Inr disc \<Rightarrow>
          bind_outcome (fetch_jwks X (http (n + 1)) (jwks_uri disc)) (\<lambda>r. Returns (case r of
              Inl JwksEmpty \<Rightarrow> Inl (EmptyJwks tag)
            | Inl e \<Rightarrow> Inl (JwksFetch tag e)
            | Inr keys \<Rightarrow> Inr \<lparr>ctx_tag = tag, issuer_url = oc_issuer_url oidc_cfg,
                audience = oc_audience oidc_cfg, ctx_jwks = keys, ctx_discovery = disc,
                ctx_auth_config = auth_cfg, last_on_demand_refresh = 0,
                last_refresh_completed = 0, other = None\<rparr>)))"

definition check_disjoint_jwks :: "jwks \<Rightarrow> jwks \<Rightarrow> audience_tag \<Rightarrow> overlap_error + unit" where
  "check_disjoint_jwks a b b_tag =
     (if \<exists>tp \<in> set (iter_thumbprints b). tp \<in> set (iter_thumbprints a)
      then Inl (OverlapError b_tag) else Inr ())"

definition vault_addr :: nat where "vault_addr = 0"
definition admin_addr :: nat where "admin_addr = 1"

text \<open>
  The two fresh contexts are allocated at \<^const>\<open>vault_addr\<close> and \<^const>\<open>admin_addr\<close>; both
  cross-references are set for the first time here, so the \<^verbatim>\<open>expect\<close> calls hold.
\<close>

definition init_contexts ::
    "'dk ext \<Rightarrow> (nat \<Rightarrow> string \<Rightarrow> http_reply) \<Rightarrow> 'net server_config \<Rightarrow>
     (context_init_error + ctx_heap) outcome" where
  "init_contexts X http cfg =
     bind_outcome (init_single_context X http 0 Vault (vault_oidc cfg) (auth cfg)) (\<lambda>r1.
     case r1 of Inl e \<Rightarrow> Returns (Inl e) | Inr vault_ctx \<Rightarrow>
     bind_outcome (init_single_context X http 2 Admin (admin_oidc cfg) (auth cfg)) (\<lambda>r2.
     case r2 of Inl e \<Rightarrow> Returns (Inl e) | Inr admin_ctx \<Rightarrow>
     case check_disjoint_jwks (ctx_jwks vault_ctx) (ctx_jwks admin_ctx) Admin of
       Inl e \<Rightarrow> Returns (Inl (JwksOverlap (context_with_extra_key e)))
     | Inr _ \<Rightarrow> Returns (Inr [vault_addr \<mapsto> vault_ctx\<lparr>other := Some admin_addr\<rparr>,
                              admin_addr \<mapsto> admin_ctx\<lparr>other := Some vault_addr\<rparr>])))"

subsection \<open>Installing a refreshed key set\<close>

text \<open>
  \<open>install_refreshed_jwks\<close> reads the other context's key set (one atomic load), compares, and
  stores its own (one atomic store). The two halves are separate definitions because other tasks
  can run between them; the function is their composition.
\<close>

definition install_check :: "ctx_heap \<Rightarrow> oidc_context \<Rightarrow> jwks \<Rightarrow> overlap_error + unit" where
  [step_defs]: "install_check h self_ctx new_jwks =
     (case Option.bind (other self_ctx) h of
        None \<Rightarrow> Inl (OverlapError (ctx_tag self_ctx))
      | Some other_ctx \<Rightarrow> check_disjoint_jwks (ctx_jwks other_ctx) new_jwks (ctx_tag self_ctx))"

definition jwks_store :: "ctx_heap \<Rightarrow> nat \<Rightarrow> jwks \<Rightarrow> ctx_heap" where
  [step_defs]: "jwks_store h a new_jwks = (case h a of
      None \<Rightarrow> h
    | Some c \<Rightarrow> h(a \<mapsto> c\<lparr>ctx_jwks := new_jwks\<rparr>))"

definition install_refreshed_jwks ::
    "ctx_heap \<Rightarrow> nat \<Rightarrow> oidc_context \<Rightarrow> jwks \<Rightarrow> (overlap_error + unit) \<times> ctx_heap" where
  "install_refreshed_jwks h a self_ctx new_jwks =
     (case install_check h self_ctx new_jwks of
        Inl e \<Rightarrow> (Inl e, h)
      | Inr _ \<Rightarrow> (Inr (), jwks_store h a new_jwks))"

subsection \<open>Disjoint contexts\<close>

definition jwks_disjoint :: "jwks \<Rightarrow> jwks \<Rightarrow> bool" where
  "jwks_disjoint a b \<longleftrightarrow> set (iter_thumbprints a) \<inter> set (iter_thumbprints b) = {}"

lemma check_disjoint_jwks_iff: "check_disjoint_jwks a b t = Inr u \<longleftrightarrow> jwks_disjoint a b"
  by (auto simp: check_disjoint_jwks_def jwks_disjoint_def)

text \<open>
  The two contexts as \<open>init_contexts\<close> leaves them: tagged, wired to each other, with well-formed,
  non-empty and disjoint key sets.
\<close>

definition contexts_ok :: "'a crypto_ext_scheme \<Rightarrow> ctx_heap \<Rightarrow> bool" where
  "contexts_ok X h \<longleftrightarrow> (\<exists>v a. h vault_addr = Some v \<and> h admin_addr = Some a \<and>
     ctx_tag v = Vault \<and> ctx_tag a = Admin \<and>
     other v = Some admin_addr \<and> other a = Some vault_addr \<and>
     jwks_wf X (ctx_jwks v) \<and> jwks_wf X (ctx_jwks a) \<and>
     \<not> jwks_is_empty (ctx_jwks v) \<and> \<not> jwks_is_empty (ctx_jwks a) \<and>
     jwks_disjoint (ctx_jwks v) (ctx_jwks a))"

lemma vault_neq_admin [simp]: "vault_addr \<noteq> admin_addr" "admin_addr \<noteq> vault_addr"
  by (simp_all add: vault_addr_def admin_addr_def)

lemma init_single_context_Inr:
  assumes "init_single_context X http n tag oc ac = Returns (Inr c)"
  shows "ctx_tag c = tag \<and> audience c = oc_audience oc \<and> issuer_url c = oc_issuer_url oc \<and>
    ctx_auth_config c = ac \<and> jwks_wf X (ctx_jwks c) \<and> \<not> jwks_is_empty (ctx_jwks c) \<and>
    last_on_demand_refresh c = 0 \<and> last_refresh_completed c = 0 \<and>
    url_scheme (jwks_uri (ctx_discovery c)) = ''https''"
proof -
  obtain disc keys where d: "fetch_discovery X (http n) (oc_issuer_url oc) = Inr disc"
    and k: "fetch_jwks X (http (n + 1)) (jwks_uri disc) = Returns (Inr keys)"
    and c: "c = \<lparr>ctx_tag = tag, issuer_url = oc_issuer_url oc, audience = oc_audience oc,
      ctx_jwks = keys, ctx_discovery = disc, ctx_auth_config = ac, last_on_demand_refresh = 0,
      last_refresh_completed = 0, other = None\<rparr>"
    using assms
    by (auto simp: init_single_context_def bind_outcome_def
        split: sum.splits outcome.splits jwks_fetch_error.splits)
  have "url_scheme (jwks_uri disc) = ''https''"
    using d
    by (auto simp: fetch_discovery_def Let_def bind_result_def map_err_def
        split: sum.splits http_reply.splits if_splits)
  then show ?thesis using fetch_jwks_Inr [OF k] c by simp
qed

lemma init_contexts_Inr:
  assumes "init_contexts X http cfg = Returns (Inr h)"
  obtains v a where
    "init_single_context X http 0 Vault (vault_oidc cfg) (auth cfg) = Returns (Inr v)"
    "init_single_context X http 2 Admin (admin_oidc cfg) (auth cfg) = Returns (Inr a)"
    "jwks_disjoint (ctx_jwks v) (ctx_jwks a)"
    "h = [vault_addr \<mapsto> v\<lparr>other := Some admin_addr\<rparr>, admin_addr \<mapsto> a\<lparr>other := Some vault_addr\<rparr>]"
  using assms
  by (auto simp: init_contexts_def bind_outcome_def check_disjoint_jwks_iff
      split: sum.splits outcome.splits)

lemma jwks_store_other: "b \<noteq> a \<Longrightarrow> jwks_store h a j b = h b"
  by (simp add: jwks_store_def split: option.splits)

lemma install_keeps_contexts_ok:
  assumes "contexts_ok X h" and "h a = Some c" and "a = vault_addr \<or> a = admin_addr"
    and "jwks_wf X j" and "\<not> jwks_is_empty j"
    and "install_refreshed_jwks h a c j = (r, h')"
  shows "contexts_ok X h'"
  using assms
  by (auto simp: contexts_ok_def install_refreshed_jwks_def install_check_def jwks_store_def
      check_disjoint_jwks_iff jwks_disjoint_def Int_commute split: sum.splits option.splits)

text \<open>A sequence of installations that do not overlap in time.\<close>

fun run_installs :: "(nat \<times> jwks) list \<Rightarrow> ctx_heap \<Rightarrow> ctx_heap" where
  "run_installs [] h = h"
| "run_installs ((a, j) # rest) h = (case h a of
      None \<Rightarrow> run_installs rest h
    | Some c \<Rightarrow> run_installs rest (snd (install_refreshed_jwks h a c j)))"

lemma run_installs_contexts_ok:
  "contexts_ok X h \<Longrightarrow>
   \<forall>(a, j) \<in> set ops. (a = vault_addr \<or> a = admin_addr) \<and> jwks_wf X j \<and> \<not> jwks_is_empty j \<Longrightarrow>
   contexts_ok X (run_installs ops h)"
proof (induction ops h rule: run_installs.induct)
  case (2 a j rest h)
  then show ?case
    by (auto split: option.splits) (metis install_keeps_contexts_ok prod.collapse)+
qed simp

lemma contexts_ok_no_shared_key:
  assumes "contexts_ok X h" and "h vault_addr = Some v" and "h admin_addr = Some a"
    and "c \<in> set (lookup_candidates (ctx_jwks v) kid)"
    and "d \<in> set (lookup_candidates (ctx_jwks a) kid')"
  shows "raw_algorithm (jwk_raw c) \<noteq> raw_algorithm (jwk_raw d)"
proof
  assume eq: "raw_algorithm (jwk_raw c) = raw_algorithm (jwk_raw d)"
  have wf: "jwks_wf X (ctx_jwks v)" "jwks_wf X (ctx_jwks a)"
    and dis: "jwks_disjoint (ctx_jwks v) (ctx_jwks a)"
    using assms(1-3) by (auto simp: contexts_ok_def)
  note cw = jwks_wf_candidates [OF wf(1) assms(4)]
  note dw = jwks_wf_candidates [OF wf(2) assms(5)]
  have "compute_thumbprint X (jwk_raw c) = compute_thumbprint X (jwk_raw d)"
    by (simp add: compute_thumbprint_def eq)
  then have "jwk_thumbprint_field c = jwk_thumbprint_field d"
    using cw(1) dw(1) by (simp add: jwk_wf_def)
  with cw(2) dw(2) dis show False by (auto simp: jwks_disjoint_def)
qed

subsection \<open>Overlapping installations\<close>

text \<open>
  Refresh tasks of the two contexts run concurrently, and nothing holds them apart between the
  check and the store. The step relation has the heap and the key sets that passed their check and
  wait to be stored.
\<close>

type_synonym install_state = "ctx_heap \<times> (nat \<times> jwks) list"

inductive install_step :: "install_state \<Rightarrow> install_state \<Rightarrow> bool" where
  Check: "h a = Some c \<Longrightarrow> install_check h c j = Inr () \<Longrightarrow> install_step (h, P) (h, (a, j) # P)"
| Store: "(a, j) \<in> set P \<Longrightarrow> install_step (h, P) (jwks_store h a j, remove1 (a, j) P)"

inductive_simps install_step_iff: "install_step (h, P) s"

text \<open>One call of the function is a check step directly followed by its store step.\<close>

lemma install_refreshed_jwks_steps:
  assumes "h a = Some c" and "install_refreshed_jwks h a c j = (Inr u, h')"
  shows "install_step\<^sup>*\<^sup>* (h, P) (h', P)"
proof -
  have ok: "install_check h c j = Inr ()" and h': "h' = jwks_store h a j"
    using assms(2) by (auto simp: install_refreshed_jwks_def split: sum.splits)
  have "install_step (h, P) (h, (a, j) # P)" using assms(1) ok by (rule Check)
  moreover have "install_step (h, (a, j) # P) (h', P)"
    unfolding install_step_iff h' by force
  ultimately show ?thesis by (meson converse_rtranclp_into_rtranclp r_into_rtranclp)
qed

subsection \<open>Properties\<close>

definition demo_context :: "audience_tag \<Rightarrow> nat \<Rightarrow> jwks \<Rightarrow> oidc_context" where
  "demo_context tag peer keys = \<lparr>ctx_tag = tag, issuer_url = demo_url ''i'',
     audience = audience_name tag, ctx_jwks = keys, ctx_discovery = \<lparr>jwks_uri = demo_url ''j''\<rparr>,
     ctx_auth_config = auth_config_default, last_on_demand_refresh = 0,
     last_refresh_completed = 0, other = Some peer\<rparr>"

definition demo_heap :: "jwks \<Rightarrow> jwks \<Rightarrow> ctx_heap" where
  "demo_heap j k = [vault_addr \<mapsto> demo_context Vault admin_addr j,
                    admin_addr \<mapsto> demo_context Admin vault_addr k]"

lemma demo_jwks_wf: "jwks_wf demo_crypto (demo_jwks k e)" "\<not> jwks_is_empty (demo_jwks k e)"
  using parse_jwks_Inr [OF demo_jwks_parse [of k e]] by auto

lemma demo_jwks_disjoint: "jwks_disjoint (demo_jwks k [1]) (demo_jwks l [2])"
  "jwks_disjoint (demo_jwks k [1]) (demo_jwks l [3])" "jwks_disjoint (demo_jwks k [2]) (demo_jwks l [3])"
  by (simp_all add: jwks_disjoint_def demo_jwks_thumbprints jwk_thumbprint_def demo_crypto_def
      pad32_def canonical_json_def hex_encode_def as_bytes_def hex_char_def of_char_u8_inject)

lemma demo_heap_ok:
  "contexts_ok demo_crypto (demo_heap (demo_jwks k e) (demo_jwks l f)) \<longleftrightarrow>
     jwks_disjoint (demo_jwks k e) (demo_jwks l f)"
  by (simp add: contexts_ok_def demo_heap_def demo_context_def demo_jwks_wf)

text \<open>
  C27. When start-up succeeds, the two contexts hold the configured issuers, audiences and
  settings, refer to each other, and have non-empty key sets of allowlisted keys; and no key that
  verifies vault tokens has the key material of a key that verifies admin tokens.
\<close>

theorem init_contexts_safe:
  assumes "init_contexts X http cfg = Returns (Inr h)"
  shows "contexts_ok X h \<and>
    (\<exists>v a. h vault_addr = Some v \<and> h admin_addr = Some a \<and>
       audience v = oc_audience (vault_oidc cfg) \<and> audience a = oc_audience (admin_oidc cfg) \<and>
       issuer_url v = oc_issuer_url (vault_oidc cfg) \<and> issuer_url a = oc_issuer_url (admin_oidc cfg) \<and>
       ctx_auth_config v = auth cfg \<and> ctx_auth_config a = auth cfg \<and>
       url_scheme (jwks_uri (ctx_discovery v)) = ''https'' \<and>
       url_scheme (jwks_uri (ctx_discovery a)) = ''https'' \<and>
       (\<forall>kid kid'. \<forall>c \<in> set (lookup_candidates (ctx_jwks v) kid).
          \<forall>d \<in> set (lookup_candidates (ctx_jwks a) kid').
            raw_algorithm (jwk_raw c) \<noteq> raw_algorithm (jwk_raw d)))"
proof -
  from assms obtain v a where
    v: "init_single_context X http 0 Vault (vault_oidc cfg) (auth cfg) = Returns (Inr v)" and
    a: "init_single_context X http 2 Admin (admin_oidc cfg) (auth cfg) = Returns (Inr a)" and
    dis: "jwks_disjoint (ctx_jwks v) (ctx_jwks a)" and
    h: "h = [vault_addr \<mapsto> v\<lparr>other := Some admin_addr\<rparr>, admin_addr \<mapsto> a\<lparr>other := Some vault_addr\<rparr>]"
    by (rule init_contexts_Inr)
  note iv = init_single_context_Inr [OF v] and ia = init_single_context_Inr [OF a]
  have ok: "contexts_ok X h" using iv ia dis by (simp add: contexts_ok_def h)
  show ?thesis
    using ok iv ia contexts_ok_no_shared_key [OF ok, of "v\<lparr>other := Some admin_addr\<rparr>"
        "a\<lparr>other := Some vault_addr\<rparr>"]
    by (auto simp: h)
qed

definition demo_http :: "nat \<Rightarrow> string \<Rightarrow> http_reply" where
  "demo_http n u = HttpResponse 200 (Inr [of_nat n])"

definition demo_init_ext :: "unit ext" where
  "demo_init_ext = demo_ext\<lparr>json_discovery_jwks_uri := (\<lambda>_. Inr ''j''),
     json_jwk_set := (\<lambda>b. Inr [demo_rsa_key ''k'' b])\<rparr>"

lemma demo_init_parse:
  "parse_jwks demo_init_ext [demo_rsa_key k e] = Returns (Inr (demo_jwks k e))"
proof -
  have "crypto_ext.truncate demo_init_ext = demo_crypto"
    by (simp add: demo_init_ext_def demo_ext_def crypto_ext.defs demo_crypto_def)
  then show ?thesis
    using parse_jwks_truncate [of demo_init_ext "[demo_rsa_key k e]"] demo_jwks_parse [of k e] by simp
qed

lemma demo_init:
  "init_contexts demo_init_ext demo_http demo_config =
     Returns (Inr [vault_addr \<mapsto> \<lparr>ctx_tag = Vault, issuer_url = demo_url ''https://v'', audience = ''vault'',
        ctx_jwks = demo_jwks ''k'' [1], ctx_discovery = \<lparr>jwks_uri = demo_url ''j''\<rparr>,
        ctx_auth_config = auth_config_default, last_on_demand_refresh = 0,
        last_refresh_completed = 0, other = Some admin_addr\<rparr>,
      admin_addr \<mapsto> \<lparr>ctx_tag = Admin, issuer_url = demo_url ''https://a'', audience = ''admin'',
        ctx_jwks = demo_jwks ''k'' [3], ctx_discovery = \<lparr>jwks_uri = demo_url ''j''\<rparr>,
        ctx_auth_config = auth_config_default, last_on_demand_refresh = 0,
        last_refresh_completed = 0, other = Some vault_addr\<rparr>])"
proof -
  have d: "fetch_discovery demo_init_ext (demo_http n) u = Inr \<lparr>jwks_uri = demo_url ''j''\<rparr>" for n u
    by (simp add: fetch_discovery_def Let_def demo_init_ext_def demo_http_def is_success_def demo_url_def)
  have k: "fetch_jwks demo_init_ext (demo_http n) u = Returns (Inr (demo_jwks ''k'' [of_nat n]))" for n u
    by (simp add: fetch_jwks_def demo_http_def is_success_def demo_init_parse)
      (simp add: demo_init_ext_def flip: demo_init_parse)
  have "check_disjoint_jwks (demo_jwks ''k'' [1]) (demo_jwks ''k'' [3]) Admin = Inr ()"
    by (simp add: check_disjoint_jwks_iff demo_jwks_disjoint)
  then show ?thesis
    by (simp add: init_contexts_def init_single_context_def d k demo_config_def)
qed

theorem init_contexts_safe_witness:
  "\<exists>h. init_contexts demo_init_ext demo_http demo_config = Returns (Inr h) \<and>
     contexts_ok demo_init_ext h"
  using init_contexts_safe [OF demo_init] demo_init by blast

text \<open>
  Refreshes that do not overlap in time keep the two contexts disjoint: after any sequence of
  calls of \<open>install_refreshed_jwks\<close> with key sets as \<open>fetch_jwks\<close> returns them, whether the calls
  succeed or are refused, both contexts have non-empty well-formed key sets and share no key
  material.
\<close>

theorem serial_refresh_keeps_disjoint:
  assumes "contexts_ok X h"
    and "\<forall>(a, j) \<in> set ops. (a = vault_addr \<or> a = admin_addr) \<and> jwks_wf X j \<and> \<not> jwks_is_empty j"
    and "run_installs ops h vault_addr = Some v" and "run_installs ops h admin_addr = Some a"
  shows "contexts_ok X (run_installs ops h) \<and>
    (\<forall>kid kid'. \<forall>c \<in> set (lookup_candidates (ctx_jwks v) kid).
       \<forall>d \<in> set (lookup_candidates (ctx_jwks a) kid').
         raw_algorithm (jwk_raw c) \<noteq> raw_algorithm (jwk_raw d))"
proof -
  have ok: "contexts_ok X (run_installs ops h)"
    using assms(1,2) by (rule run_installs_contexts_ok)
  with contexts_ok_no_shared_key [OF ok assms(3,4)] show ?thesis by blast
qed

lemma demo_install:
  "run_installs [(vault_addr, demo_jwks ''k'' [3])] (demo_heap (demo_jwks ''k'' [1]) (demo_jwks ''k'' [2])) =
     demo_heap (demo_jwks ''k'' [3]) (demo_jwks ''k'' [2])"
proof -
  have "check_disjoint_jwks (demo_jwks ''k'' [2]) (demo_jwks ''k'' [3]) Vault = Inr ()"
    by (simp add: check_disjoint_jwks_iff demo_jwks_disjoint)
  then show ?thesis
    by (simp add: demo_heap_def demo_context_def install_refreshed_jwks_def install_check_def
        jwks_store_def fun_eq_iff)
qed

theorem serial_refresh_keeps_disjoint_witness:
  "contexts_ok demo_crypto (demo_heap (demo_jwks ''k'' [3]) (demo_jwks ''k'' [2]))"
proof -
  have "contexts_ok demo_crypto (demo_heap (demo_jwks ''k'' [1]) (demo_jwks ''k'' [2]))"
    by (simp add: demo_heap_ok demo_jwks_disjoint)
  from serial_refresh_keeps_disjoint [OF this, of "[(vault_addr, demo_jwks ''k'' [3])]"
      "demo_context Vault admin_addr (demo_jwks ''k'' [3])"
      "demo_context Admin vault_addr (demo_jwks ''k'' [2])"]
  show ?thesis unfolding demo_install by (simp add: demo_jwks_wf demo_heap_def)
qed

text \<open>
  Concurrent refreshes can break disjointness: from two disjoint contexts, when both refreshes
  fetch the same new key, each passes its check against the other context's old key set before
  either stores, and the resulting contexts share a signing key.
\<close>

theorem concurrent_refresh_can_overlap:
  "contexts_ok demo_crypto (demo_heap (demo_jwks ''k'' [1]) (demo_jwks ''k'' [2])) \<and>
   install_step\<^sup>*\<^sup>* (demo_heap (demo_jwks ''k'' [1]) (demo_jwks ''k'' [2]), [])
     (demo_heap (demo_jwks ''k'' [3]) (demo_jwks ''k'' [3]), []) \<and>
   \<not> contexts_ok demo_crypto (demo_heap (demo_jwks ''k'' [3]) (demo_jwks ''k'' [3]))"
proof -
  let ?j = "demo_jwks ''k''"
  let ?h = "demo_heap (?j [1]) (?j [2])"
  have c1: "install_check ?h (demo_context Vault admin_addr (?j [1])) (?j [3]) = Inr ()"
    and c2: "install_check ?h (demo_context Admin vault_addr (?j [2])) (?j [3]) = Inr ()"
    by (simp_all add: install_check_def demo_heap_def demo_context_def check_disjoint_jwks_iff
        demo_jwks_disjoint)
  have "install_step (?h, []) (?h, [(vault_addr, ?j [3])])"
    by (rule Check [OF _ c1]) (simp add: demo_heap_def)
  moreover have "install_step (?h, [(vault_addr, ?j [3])])
      (?h, [(admin_addr, ?j [3]), (vault_addr, ?j [3])])"
    by (rule Check [OF _ c2]) (simp add: demo_heap_def)
  moreover have "install_step (?h, [(admin_addr, ?j [3]), (vault_addr, ?j [3])])
      (demo_heap (?j [3]) (?j [2]), [(admin_addr, ?j [3])])"
    using Store [of vault_addr "?j [3]" "[(admin_addr, ?j [3]), (vault_addr, ?j [3])]" ?h]
    by (simp add: jwks_store_def demo_heap_def demo_context_def fun_upd_twist)
  moreover have "install_step (demo_heap (?j [3]) (?j [2]), [(admin_addr, ?j [3])])
      (demo_heap (?j [3]) (?j [3]), [])"
    using Store [of admin_addr "?j [3]" "[(admin_addr, ?j [3])]" "demo_heap (?j [3]) (?j [2])"]
    by (simp add: jwks_store_def demo_heap_def demo_context_def)
  ultimately have "install_step\<^sup>*\<^sup>* (?h, []) (demo_heap (?j [3]) (?j [3]), [])"
    by (blast intro: converse_rtranclp_into_rtranclp)
  then show ?thesis
    by (simp add: demo_heap_ok demo_jwks_disjoint)
      (simp add: jwks_disjoint_def demo_jwks_thumbprints)
qed

end
