(* ===== verification/Refresh.thy ===== *)
theory Refresh
  imports Context
begin

section \<open>Refreshing key sets (auth/jwks.rs)\<close>

text \<open>
  \<open>on_demand_refresh\<close> is run by every request whose token does not verify, so many tasks run it at
  once on the same context; they meet only in the atomic fields \<^verbatim>\<open>last_on_demand_refresh\<close> and
  \<^verbatim>\<open>last_refresh_completed\<close>. The function is modelled with what it finds when it runs: the wall
  clock, the answers to its request, and, at each point where other tasks can run in between (up
  to the compare-and-swap, during the fetch, during the wait), what those do to the heap. The
  claims of the slot are then studied on their own, as a step relation of any number of tasks.
\<close>

record refresh_env =
  re_now :: "u64 option"
  re_http :: "string \<Rightarrow> http_reply"
  re_before_cas :: "ctx_heap \<Rightarrow> ctx_heap"
  re_during_fetch :: "ctx_heap \<Rightarrow> ctx_heap"
  re_during_wait :: "ctx_heap \<Rightarrow> ctx_heap"

text \<open>
  The calling task holds a reference to its context, so looking up its address succeeds; for a
  dropped context the model returns \<^term>\<open>False\<close> and changes nothing.
\<close>

definition wait_for_completion :: "refresh_env \<Rightarrow> ctx_heap \<Rightarrow> nat \<Rightarrow> u64 \<Rightarrow> bool \<times> ctx_heap" where
  "wait_for_completion E h a prev = (case h a of
      None \<Rightarrow> (False, h)
    | Some c \<Rightarrow>
        if prev \<le> last_refresh_completed c then (True, h)
        else (let h' = re_during_wait E h in
              case h' a of
                None \<Rightarrow> (False, h')
              | Some c' \<Rightarrow> (prev \<le> last_refresh_completed c', h')))"

text \<open>The atomic compare-and-swap on the claim, and the store of the completion time.\<close>

definition claim_cas :: "ctx_heap \<Rightarrow> nat \<Rightarrow> u64 \<Rightarrow> u64 \<Rightarrow> bool \<times> ctx_heap" where
  [step_defs]: "claim_cas h a prev now = (case h a of
      None \<Rightarrow> (False, h)
    | Some c \<Rightarrow> if last_on_demand_refresh c = prev
                then (True, h(a \<mapsto> c\<lparr>last_on_demand_refresh := now\<rparr>)) else (False, h))"

definition completed_store :: "ctx_heap \<Rightarrow> nat \<Rightarrow> u64 \<Rightarrow> ctx_heap" where
  [step_defs]: "completed_store h a now = (case h a of
      None \<Rightarrow> h | Some c \<Rightarrow> h(a \<mapsto> c\<lparr>last_refresh_completed := now\<rparr>))"

definition fetch_and_install ::
    "'dk ext \<Rightarrow> refresh_env \<Rightarrow> ctx_heap \<Rightarrow> nat \<Rightarrow> (bool \<times> ctx_heap) outcome" where
  "fetch_and_install X E h a = (case h a of
      None \<Rightarrow> Returns (False, h)
    | Some c \<Rightarrow>
        bind_outcome (fetch_jwks X (re_http E) (jwks_uri (ctx_discovery c))) (\<lambda>r.
        let h' = re_during_fetch E h in
        Returns (case r of
            Inl _ \<Rightarrow> (False, h')
          | Inr new_jwks \<Rightarrow>
              (let (res, h'') = install_refreshed_jwks h' a c new_jwks in (is_ok res, h'')))))"

definition on_demand_refresh ::
    "'dk ext \<Rightarrow> refresh_env \<Rightarrow> ctx_heap \<Rightarrow> nat \<Rightarrow> (bool \<times> ctx_heap) outcome" where
  "on_demand_refresh X E h a = (case h a of
      None \<Rightarrow> Returns (False, h)
    | Some c \<Rightarrow>
        (let interval_secs = on_demand_refresh_min_interval_secs (ctx_auth_config c);
             now_secs = unwrap_or (re_now E) 0;
             prev = last_on_demand_refresh c;
             cutoff = saturating_add prev interval_secs
         in if now_secs < cutoff then Returns (wait_for_completion E h a prev)
            else (let (claimed, h1) = claim_cas (re_before_cas E h) a prev now_secs in
                  if \<not> claimed then Returns (wait_for_completion E h1 a prev)
                  else bind_outcome (fetch_and_install X E h1 a) (\<lambda>(install_result, h2).
                       Returns (install_result, completed_store h2 a now_secs)))))"

text \<open>
  The caller is the future of a request, which is dropped when its client disconnects. What a call
  leaves behind that is dropped while it waits or fetches: the claim is taken, the completion is never
  stored. There is no suspension point between the load and the compare-and-swap, or after the fetch.
\<close>

definition on_demand_refresh_dropped :: "refresh_env \<Rightarrow> ctx_heap \<Rightarrow> nat \<Rightarrow> ctx_heap" where
  "on_demand_refresh_dropped E h a = (case h a of
      None \<Rightarrow> h
    | Some c \<Rightarrow>
        (let interval_secs = on_demand_refresh_min_interval_secs (ctx_auth_config c);
             now_secs = unwrap_or (re_now E) 0;
             prev = last_on_demand_refresh c;
             cutoff = saturating_add prev interval_secs
         in if now_secs < cutoff then h else snd (claim_cas (re_before_cas E h) a prev now_secs)))"

definition do_scheduled_refresh ::
    "'dk ext \<Rightarrow> refresh_env \<Rightarrow> ctx_heap \<Rightarrow> nat \<Rightarrow> ctx_heap outcome" where
  "do_scheduled_refresh X E h a =
     bind_outcome (fetch_and_install X E h a) (\<lambda>(_, h'). Returns h')"

subsection \<open>What a refresh keeps\<close>

lemma contexts_ok_completed_store:
  "contexts_ok X h \<Longrightarrow> contexts_ok X (completed_store h a now)"
  by (auto simp: contexts_ok_def completed_store_def split: option.splits)

lemma contexts_ok_claim_cas:
  "contexts_ok X h \<Longrightarrow> contexts_ok X (snd (claim_cas h a prev now))"
  by (auto simp: contexts_ok_def claim_cas_def split: option.splits)

text \<open>
  The hypothesis on the other tasks: what they do at the points of interruption keeps both
  contexts in order and does not replace the immutable fields of a context.
\<close>

definition env_keeps :: "'a crypto_ext_scheme \<Rightarrow> refresh_env \<Rightarrow> bool" where
  "env_keeps X E \<longleftrightarrow> (\<forall>f \<in> {re_before_cas E, re_during_fetch E, re_during_wait E}. \<forall>h.
     contexts_ok X h \<longrightarrow> contexts_ok X (f h))"

lemma contexts_ok_sel:
  assumes "contexts_ok X h" and "h a = Some c" and "a = vault_addr \<or> a = admin_addr"
    and "contexts_ok X h'"
  obtains c' where "h' a = Some c'" "ctx_tag c' = ctx_tag c" "other c' = other c"
  using assms by (auto simp: contexts_ok_def)

lemma install_same_immutable:
  assumes "ctx_tag c' = ctx_tag c" and "other c' = other c"
  shows "install_refreshed_jwks h a c j = install_refreshed_jwks h a c' j"
  unfolding install_refreshed_jwks_def install_check_def assms by (rule refl)

lemma contexts_ok_fetch_and_install:
  assumes "contexts_ok X h" and "env_keeps X E" and "a = vault_addr \<or> a = admin_addr"
    and "fetch_and_install X E h a = Returns (b, h')"
  shows "contexts_ok X h'"
proof -
  obtain c where c: "h a = Some c" using assms(1,3) by (auto simp: contexts_ok_def)
  let ?h1 = "re_during_fetch E h"
  have ok1: "contexts_ok X ?h1" using assms(1,2) by (simp add: env_keeps_def)
  obtain c' where c': "?h1 a = Some c'" "ctx_tag c' = ctx_tag c" "other c' = other c"
    by (rule contexts_ok_sel [OF assms(1) c assms(3) ok1])
  from assms(4) c obtain r where
    f: "fetch_jwks X (re_http E) (jwks_uri (ctx_discovery c)) = Returns r" and
    res: "(b, h') = (case r of Inl _ \<Rightarrow> (False, ?h1) | Inr j \<Rightarrow>
      (let (res, h'') = install_refreshed_jwks ?h1 a c j in (is_ok res, h'')))"
    by (auto simp: fetch_and_install_def result_simps Let_def)
  show ?thesis
  proof (cases r)
    case (Inl e)
    with res ok1 show ?thesis by simp
  next
    case (Inr j)
    obtain q h'' where q: "install_refreshed_jwks ?h1 a c j = (q, h'')" by force
    with Inr res have "h' = h''" by simp
    moreover have "contexts_ok X h''"
      using install_keeps_contexts_ok [OF ok1 c'(1) assms(3), of j q h'']
        fetch_jwks_Inr [OF f [unfolded Inr]] q
      by (simp add: install_same_immutable [OF c'(2,3)])
    ultimately show ?thesis by simp
  qed
qed

lemma contexts_ok_on_demand_refresh:
  assumes "contexts_ok X h" and "env_keeps X E" and "a = vault_addr \<or> a = admin_addr"
    and "on_demand_refresh X E h a = Returns (b, h')"
  shows "contexts_ok X h'"
proof -
  have wait: "contexts_ok X g \<Longrightarrow> contexts_ok X (snd (wait_for_completion E g a p))" for g p
    using assms(2) by (auto simp: wait_for_completion_def env_keeps_def Let_def split: option.splits)
  obtain c where c: "h a = Some c" using assms(1,3) by (auto simp: contexts_ok_def)
  obtain claimed h1 where cas: "claim_cas (re_before_cas E h) a (last_on_demand_refresh c)
      (unwrap_or (re_now E) 0) = (claimed, h1)" by force
  have ok1: "contexts_ok X h1"
    using contexts_ok_claim_cas [of X "re_before_cas E h"] assms(1,2) cas
    by (metis env_keeps_def insertI1 snd_conv)
  consider "(b, h') = wait_for_completion E h a (last_on_demand_refresh c)"
    | "(b, h') = wait_for_completion E h1 a (last_on_demand_refresh c)"
    | h2 where "fetch_and_install X E h1 a = Returns (b, h2)"
        "h' = completed_store h2 a (unwrap_or (re_now E) 0)"
    using assms(4) c cas
    by (auto simp: on_demand_refresh_def Let_def result_simps split: if_splits)
  then show ?thesis
  proof cases
    case 1
    then show ?thesis using wait [OF assms(1)] by (metis snd_conv)
  next
    case 2
    then show ?thesis using wait [OF ok1] by (metis snd_conv)
  next
    case 3
    then show ?thesis
      using contexts_ok_fetch_and_install [OF ok1 assms(2,3)] contexts_ok_completed_store by blast
  qed
qed

lemma contexts_ok_on_demand_refresh_dropped:
  assumes "contexts_ok X h" and "env_keeps X E"
  shows "contexts_ok X (on_demand_refresh_dropped E h a)"
proof -
  have "contexts_ok X (re_before_cas E h)" using assms by (simp add: env_keeps_def)
  then show ?thesis using assms(1) contexts_ok_claim_cas
    by (auto simp: on_demand_refresh_dropped_def Let_def split: option.splits)
qed

subsection \<open>Claims of the refresh slot\<close>

text \<open>
  The atomic actions of any number of tasks on one context: reading the last claim and passing the
  interval guard, the compare-and-swap (won or lost), the installation of a key set, the completion, the
  drop of a task that has won. The
  state is the heap, the tasks between guard and compare-and-swap (what they read, their clock),
  the claim times of the tasks that won and are fetching, and all claim times, newest first.
\<close>

type_synonym claim_state = "ctx_heap \<times> (u64 \<times> u64) list \<times> u64 list \<times> u64 list"

inductive refresh_step :: "nat \<Rightarrow> claim_state \<Rightarrow> claim_state \<Rightarrow> bool" for a where
  Load: "h a = Some c \<Longrightarrow> prev = last_on_demand_refresh c \<Longrightarrow>
    \<not> now < saturating_add prev (on_demand_refresh_min_interval_secs (ctx_auth_config c)) \<Longrightarrow>
    refresh_step a (h, R, W, L) (h, (prev, now) # R, W, L)"
| Win: "(prev, now) \<in> set R \<Longrightarrow> claim_cas h a prev now = (True, h') \<Longrightarrow>
    refresh_step a (h, R, W, L) (h', remove1 (prev, now) R, now # W, now # L)"
| Lose: "(prev, now) \<in> set R \<Longrightarrow> claim_cas h a prev now = (False, h') \<Longrightarrow>
    refresh_step a (h, R, W, L) (h', remove1 (prev, now) R, W, L)"
| Install: "refresh_step a (h, R, W, L) (jwks_store h b j, R, W, L)"
| Complete: "now \<in> set W \<Longrightarrow>
    refresh_step a (h, R, W, L) (completed_store h a now, R, remove1 now W, L)"
| Abandon: "now \<in> set W \<Longrightarrow> refresh_step a (h, R, W, L) (h, R, remove1 now W, L)"

definition spaced :: "u64 \<Rightarrow> u64 \<Rightarrow> u64 \<Rightarrow> bool" where
  "spaced interval newer older \<longleftrightarrow> newer = - 1 \<or> unat older + unat interval \<le> unat newer"

definition claim_inv :: "nat \<Rightarrow> u64 \<Rightarrow> claim_state \<Rightarrow> bool" where
  "claim_inv a interval s = (case s of (h, R, W, L) \<Rightarrow>
     (\<exists>c. h a = Some c \<and> on_demand_refresh_min_interval_secs (ctx_auth_config c) = interval \<and>
        (L \<noteq> [] \<longrightarrow> hd L = last_on_demand_refresh c)) \<and>
     (\<forall>(prev, now) \<in> set R. spaced interval now prev) \<and>
     sorted_wrt (spaced interval) L)"

lemma unat_u64_max: "unat (x :: u64) = 18446744073709551615 \<longleftrightarrow> x = - 1"
proof -
  have "unat (- 1 :: u64) = 18446744073709551615"
    by (simp add: unsigned_minus_1_eq_mask mask_eq_exp_minus_1)
  then show ?thesis by (metis word_eq_iff_unsigned)
qed

lemma not_less_saturating_add:
  fixes now prev i :: u64
  assumes "\<not> now < saturating_add prev i"
  shows "spaced i now prev"
  using assms unat_saturating_add [of prev i] unat_u64_less [of now] unat_u64_max [of now]
  by (auto simp: spaced_def word_less_nat_alt not_less min_def split: if_splits)

lemma spaced_trans: "spaced i x y \<Longrightarrow> spaced i y z \<Longrightarrow> spaced i x z"
  using unat_u64_less [of x] unat_u64_max [of x] unat_u64_max [of y] by (auto simp: spaced_def)

lemma claim_inv_step:
  assumes "refresh_step a s t" and "claim_inv a i s"
  shows "claim_inv a i t"
  using assms
proof cases
  case (Load h c prev now R W L)
  then show ?thesis
    using assms(2) not_less_saturating_add by (auto simp: claim_inv_def)
next
  case (Win prev now R h h' W L)
  obtain c where c: "h a = Some c" "on_demand_refresh_min_interval_secs (ctx_auth_config c) = i"
      "L \<noteq> [] \<longrightarrow> hd L = last_on_demand_refresh c" and sp: "spaced i now prev"
    and srt: "sorted_wrt (spaced i) L" and R: "\<forall>(prev, now) \<in> set R. spaced i now prev"
    using assms(2) Win by (auto simp: claim_inv_def)
  have h': "last_on_demand_refresh c = prev" "h' = h(a \<mapsto> c\<lparr>last_on_demand_refresh := now\<rparr>)"
    using Win c by (auto simp: claim_cas_def split: if_splits)
  have "sorted_wrt (spaced i) (now # L)"
    using srt c(3) sp h'(1) by (cases L) (auto intro: spaced_trans)
  with R c h' Win show ?thesis by (auto simp: claim_inv_def dest: notin_set_remove1)
next
  case (Lose prev now R h h' W L)
  then have "h' = h" by (auto simp: claim_cas_def split: option.splits if_splits)
  with Lose assms(2) show ?thesis by (auto simp: claim_inv_def dest: notin_set_remove1)
next
  case (Install h R W L b j)
  then show ?thesis
    using assms(2) by (auto simp: claim_inv_def jwks_store_def split: option.splits)
next
  case (Complete now W h R L)
  then show ?thesis
    using assms(2) by (auto simp: claim_inv_def completed_store_def split: option.splits)
next
  case (Abandon now W h R L)
  then show ?thesis using assms(2) by (auto simp: claim_inv_def)
qed

lemma claim_inv_steps: "(refresh_step a)\<^sup>*\<^sup>* s t \<Longrightarrow> claim_inv a i s \<Longrightarrow> claim_inv a i t"
  by (induction rule: rtranclp_induct) (auto intro: claim_inv_step)

text \<open>A call of \<open>on_demand_refresh\<close> that no other task interrupts is a sequence of such steps.\<close>

definition undisturbed :: "refresh_env \<Rightarrow> bool" where
  "undisturbed E \<longleftrightarrow> re_before_cas E = id \<and> re_during_fetch E = id \<and> re_during_wait E = id"

lemma on_demand_refresh_steps:
  assumes "on_demand_refresh X E h a = Returns (b, h')" and "undisturbed E"
  shows "\<exists>L'. (refresh_step a)\<^sup>*\<^sup>* (h, R, W, L) (h', R, W, L')"
proof -
  have u: "re_before_cas E = id" "re_during_fetch E = id" "re_during_wait E = id"
    using assms(2) by (auto simp: undisturbed_def)
  have wait: "snd (wait_for_completion E g a p) = g" for g p
    by (auto simp: wait_for_completion_def u Let_def split: option.splits)
  show ?thesis
  proof (cases "h a")
    case None
    with assms(1) show ?thesis by (auto simp: on_demand_refresh_def)
  next
    case (Some c)
    let ?now = "unwrap_or (re_now E) 0" and ?prev = "last_on_demand_refresh c"
    let ?h1 = "h(a \<mapsto> c\<lparr>last_on_demand_refresh := ?now\<rparr>)"
    have cas: "claim_cas h a ?prev ?now = (True, ?h1)" using Some by (simp add: claim_cas_def)
    show ?thesis
    proof (cases "?now < saturating_add ?prev (on_demand_refresh_min_interval_secs (ctx_auth_config c))")
      case True
      with assms(1) Some have "(b, h') = wait_for_completion E h a ?prev"
        by (simp add: on_demand_refresh_def Let_def)
      then have "h' = h" using wait by (metis snd_conv)
      then show ?thesis by blast
    next
      case False
      with assms(1) Some cas obtain h2 where
        h2: "fetch_and_install X E ?h1 a = Returns (b, h2)" and h': "h' = completed_store h2 a ?now"
        by (auto simp: on_demand_refresh_def Let_def u result_simps)
      have inst: "h2 = ?h1 \<or> (\<exists>j. h2 = jwks_store ?h1 a j)"
        using h2
        by (auto simp: fetch_and_install_def u bind_outcome_def Let_def install_refreshed_jwks_def
            split: sum.splits option.splits outcome.splits)
      have "refresh_step a (h, R, W, L) (h, (?prev, ?now) # R, W, L)"
        by (rule Load [where c = c]) (use Some False in simp_all)
      moreover have "refresh_step a (h, (?prev, ?now) # R, W, L) (?h1, R, ?now # W, ?now # L)"
        using Win [of ?prev ?now "(?prev, ?now) # R" h a ?h1 W L] cas by simp
      moreover have "(refresh_step a)\<^sup>*\<^sup>* (?h1, R, ?now # W, ?now # L) (h2, R, ?now # W, ?now # L)"
        using inst Install by (metis r_into_rtranclp rtranclp.rtrancl_refl)
      moreover have "refresh_step a (h2, R, ?now # W, ?now # L) (h', R, W, ?now # L)"
        using Complete [of ?now "?now # W" a h2 R "?now # L"] h' by simp
      ultimately show ?thesis
        by (meson converse_rtranclp_into_rtranclp rtranclp.rtrancl_into_rtrancl)
    qed
  qed
qed

subsection \<open>Properties\<close>

text \<open>
  However many requests ask for a refresh of one context, and however their steps interleave,
  any two claims of the refresh slot are at least the configured interval apart in the wall-clock
  values that the claiming tasks read (unless the clock reads the largest 64-bit value).
\<close>

theorem on_demand_claims_spaced:
  assumes "h a = Some c"
    and "(refresh_step a)\<^sup>*\<^sup>* (h, [], [], []) (h', R, W, L)"
    and "i < j" and "j < length L"
  shows "L ! i = - 1 \<or>
    unat (L ! j) + unat (on_demand_refresh_min_interval_secs (ctx_auth_config c)) \<le> unat (L ! i)"
proof -
  let ?i = "on_demand_refresh_min_interval_secs (ctx_auth_config c)"
  have "claim_inv a ?i (h, [], [], [])" using assms(1) by (simp add: claim_inv_def)
  from claim_inv_steps [OF assms(2) this] have "sorted_wrt (spaced ?i) L"
    by (simp add: claim_inv_def)
  from sorted_wrt_nth_less [OF this assms(3,4)] show ?thesis by (simp add: spaced_def)
qed

definition demo_refresh_env :: "u64 \<Rightarrow> refresh_env" where
  "demo_refresh_env now = \<lparr>re_now = Some now, re_http = demo_http 3, re_before_cas = id,
     re_during_fetch = id, re_during_wait = id\<rparr>"

lemma demo_two_claims:
  "\<exists>h' c. (refresh_step vault_addr)\<^sup>*\<^sup>* (demo_heap (demo_jwks ''k'' [1]) (demo_jwks ''k'' [2]), [], [], [])
     (h', [], [130, 100], [130, 100]) \<and> h' vault_addr = Some c"
proof -
  let ?h = "demo_heap (demo_jwks ''k'' [1]) (demo_jwks ''k'' [2])"
  let ?c = "demo_context Vault admin_addr (demo_jwks ''k'' [1])"
  let ?h1 = "?h(vault_addr \<mapsto> ?c\<lparr>last_on_demand_refresh := 100\<rparr>)"
  let ?h2 = "?h(vault_addr \<mapsto> ?c\<lparr>last_on_demand_refresh := 130\<rparr>)"
  have c: "?h vault_addr = Some ?c" by (simp add: demo_heap_def)
  have i: "on_demand_refresh_min_interval_secs (ctx_auth_config ?c) = 30" "last_on_demand_refresh ?c = 0"
    by (simp_all add: demo_context_def auth_config_default_def)
  have "refresh_step vault_addr (?h, [], [], []) (?h, [(0, 100)], [], [])"
    by (rule Load [where c = ?c]) (simp_all add: c i saturating_add_def)
  moreover have "refresh_step vault_addr (?h, [(0, 100)], [], []) (?h1, [], [100], [100])"
    using Win [of 0 100 "[(0, 100)]" ?h vault_addr ?h1 "[]" "[]"] by (simp add: claim_cas_def c i)
  moreover have "refresh_step vault_addr (?h1, [], [100], [100]) (?h1, [(100, 130)], [100], [100])"
    by (rule Load [where c = "?c\<lparr>last_on_demand_refresh := 100\<rparr>"])
      (simp_all add: i saturating_add_def)
  moreover have "refresh_step vault_addr (?h1, [(100, 130)], [100], [100]) (?h2, [], [130, 100], [130, 100])"
    using Win [of 100 130 "[(100, 130)]" ?h1 vault_addr ?h2 "[100]" "[100]"]
    by (simp add: claim_cas_def)
  ultimately have run: "(refresh_step vault_addr)\<^sup>*\<^sup>* (?h, [], [], []) (?h2, [], [130, 100], [130, 100])"
    by (blast intro: converse_rtranclp_into_rtranclp)
  then show ?thesis by (intro exI [of _ ?h2] exI [of _ "?c\<lparr>last_on_demand_refresh := 130\<rparr>"]) simp
qed

theorem on_demand_claims_spaced_witness:
  "\<exists>h' W. (refresh_step vault_addr)\<^sup>*\<^sup>*
     (demo_heap (demo_jwks ''k'' [1]) (demo_jwks ''k'' [2]), [], [], []) (h', [], W, [130, 100 :: u64]) \<and>
     unat (100 :: u64) + 30 \<le> unat (130 :: u64)"
proof -
  let ?h = "demo_heap (demo_jwks ''k'' [1]) (demo_jwks ''k'' [2])"
  obtain h' where run: "(refresh_step vault_addr)\<^sup>*\<^sup>* (?h, [], [], []) (h', [], [130, 100], [130, 100])"
    using demo_two_claims by blast
  have c: "?h vault_addr = Some (demo_context Vault admin_addr (demo_jwks ''k'' [1]))" by (simp add: demo_heap_def)
  from on_demand_claims_spaced [OF c run, of 0 1] run show ?thesis
    by (auto simp: demo_context_def auth_config_default_def)
qed

text \<open>
  A refresh, won or lost, leaves the contexts in order as long as the other tasks do: no
  failure of the fetch, the parser or the overlap check evicts or damages a key set, and both
  contexts keep non-empty, well-formed, disjoint key sets. A fetch that fails leaves the key set as
  it was.
\<close>

theorem refresh_keeps_contexts:
  assumes "contexts_ok X h" and "env_keeps X E" and "a = vault_addr \<or> a = admin_addr"
    and "on_demand_refresh X E h a = Returns (b, h')"
    and "do_scheduled_refresh X E h a = Returns h''"
  shows "contexts_ok X h' \<and> contexts_ok X h'' \<and>
    (\<forall>c e. h a = Some c \<longrightarrow> fetch_jwks X (re_http E) (jwks_uri (ctx_discovery c)) = Returns (Inl e) \<longrightarrow>
       h'' = re_during_fetch E h)"
proof -
  obtain q where f: "fetch_and_install X E h a = Returns (q, h'')"
    using assms(5) by (auto simp: do_scheduled_refresh_def result_simps)
  then have "\<forall>c e. h a = Some c \<longrightarrow> fetch_jwks X (re_http E) (jwks_uri (ctx_discovery c)) = Returns (Inl e) \<longrightarrow>
      h'' = re_during_fetch E h"
    by (auto simp: fetch_and_install_def)
  then show ?thesis
    using contexts_ok_on_demand_refresh [OF assms(1-4)]
      contexts_ok_fetch_and_install [OF assms(1-3) f] by blast
qed

lemma contexts_ok_truncate: "contexts_ok (crypto_ext.truncate X) h = contexts_ok X h"
  by (simp add: contexts_ok_def jwks_wf_truncate)

lemma demo_init_ext_truncate: "crypto_ext.truncate demo_init_ext = demo_crypto"
  by (simp add: demo_init_ext_def demo_ext_def crypto_ext.defs demo_crypto_def)

lemma demo_fetch: "fetch_jwks demo_init_ext (demo_http n) u = Returns (Inr (demo_jwks ''k'' [of_nat n]))"
  by (simp add: fetch_jwks_def demo_http_def is_success_def)
    (simp add: demo_init_ext_def flip: demo_init_parse)

lemma demo_fetch_and_install:
  assumes "h vault_addr = Some c" and "other c = Some admin_addr"
    and "h admin_addr = Some (demo_context Admin vault_addr (demo_jwks ''k'' [2]))"
  shows "fetch_and_install demo_init_ext (demo_refresh_env now) h vault_addr =
    Returns (True, jwks_store h vault_addr (demo_jwks ''k'' [3]))"
proof -
  have "check_disjoint_jwks (demo_jwks ''k'' [2]) (demo_jwks ''k'' [3]) t = Inr ()" for t
    by (simp add: check_disjoint_jwks_iff demo_jwks_disjoint)
  with assms show ?thesis
    by (simp add: fetch_and_install_def demo_refresh_env_def demo_fetch install_refreshed_jwks_def
        install_check_def demo_context_def)
qed

lemma demo_refresh_claimed:
  assumes "30 \<le> now"
  shows "\<exists>h'. on_demand_refresh demo_init_ext (demo_refresh_env now)
    (demo_heap (demo_jwks ''k'' [1]) (demo_jwks ''k'' [2])) vault_addr = Returns (True, h')"
proof -
  let ?h = "demo_heap (demo_jwks ''k'' [1]) (demo_jwks ''k'' [2])"
  let ?c = "demo_context Vault admin_addr (demo_jwks ''k'' [1])"
  let ?h1 = "?h(vault_addr \<mapsto> ?c\<lparr>last_on_demand_refresh := now\<rparr>)"
  have c: "?h vault_addr = Some ?c" "?h admin_addr = Some (demo_context Admin vault_addr (demo_jwks ''k'' [2]))"
    by (simp_all add: demo_heap_def)
  have e: "re_now (demo_refresh_env now) = Some now" "re_before_cas (demo_refresh_env now) = id"
    by (simp_all add: demo_refresh_env_def)
  have i: "on_demand_refresh_min_interval_secs (ctx_auth_config ?c) = 30" "last_on_demand_refresh ?c = 0"
    by (simp_all add: demo_context_def auth_config_default_def)
  have "fetch_and_install demo_init_ext (demo_refresh_env now) ?h1 vault_addr =
      Returns (True, jwks_store ?h1 vault_addr (demo_jwks ''k'' [3]))"
    by (rule demo_fetch_and_install [where c = "?c\<lparr>last_on_demand_refresh := now\<rparr>"])
      (simp_all add: c demo_context_def)
  then show ?thesis
    using assms by (simp add: on_demand_refresh_def Let_def claim_cas_def c e i saturating_add_def not_less [symmetric])
qed

theorem refresh_keeps_contexts_witness:
  "\<exists>h h' h''. on_demand_refresh demo_init_ext (demo_refresh_env 100) h vault_addr = Returns (True, h') \<and>
     do_scheduled_refresh demo_init_ext (demo_refresh_env 100) h vault_addr = Returns h'' \<and>
     contexts_ok demo_init_ext h' \<and> contexts_ok demo_init_ext h''"
proof -
  let ?h = "demo_heap (demo_jwks ''k'' [1]) (demo_jwks ''k'' [2])"
  let ?c = "demo_context Vault admin_addr (demo_jwks ''k'' [1])"
  have c: "?h vault_addr = Some ?c" "?h admin_addr = Some (demo_context Admin vault_addr (demo_jwks ''k'' [2]))"
    by (simp_all add: demo_heap_def)
  have "contexts_ok demo_crypto ?h" by (simp add: demo_heap_ok demo_jwks_disjoint)
  then have ok: "contexts_ok demo_init_ext ?h"
    using contexts_ok_truncate [of demo_init_ext ?h] by (simp add: demo_init_ext_truncate)
  have keeps: "env_keeps demo_init_ext (demo_refresh_env 100)"
    by (simp add: env_keeps_def demo_refresh_env_def)
  have s: "do_scheduled_refresh demo_init_ext (demo_refresh_env 100) ?h vault_addr =
      Returns (jwks_store ?h vault_addr (demo_jwks ''k'' [3]))"
    using c by (simp add: do_scheduled_refresh_def demo_fetch_and_install demo_context_def)
  obtain h' where d: "on_demand_refresh demo_init_ext (demo_refresh_env 100) ?h vault_addr = Returns (True, h')"
    using demo_refresh_claimed [of 100] by auto
  from refresh_keeps_contexts [OF ok keeps _ d s] d s show ?thesis by blast
qed

text \<open>
  A task that loses the compare-and-swap does not wait for the winner: whenever all earlier
  refreshes had completed when it read the last claim, it answers \<open>caller may retry\<close> at once, with
  the winner's fetch still under way and whatever would happen during a wait, and the key set it
  retries with is the old one.
\<close>

theorem cas_loser_does_not_wait:
  assumes "h a = Some c"
    and "last_on_demand_refresh c \<le> last_refresh_completed c"
    and "saturating_add (last_on_demand_refresh c)
           (on_demand_refresh_min_interval_secs (ctx_auth_config c)) \<le> unwrap_or (re_now E) 0"
    and "re_before_cas E h = h(a \<mapsto> c\<lparr>last_on_demand_refresh := w\<rparr>)"
    and "w \<noteq> last_on_demand_refresh c"
  shows "on_demand_refresh X E h a = Returns (True, h(a \<mapsto> c\<lparr>last_on_demand_refresh := w\<rparr>))"
proof -
  have "\<not> unwrap_or (re_now E) 0 < saturating_add (last_on_demand_refresh c)
      (on_demand_refresh_min_interval_secs (ctx_auth_config c))"
    using assms(3) by (simp add: not_less)
  with assms show ?thesis
    by (simp add: on_demand_refresh_def claim_cas_def wait_for_completion_def Let_def)
qed

theorem cas_loser_does_not_wait_witness:
  "on_demand_refresh demo_init_ext
     ((demo_refresh_env 100)\<lparr>re_before_cas :=
        \<lambda>h. h(vault_addr \<mapsto> (demo_context Vault admin_addr (demo_jwks ''k'' [1]))\<lparr>last_on_demand_refresh := 100\<rparr>)\<rparr>)
     (demo_heap (demo_jwks ''k'' [1]) (demo_jwks ''k'' [2])) vault_addr =
   Returns (True, (demo_heap (demo_jwks ''k'' [1]) (demo_jwks ''k'' [2]))
     (vault_addr \<mapsto> (demo_context Vault admin_addr (demo_jwks ''k'' [1]))\<lparr>last_on_demand_refresh := 100\<rparr>))"
  by (rule cas_loser_does_not_wait [where c = "demo_context Vault admin_addr (demo_jwks ''k'' [1])"])
    (simp_all add: demo_heap_def demo_context_def demo_refresh_env_def auth_config_default_def
      saturating_add_def)

text \<open>
  C33. A claim whose request is dropped blocks the refresh: when the client of the request that has won the
  claim disconnects during the fetch, no completion is recorded, and every other request that needs new keys within the
  interval after the claim waits for its timeout and is refused, whatever the issuer would answer.
\<close>

theorem dropped_claim_blocks_refresh:
  assumes "h a = Some c" and "re_before_cas E h = h"
    and "saturating_add (last_on_demand_refresh c)
           (on_demand_refresh_min_interval_secs (ctx_auth_config c)) \<le> unwrap_or (re_now E) 0"
    and "last_refresh_completed c < unwrap_or (re_now E) 0"
    and "h' = on_demand_refresh_dropped E h a"
    and "unwrap_or (re_now E') 0 < saturating_add (unwrap_or (re_now E) 0)
           (on_demand_refresh_min_interval_secs (ctx_auth_config c))"
    and "re_during_wait E' h' = h'"
  shows "on_demand_refresh X E' h' a = Returns (False, h')"
proof -
  have h': "h' = h(a \<mapsto> c\<lparr>last_on_demand_refresh := unwrap_or (re_now E) 0\<rparr>)"
    using assms(1-3,5) by (simp add: on_demand_refresh_dropped_def claim_cas_def Let_def not_less [symmetric])
  with assms(4,6,7) show ?thesis
    by (simp add: on_demand_refresh_def wait_for_completion_def Let_def not_le)
qed

text \<open>
  Witness: a claim at time 100 is dropped; ten seconds later a request finds no new key, although the issuer
  would deliver one, as it does when the claim has not been dropped.
\<close>

theorem dropped_claim_blocks_refresh_witness:
  "\<exists>h h' h''. h' = on_demand_refresh_dropped (demo_refresh_env 100) h vault_addr \<and>
     on_demand_refresh demo_init_ext (demo_refresh_env 110) h' vault_addr = Returns (False, h') \<and>
     on_demand_refresh demo_init_ext (demo_refresh_env 110) h vault_addr = Returns (True, h'')"
proof -
  let ?h = "demo_heap (demo_jwks ''k'' [1]) (demo_jwks ''k'' [2])"
  let ?c = "demo_context Vault admin_addr (demo_jwks ''k'' [1])"
  let ?h' = "on_demand_refresh_dropped (demo_refresh_env 100) ?h vault_addr"
  have "on_demand_refresh demo_init_ext (demo_refresh_env 110) ?h' vault_addr = Returns (False, ?h')"
    by (rule dropped_claim_blocks_refresh [where c = ?c and h = ?h and E = "demo_refresh_env 100"])
      (simp_all add: demo_heap_def demo_context_def demo_refresh_env_def auth_config_default_def saturating_add_def)
  moreover obtain h'' where "on_demand_refresh demo_init_ext (demo_refresh_env 110) ?h vault_addr = Returns (True, h'')"
    using demo_refresh_claimed [of 110] by auto
  ultimately show ?thesis by blast
qed

text \<open>
  The completion time of a context is not monotonic: two refreshes may be claimed one interval apart and
  complete in the opposite order, and the later store, of the earlier claim, turns the time back from 130 to 100.
\<close>

theorem completion_time_can_decrease:
  "\<exists>h1 h2 c1 c2 W.
     (refresh_step vault_addr)\<^sup>*\<^sup>* (demo_heap (demo_jwks ''k'' [1]) (demo_jwks ''k'' [2]), [], [], []) (h1, [], W, [130, 100]) \<and>
     refresh_step vault_addr (h1, [], W, [130, 100]) (h2, [], [], [130, 100]) \<and>
     h1 vault_addr = Some c1 \<and> last_refresh_completed c1 = 130 \<and>
     h2 vault_addr = Some c2 \<and> last_refresh_completed c2 = 100"
proof -
  obtain h c where run: "(refresh_step vault_addr)\<^sup>*\<^sup>*
      (demo_heap (demo_jwks ''k'' [1]) (demo_jwks ''k'' [2]), [], [], []) (h, [], [130, 100], [130, 100])"
    and c: "h vault_addr = Some c"
    using demo_two_claims by blast
  let ?h1 = "completed_store h vault_addr 130"
  let ?h2 = "completed_store ?h1 vault_addr 100"
  have 1: "refresh_step vault_addr (h, [], [130, 100], [130, 100]) (?h1, [], [100], [130, 100])"
    using Complete [of 130 "[130, 100]" vault_addr h "[]" "[130, 100]"] by simp
  have 2: "refresh_step vault_addr (?h1, [], [100], [130, 100]) (?h2, [], [], [130, 100])"
    using Complete [of 100 "[100]" vault_addr ?h1 "[]" "[130, 100]"] by simp
  show ?thesis
    by (intro exI [of _ ?h1] exI [of _ ?h2] exI [of _ "c\<lparr>last_refresh_completed := 130\<rparr>"]
        exI [of _ "c\<lparr>last_refresh_completed := 100\<rparr>"] exI [of _ "[100]"] conjI rtranclp.rtrancl_into_rtrancl [OF run 1] 2)
      (simp_all add: completed_store_def c)
qed

end
