(* ===== verification/Replay.thy ===== *)
theory Replay
  imports Crypto Settings "HOL-Library.List_Lexorder" "HOL-Library.Product_Lexorder"
begin

section \<open>The DPoP replay store (auth/replay.rs)\<close>

text \<open>
  \<^verbatim>\<open>JtiReplayStore\<close> holds two structures under two locks: a hash map from keys to deadlines and a
  min-heap of (deadline, key) pairs. \<open>try_insert\<close> and \<open>maintenance_tick\<close> each take the two locks
  one after the other, never together, so each is modelled as two atomic steps; the functions of
  the source are their sequential composition, and \<open>store_step\<close> interleaves the steps of any
  number of threads.
\<close>

subsection \<open>Keys\<close>

datatype jti_key = JtiKey (key_audience: u8) (jti_hash: bytes)

definition jti_key_new :: "'a crypto_ext_scheme \<Rightarrow> u8 \<Rightarrow> string \<Rightarrow> jti_key" where
  "jti_key_new X audience_tag raw_jti = JtiKey audience_tag (sha256 X (as_bytes raw_jti))"

text \<open>The derived \<^verbatim>\<open>Ord\<close> of the struct: audience first, then the hash, lexicographically.\<close>

instantiation jti_key :: linorder
begin

definition less_eq_jti_key :: "jti_key \<Rightarrow> jti_key \<Rightarrow> bool" where
  "less_eq_jti_key k l \<longleftrightarrow> (key_audience k, jti_hash k) \<le> (key_audience l, jti_hash l)"

definition less_jti_key :: "jti_key \<Rightarrow> jti_key \<Rightarrow> bool" where
  "less_jti_key k l \<longleftrightarrow> (key_audience k, jti_hash k) < (key_audience l, jti_hash l)"

instance
  by standard
    (auto simp: less_eq_jti_key_def less_jti_key_def intro: jti_key.expand split: if_splits)

end

lemma jti_key_new_audience_disjoint:
  "a \<noteq> b \<Longrightarrow> jti_key_new X a i \<noteq> jti_key_new X b j"
  by (simp add: jti_key_new_def)

lemma jti_key_new_eq_iff:
  "jti_key_new X a i = jti_key_new X b j \<longleftrightarrow> a = b \<and> sha256 X (as_bytes i) = sha256 X (as_bytes j)"
  by (simp add: jti_key_new_def)

subsection \<open>The expiry queue\<close>

text \<open>
  \<^verbatim>\<open>BinaryHeap<Reverse<(Instant, JtiKey)>>\<close> is a min-heap: only the multiset of its elements and
  its minimum are observable. It is modelled by the ascending list of its elements.
\<close>

type_synonym expiry_heap = "(instant \<times> jti_key) list"

definition heap_push :: "instant \<times> jti_key \<Rightarrow> expiry_heap \<Rightarrow> expiry_heap" where
  "heap_push x q = insort x q"

definition heap_peek :: "expiry_heap \<Rightarrow> (instant \<times> jti_key) option" where
  "heap_peek q = (case q of [] \<Rightarrow> None | x # _ \<Rightarrow> Some x)"

definition heap_pop :: "expiry_heap \<Rightarrow> expiry_heap" where
  "heap_pop q = tl q"

text \<open>The \<^verbatim>\<open>while let\<close> loop of \<open>maintenance_tick\<close>: pop while the earliest deadline is not after \<open>now\<close>.\<close>

function drain_expired :: "instant \<Rightarrow> expiry_heap \<Rightarrow> jti_key list \<times> expiry_heap" where
  "drain_expired now q =
     (case heap_peek q of
        None \<Rightarrow> ([], q)
      | Some (deadline, key) \<Rightarrow>
          if now < deadline then ([], q)
          else (let (keys, q') = drain_expired now (heap_pop q) in (key # keys, q')))"
  by pat_completeness auto
termination
  by (relation "measure (\<lambda>(now, q). length q)")
    (auto simp: heap_peek_def heap_pop_def split: list.splits)

declare drain_expired.simps [simp del]

text \<open>
  What the loop relies on is the contract of a priority queue and nothing else. It is stated as a
  locale; the loop's own lemmas are proved once from the contract.
\<close>

locale min_queue =
  fixes push :: "'a::linorder \<Rightarrow> 'q \<Rightarrow> 'q"
    and peek :: "'q \<Rightarrow> 'a option"
    and pop :: "'q \<Rightarrow> 'q"
    and elems :: "'q \<Rightarrow> 'a multiset"
    and invar :: "'q \<Rightarrow> bool"
  assumes elems_push: "invar q \<Longrightarrow> elems (push x q) = add_mset x (elems q)"
    and invar_push: "invar q \<Longrightarrow> invar (push x q)"
    and peek_None_iff: "invar q \<Longrightarrow> peek q = None \<longleftrightarrow> elems q = {#}"
    and peek_member: "invar q \<Longrightarrow> peek q = Some x \<Longrightarrow> x \<in># elems q"
    and peek_least: "invar q \<Longrightarrow> peek q = Some x \<Longrightarrow> y \<in># elems q \<Longrightarrow> x \<le> y"
    and elems_pop: "invar q \<Longrightarrow> peek q = Some x \<Longrightarrow> elems (pop q) = elems q - {#x#}"
    and invar_pop: "invar q \<Longrightarrow> invar (pop q)"

locale expiring_queue = min_queue push peek pop elems invar
  for push :: "instant \<times> jti_key \<Rightarrow> 'q \<Rightarrow> 'q"
    and peek :: "'q \<Rightarrow> (instant \<times> jti_key) option"
    and pop :: "'q \<Rightarrow> 'q"
    and elems :: "'q \<Rightarrow> (instant \<times> jti_key) multiset"
    and invar :: "'q \<Rightarrow> bool" +
  fixes drain :: "instant \<Rightarrow> 'q \<Rightarrow> jti_key list \<times> 'q"
  assumes drain_unfold: "drain now q =
     (case peek q of
        None \<Rightarrow> ([], q)
      | Some (deadline, key) \<Rightarrow>
          if now < deadline then ([], q)
          else (let (keys, q') = drain now (pop q) in (key # keys, q')))"
begin

lemma drain_spec:
  assumes "invar q" and "drain now q = (ks, q')"
  shows "invar q' \<and> elems q' = filter_mset (\<lambda>x. now < fst x) (elems q) \<and>
    mset ks = image_mset snd (filter_mset (\<lambda>x. fst x \<le> now) (elems q))"
  using assms
proof (induction "size (elems q)" arbitrary: q ks q')
  case 0
  then have "peek q = None" by (simp add: peek_None_iff)
  then have "ks = [] \<and> q' = q" using 0(3) by (subst (asm) drain_unfold) auto
  with 0 show ?case by simp
next
  case (Suc n)
  have "peek q \<noteq> None" using Suc.hyps(2) Suc.prems(1) by (auto simp: peek_None_iff)
  then obtain d k where pk: "peek q = Some (d, k)" by auto
  show ?case
  proof (cases "now < d")
    case True
    have later: "now < fst x" if "x \<in># elems q" for x
      using peek_least [OF Suc.prems(1) pk that] True by (cases x) (auto split: if_splits)
    have "ks = [] \<and> q' = q"
      using Suc.prems(2) pk True by (subst (asm) drain_unfold) auto
    moreover have "filter_mset (\<lambda>x. now < fst x) (elems q) = elems q"
      using later by (simp add: filter_mset_eq_conv)
    moreover have "filter_mset (\<lambda>x. fst x \<le> now) (elems q) = {#}"
      using later by (auto simp: filter_mset_eq_mempty_iff not_le)
    ultimately show ?thesis using Suc.prems(1) by simp
  next
    case False
    obtain ks' where rest: "drain now (pop q) = (ks', q')" and ks: "ks = k # ks'"
      using Suc.prems(2) pk False
      by (subst (asm) drain_unfold) (auto split: prod.splits)
    have mem: "(d, k) \<in># elems q" by (rule peek_member [OF Suc.prems(1) pk])
    have ep: "elems (pop q) = elems q - {#(d, k)#}"
      by (rule elems_pop [OF Suc.prems(1) pk])
    have "n = size (elems (pop q))"
      using Suc.hyps(2) mem by (simp add: ep size_Diff_singleton)
    from Suc.hyps(1) [OF this invar_pop [OF Suc.prems(1)] rest]
    have IH: "invar q' \<and> elems q' = filter_mset (\<lambda>x. now < fst x) (elems (pop q)) \<and>
        mset ks' = image_mset snd (filter_mset (\<lambda>x. fst x \<le> now) (elems (pop q)))" .
    obtain M where M: "elems q = add_mset (d, k) M"
      using mem by (metis mset_add)
    show ?thesis using IH False by (simp add: ks ep M not_less)
  qed
qed

end

interpretation rq: min_queue heap_push heap_peek heap_pop mset sorted
  by unfold_locales
    (auto simp: heap_push_def heap_peek_def heap_pop_def sorted_insort_key sorted_tl
      neq_Nil_conv sorted_insort split: list.splits)

interpretation rx: expiring_queue heap_push heap_peek heap_pop mset sorted drain_expired
  by unfold_locales (rule drain_expired.simps)

subsection \<open>The store and its atomic steps\<close>

datatype insert_error = Replayed | MemoryPressure

record jti_replay_store =
  rs_entries :: "(jti_key \<times> instant) list"
  rs_queue :: expiry_heap
  rs_len :: nat
  rs_config :: auth_config

definition replay_store_new :: "auth_config \<Rightarrow> jti_replay_store" where
  "replay_store_new cfg = \<lparr>rs_entries = [], rs_queue = [], rs_len = 0, rs_config = cfg\<rparr>"

text \<open>First half of \<open>try_insert\<close>, under the \<open>entries\<close> lock.\<close>

definition try_insert_entries ::
    "jti_replay_store \<Rightarrow> jti_key \<Rightarrow> instant \<Rightarrow> (insert_error + unit) \<times> jti_replay_store" where
  [step_defs]: "try_insert_entries s key deadline =
     (if hm_contains (rs_entries s) key then (Inl Replayed, s)
      else if unat (max_replay_entries (rs_config s)) \<le> length (rs_entries s)
      then (Inl MemoryPressure, s)
      else (let entries = AList.update key deadline (rs_entries s) in
            (Inr (), s\<lparr>rs_entries := entries, rs_len := length entries\<rparr>)))"

text \<open>Second half, under the \<open>expiry_queue\<close> lock.\<close>

definition try_insert_push ::
    "jti_replay_store \<Rightarrow> jti_key \<Rightarrow> instant \<Rightarrow> jti_replay_store" where
  [step_defs]: "try_insert_push s key deadline = s\<lparr>rs_queue := heap_push (deadline, key) (rs_queue s)\<rparr>"

definition try_insert ::
    "jti_replay_store \<Rightarrow> jti_key \<Rightarrow> instant \<Rightarrow> (insert_error + unit) \<times> jti_replay_store" where
  "try_insert s key deadline =
     (case try_insert_entries s key deadline of
        (Inl e, s') \<Rightarrow> (Inl e, s')
      | (Inr _, s') \<Rightarrow> (Inr (), try_insert_push s' key deadline))"

definition tick_drain :: "instant \<Rightarrow> jti_replay_store \<Rightarrow> jti_key list \<times> jti_replay_store" where
  [step_defs]: "tick_drain now s =
     (let (keys, q) = drain_expired now (rs_queue s) in (keys, s\<lparr>rs_queue := q\<rparr>))"

definition tick_remove :: "jti_key list \<Rightarrow> jti_replay_store \<Rightarrow> jti_replay_store" where
  [step_defs]: "tick_remove keys s =
     (let entries = fold AList.delete keys (rs_entries s) in
      s\<lparr>rs_entries := entries, rs_len := length entries\<rparr>)"

definition maintenance_tick :: "jti_replay_store \<Rightarrow> instant \<Rightarrow> jti_replay_store" where
  "maintenance_tick s now =
     (let (expired_keys, s') = tick_drain now s in
      if expired_keys = [] then s' else tick_remove expired_keys s')"

definition store_len :: "jti_replay_store \<Rightarrow> nat" where
  "store_len s = rs_len s"

definition store_is_empty :: "jti_replay_store \<Rightarrow> bool" where
  "store_is_empty s \<longleftrightarrow> store_len s = 0"

subsection \<open>The store against its specification\<close>

text \<open>
  The abstract store is the finite map from accepted keys to their deadlines. The invariant ties
  the two structures together while no operation is in progress: the heap holds exactly the
  entries of the map.
\<close>

definition replay_inv :: "jti_replay_store \<Rightarrow> bool" where
  "replay_inv s \<longleftrightarrow> hm_wf (rs_entries s) \<and> sorted (rs_queue s) \<and>
     mset (rs_queue s) = image_mset prod.swap (mset (rs_entries s)) \<and>
     rs_len s = length (rs_entries s) \<and>
     length (rs_entries s) \<le> unat (max_replay_entries (rs_config s))"

definition spec_expire :: "instant \<Rightarrow> (jti_key \<rightharpoonup> instant) \<Rightarrow> (jti_key \<rightharpoonup> instant)" where
  "spec_expire now m = (\<lambda>k. case m k of None \<Rightarrow> None | Some d \<Rightarrow> if d \<le> now then None else Some d)"

lemma replay_inv_new: "replay_inv (replay_store_new cfg)"
  by (simp add: replay_inv_def replay_store_new_def)

lemma try_insert_Inl:
  "try_insert s k d = (Inl e, s') \<Longrightarrow> s' = s"
  by (auto simp: try_insert_def try_insert_entries_def Let_def split: if_splits)

lemma try_insert_Replayed_iff:
  "fst (try_insert s k d) = Inl Replayed \<longleftrightarrow> hm_contains (rs_entries s) k"
  by (auto simp: try_insert_def try_insert_entries_def Let_def split: if_splits)

lemma try_insert_MemoryPressure_iff:
  "fst (try_insert s k d) = Inl MemoryPressure \<longleftrightarrow>
     \<not> hm_contains (rs_entries s) k \<and>
     unat (max_replay_entries (rs_config s)) \<le> length (rs_entries s)"
  by (auto simp: try_insert_def try_insert_entries_def Let_def split: if_splits)

lemma try_insert_Inr:
  assumes "try_insert s k d = (Inr u, s')"
  shows "map_of (rs_entries s) k = None" "map_of (rs_entries s') = (map_of (rs_entries s))(k \<mapsto> d)"
    "rs_queue s' = heap_push (d, k) (rs_queue s)" "rs_config s' = rs_config s"
    "length (rs_entries s) < unat (max_replay_entries (rs_config s))"
    "rs_entries s' = AList.update k d (rs_entries s)" "rs_len s' = length (rs_entries s')"
  using assms
  by (auto simp: try_insert_def try_insert_entries_def try_insert_push_def Let_def split: if_splits)

lemma try_insert_config: "rs_config (snd (try_insert s k d)) = rs_config s"
  by (auto simp: try_insert_def try_insert_entries_def try_insert_push_def Let_def)

lemma replay_inv_try_insert:
  assumes "replay_inv s" and "try_insert s k d = (r, s')"
  shows "replay_inv s'"
proof (cases r)
  case (Inl e)
  with assms show ?thesis using try_insert_Inl by blast
next
  case (Inr u)
  note ins = try_insert_Inr [OF assms(2) [unfolded Inr]]
  have "sorted (rs_queue s)" and "hm_wf (rs_entries s)"
    using assms(1) by (auto simp: replay_inv_def)
  then show ?thesis
    using assms(1) ins rq.elems_push rq.invar_push
    by (simp add: replay_inv_def mset_update_new length_update_new)
qed

lemma mset_fold_delete:
  "mset (fold AList.delete ks m) = filter_mset (\<lambda>x. fst x \<notin> set ks) (mset m)"
proof (induction ks arbitrary: m)
  case (Cons k ks)
  have "mset (AList.delete k m) = filter_mset (\<lambda>x. fst x \<noteq> k) (mset m)"
    by (simp add: AList.delete_eq case_prod_unfold eq_commute flip: mset_filter)
  with Cons [of "AList.delete k m"] show ?case
    by (simp add: filter_filter_mset conj_commute)
qed simp

lemma hm_wf_mem_unique:
  "hm_wf m \<Longrightarrow> (k, v) \<in> set m \<Longrightarrow> (k, v') \<in> set m \<Longrightarrow> v = v'"
  by (metis map_of_is_SomeI option.inject)

text \<open>The keys that a tick drains are those of the entries whose deadline has passed.\<close>

lemma tick_drain_spec:
  assumes "replay_inv s" and "tick_drain now s = (ks, s')"
  shows "set ks = {k. \<exists>d. map_of (rs_entries s) k = Some d \<and> d \<le> now}"
    and "sorted (rs_queue s')"
    and "mset (rs_queue s') = filter_mset (\<lambda>x. now < fst x) (mset (rs_queue s))"
    and "rs_entries s' = rs_entries s" and "rs_len s' = rs_len s" and "rs_config s' = rs_config s"
proof -
  have inv: "hm_wf (rs_entries s)" "sorted (rs_queue s)"
    "mset (rs_queue s) = image_mset prod.swap (mset (rs_entries s))"
    using assms(1) by (auto simp: replay_inv_def)
  obtain q where q: "drain_expired now (rs_queue s) = (ks, q)" "s' = s\<lparr>rs_queue := q\<rparr>"
    using assms(2) by (auto simp: tick_drain_def split: prod.splits)
  note d = rx.drain_spec [OF inv(2) q(1)]
  then show "sorted (rs_queue s')"
    and "mset (rs_queue s') = filter_mset (\<lambda>x. now < fst x) (mset (rs_queue s))"
    by (simp_all add: q(2))
  have "set ks = set_mset (mset ks)" by simp
  also have "\<dots> = {k. \<exists>d. (k, d) \<in> set (rs_entries s) \<and> d \<le> now}"
    using d inv(3) by (force simp: image_iff)
  finally show "set ks = {k. \<exists>d. map_of (rs_entries s) k = Some d \<and> d \<le> now}"
    using inv(1) by (simp add: map_of_eq_Some_iff)
qed (use assms(2) in \<open>auto simp: tick_drain_def split: prod.splits\<close>)

lemma tick_remove_Nil: "rs_len s = length (rs_entries s) \<Longrightarrow> tick_remove [] s = s"
  by (cases s) (simp add: tick_remove_def)

lemma maintenance_tick_cases:
  assumes "replay_inv s" and "tick_drain now s = (ks, s')"
  shows "maintenance_tick s now = tick_remove ks s'"
  using assms tick_drain_spec(4-6) [OF assms]
  by (auto simp: maintenance_tick_def tick_remove_Nil replay_inv_def)

lemma maintenance_tick_refines:
  assumes "replay_inv s"
  shows "map_of (rs_entries (maintenance_tick s now)) = spec_expire now (map_of (rs_entries s))"
proof -
  obtain ks s' where t: "tick_drain now s = (ks, s')" by force
  show ?thesis
    unfolding maintenance_tick_cases [OF assms t]
    using tick_drain_spec(1,4) [OF assms t]
    by (auto simp: tick_remove_def Let_def map_of_fold_delete spec_expire_def fun_eq_iff
        split: option.splits)
qed

lemma replay_inv_maintenance_tick:
  assumes "replay_inv s"
  shows "replay_inv (maintenance_tick s now)"
proof -
  obtain ks s' where t: "tick_drain now s = (ks, s')" by force
  note d = tick_drain_spec [OF assms t]
  have inv: "hm_wf (rs_entries s)"
    "mset (rs_queue s) = image_mset prod.swap (mset (rs_entries s))"
    "length (rs_entries s) \<le> unat (max_replay_entries (rs_config s))"
    using assms by (auto simp: replay_inv_def)
  let ?es = "fold AList.delete ks (rs_entries s)"
  have iff: "fst x \<notin> set ks \<longleftrightarrow> now < snd x" if "x \<in># mset (rs_entries s)" for x
    using that inv(1) d(1) by (cases x) (auto simp: not_le dest: hm_wf_mem_unique)
  have es: "mset ?es = filter_mset (\<lambda>x. now < snd x) (mset (rs_entries s))"
    unfolding mset_fold_delete by (rule filter_mset_cong [OF refl]) (rule iff)
  moreover have "length ?es \<le> length (rs_entries s)"
    using arg_cong [OF es, of size] size_filter_mset_lesseq [of _ "mset (rs_entries s)"]
    by simp
  ultimately show ?thesis
    unfolding maintenance_tick_cases [OF assms t]
    using d inv
    by (simp add: replay_inv_def tick_remove_def Let_def hm_wf_fold_delete filter_mset_image_mset)
qed

subsection \<open>What the proof validator relies on\<close>

datatype store_op = OpInsert jti_key instant | OpTick instant

definition run_op :: "store_op \<Rightarrow> jti_replay_store \<Rightarrow> jti_replay_store" where
  "run_op x s = (case x of OpInsert k d \<Rightarrow> snd (try_insert s k d) | OpTick now \<Rightarrow> maintenance_tick s now)"

text \<open>
  The contract of the store towards \<open>validate_proof\<close>: what an insertion answers, what it keeps,
  and what a clean-up may remove. The replay guarantee over whole histories follows from it.
\<close>

locale replay_guard =
  fixes insert :: "'s \<Rightarrow> jti_key \<Rightarrow> instant \<Rightarrow> (insert_error + unit) \<times> 's"
    and expire :: "'s \<Rightarrow> instant \<Rightarrow> 's"
    and view :: "'s \<Rightarrow> jti_key \<rightharpoonup> instant"
    and invar :: "'s \<Rightarrow> bool"
    and apply_op :: "store_op \<Rightarrow> 's \<Rightarrow> 's"
  assumes insert_ok: "invar s \<Longrightarrow> insert s k d = (Inr u, s') \<Longrightarrow>
      invar s' \<and> view s k = None \<and> view s' = (view s)(k \<mapsto> d)"
    and insert_err: "insert s k d = (Inl e, s') \<Longrightarrow> s' = s"
    and insert_seen: "invar s \<Longrightarrow> view s k = Some d \<Longrightarrow> fst (insert s k d') = Inl Replayed"
    and expire_view: "invar s \<Longrightarrow> invar (expire s now) \<and> view (expire s now) = spec_expire now (view s)"
    and apply_op_eq: "apply_op x s =
      (case x of OpInsert k d \<Rightarrow> snd (insert s k d) | OpTick now \<Rightarrow> expire s now)"
begin

lemma apply_op_keeps:
  assumes "invar s" and "view s k = Some d" and "\<And>now. x = OpTick now \<Longrightarrow> now < d"
  shows "invar (apply_op x s) \<and> view (apply_op x s) k = Some d"
proof (cases x)
  case (OpInsert k' d')
  obtain r s' where ins: "insert s k' d' = (r, s')" by force
  show ?thesis
  proof (cases r)
    case (Inl e)
    with assms ins OpInsert show ?thesis
      using insert_err [of s k' d' e s'] by (simp add: apply_op_eq)
  next
    case (Inr u)
    with assms ins OpInsert show ?thesis
      using insert_ok [OF assms(1), of k' d' u s'] by (auto simp: apply_op_eq)
  qed
next
  case (OpTick now)
  with assms expire_view [OF assms(1), of now] show ?thesis
    by (auto simp: apply_op_eq spec_expire_def)
qed

lemma run_keeps:
  assumes "invar s" and "view s k = Some d" and "\<And>now. OpTick now \<in> set ops \<Longrightarrow> now < d"
  shows "invar (fold apply_op ops s) \<and> view (fold apply_op ops s) k = Some d"
  using assms
proof (induction ops arbitrary: s)
  case (Cons x ops)
  have "invar (apply_op x s) \<and> view (apply_op x s) k = Some d"
    using Cons.prems by (intro apply_op_keeps) auto
  with Cons show ?case by auto
qed simp

lemma second_insert_replayed:
  assumes "invar s" and "insert s k d = (Inr u, s')"
    and "\<And>now. OpTick now \<in> set ops \<Longrightarrow> now < d"
  shows "fst (insert (fold apply_op ops s') k d') = Inl Replayed"
proof -
  from insert_ok [OF assms(1,2)] have "invar s'" "view s' k = Some d" by auto
  from run_keeps [OF this assms(3)] insert_seen show ?thesis by blast
qed

end

interpretation rg: replay_guard try_insert maintenance_tick
  "\<lambda>s. map_of (rs_entries s)" replay_inv run_op
proof unfold_locales
  fix s s' k d u
  assume "replay_inv s" and "try_insert s k d = (Inr u, s')"
  then show "replay_inv s' \<and> map_of (rs_entries s) k = None \<and>
      map_of (rs_entries s') = (map_of (rs_entries s))(k \<mapsto> d)"
    using replay_inv_try_insert try_insert_Inr(1,2) by blast
qed (auto simp: run_op_def try_insert_Replayed_iff replay_inv_maintenance_tick
    maintenance_tick_refines dest: try_insert_Inl)

end
