(* ===== verification/Tasks.thy ===== *)
theory Tasks
  imports Refresh Replay
begin

section \<open>Background tasks (auth/jwks.rs, auth/discovery.rs, auth/replay.rs)\<close>

text \<open>
  The three kinds of background tasks share one shape: leave at once if shutdown has already been
  signalled, create an interval and consume its immediate first tick, then select between the interval
  and the shutdown watch until the watch says stop. \<^verbatim>\<open>tokio\<close> is not under src/: its interval is
  the argument \<open>iv\<close>, which for a period in nanoseconds gives the instants at which the ticks complete
  (the one with number 0 is the immediate one), or the panic on a period of zero; which branch of the
  select is taken next is the argument of the loop, a list of wake-ups. Each wake-up comes with what the
  other tasks have done to the shared state in the meantime. The environment of a scheduled refresh is
  given as a function of the instant of its tick. \<open>changed()\<close> is given by whether it returned an
  error, and by the value of the watch after it. A panic of the work ends the task.
\<close>

datatype 'e wakeup = is_tick: Tick 'e | ShutdownChanged bool bool

datatype 's task_status = Running (status_state: 's) | Stopped (status_state: 's)

type_synonym interval_ext = "nat \<Rightarrow> (nat \<Rightarrow> instant) outcome"

fun select_loop ::
    "(instant \<Rightarrow> 'e \<Rightarrow> 's \<Rightarrow> 's outcome) \<Rightarrow> (nat \<Rightarrow> instant) \<Rightarrow> nat \<Rightarrow> (('s \<Rightarrow> 's) \<times> 'e wakeup) list \<Rightarrow> 's \<Rightarrow>
     's task_status outcome" where
  "select_loop work ticks n [] s = Returns (Running s)"
| "select_loop work ticks n ((others, Tick e) # ws) s =
     bind_outcome (work (ticks (Suc n)) e (others s)) (select_loop work ticks (Suc n) ws)"
| "select_loop work ticks n ((others, ShutdownChanged is_err v) # ws) s =
     (if is_err \<or> v then Returns (Stopped (others s)) else select_loop work ticks n ws (others s))"

definition background_task ::
    "interval_ext \<Rightarrow> nat \<Rightarrow> (instant \<Rightarrow> 'e \<Rightarrow> 's \<Rightarrow> 's outcome) \<Rightarrow> bool \<Rightarrow> (('s \<Rightarrow> 's) \<times> 'e wakeup) list \<Rightarrow> 's \<Rightarrow>
     's task_status outcome" where
  "background_task iv dur work already_shut_down ws s =
     (if already_shut_down then Returns (Stopped s)
      else bind_outcome (iv dur) (\<lambda>ticks. select_loop work ticks 0 ws s))"

text \<open>
  The task holds a reference to its context, so the look-up succeeds; the configuration of a context
  does not change.
\<close>

definition jwks_refresh_task ::
    "'dk ext \<Rightarrow> interval_ext \<Rightarrow> nat \<Rightarrow> bool \<Rightarrow> ((ctx_heap \<Rightarrow> ctx_heap) \<times> (instant \<Rightarrow> refresh_env) wakeup) list \<Rightarrow>
     ctx_heap \<Rightarrow> ctx_heap task_status outcome" where
  "jwks_refresh_task X iv a already_shut_down ws h = (case h a of
      None \<Rightarrow> Returns (Stopped h)
    | Some c \<Rightarrow> background_task iv (unat (jwks_refresh_secs (ctx_auth_config c)) * nanos_per_sec)
        (\<lambda>now E h. do_scheduled_refresh X (E now) h a) already_shut_down ws h)"

definition discovery_store :: "ctx_heap \<Rightarrow> nat \<Rightarrow> discovery \<Rightarrow> ctx_heap" where
  [step_defs]: "discovery_store h a d = (case h a of
      None \<Rightarrow> h | Some c \<Rightarrow> h(a \<mapsto> c\<lparr>ctx_discovery := d\<rparr>))"

definition do_discovery_refresh :: "'dk ext \<Rightarrow> refresh_env \<Rightarrow> ctx_heap \<Rightarrow> nat \<Rightarrow> ctx_heap outcome" where
  "do_discovery_refresh X E h a = (case h a of
      None \<Rightarrow> Returns h
    | Some c \<Rightarrow>
        (let h' = re_during_fetch E h in
         case fetch_discovery X (re_http E) (issuer_url c) of
           Inr new_discovery \<Rightarrow> Returns (discovery_store h' a new_discovery)
         | Inl _ \<Rightarrow> Returns h'))"

definition discovery_refresh_task ::
    "'dk ext \<Rightarrow> interval_ext \<Rightarrow> nat \<Rightarrow> bool \<Rightarrow> ((ctx_heap \<Rightarrow> ctx_heap) \<times> (instant \<Rightarrow> refresh_env) wakeup) list \<Rightarrow>
     ctx_heap \<Rightarrow> ctx_heap task_status outcome" where
  "discovery_refresh_task X iv a already_shut_down ws h = (case h a of
      None \<Rightarrow> Returns (Stopped h)
    | Some c \<Rightarrow> background_task iv (unat (discovery_refresh_secs (ctx_auth_config c)) * nanos_per_sec)
        (\<lambda>now E h. do_discovery_refresh X (E now) h a) already_shut_down ws h)"

definition cleanup_period_secs :: "auth_config \<Rightarrow> u64" where
  "cleanup_period_secs c = max (jti_replay_window_secs c div 4) 1"

definition cleanup_task ::
    "interval_ext \<Rightarrow> bool \<Rightarrow> ((jti_replay_store \<Rightarrow> jti_replay_store) \<times> unit wakeup) list \<Rightarrow> jti_replay_store \<Rightarrow>
     jti_replay_store task_status outcome" where
  "cleanup_task iv already_shut_down ws s =
     background_task iv (unat (cleanup_period_secs (rs_config s)) * nanos_per_sec)
       (\<lambda>now _ s. Returns (maintenance_tick s now)) already_shut_down ws s"

lemma unat_cleanup_period_secs:
  "unat (cleanup_period_secs c) = max (unat (jti_replay_window_secs c) div 4) 1"
  by (simp add: cleanup_period_secs_def max_def word_le_nat_alt unat_div)

text \<open>
  What \<^verbatim>\<open>tokio\<close> documents of an interval created at \<open>t0\<close>: with a positive period \<open>d\<close> (zero panics) the tick
  with number \<open>n\<close> completes no earlier than \<open>n\<close> periods after the creation. A tick that completes late does
  not shift the later ones (the default behaviour for missed ticks); how late the scheduler delivers one
  at most is the parameter \<open>late\<close>.
\<close>

definition interval_law :: "interval_ext \<Rightarrow> instant \<Rightarrow> nat \<Rightarrow> bool" where
  "interval_law iv t0 late \<longleftrightarrow> (\<forall>d > 0. \<exists>ticks. iv d = Returns ticks \<and>
     (\<forall>n. t0 + n * d \<le> ticks n \<and> ticks n \<le> t0 + n * d + late))"

lemma interval_lawD:
  assumes "interval_law iv t0 late" and "iv d = Returns ticks" and "0 < d"
  shows "t0 + n * d \<le> ticks n" and "ticks n \<le> t0 + n * d + late"
proof -
  obtain ts where "iv d = Returns ts" "t0 + n * d \<le> ts n \<and> ts n \<le> t0 + n * d + late"
    using assms(1,3) unfolding interval_law_def by blast
  then show "t0 + n * d \<le> ticks n" "ticks n \<le> t0 + n * d + late" using assms(2) by simp_all
qed

text \<open>An interval that is always on time.\<close>

definition demo_interval :: "instant \<Rightarrow> interval_ext" where
  "demo_interval t0 d = (if d = 0 then Panics else Returns (\<lambda>n. t0 + n * d))"

lemma demo_interval_law: "interval_law (demo_interval t0) t0 0"
  by (simp add: interval_law_def demo_interval_def)

subsection \<open>The loop\<close>

lemma all_less_Suc_split: "(\<forall>i < Suc n. P i) \<longleftrightarrow> P 0 \<and> (\<forall>i < n. P (Suc i))"
  by (auto simp: less_Suc_eq_0_disj)

text \<open>A wake-up that stops the task.\<close>

fun stops :: "'e wakeup \<Rightarrow> bool" where
  "stops (ShutdownChanged is_err v) \<longleftrightarrow> is_err \<or> v"
| "stops (Tick e) \<longleftrightarrow> False"

text \<open>
  What a task is to do while it runs: at every tick the work, at the instant that the interval's schedule
  has for that tick, on the state as the others have left it; at a notification that is not a stop,
  nothing. The number of a tick is counted from the list alone: one more than the ticks before it.
\<close>

fun serve :: "(instant \<Rightarrow> 'e \<Rightarrow> 's \<Rightarrow> 's outcome) \<Rightarrow> instant \<Rightarrow> ('s \<Rightarrow> 's) \<times> 'e wakeup \<Rightarrow> 's \<Rightarrow> 's outcome" where
  "serve work now (others, Tick e) s = work now e (others s)"
| "serve work now (others, ShutdownChanged is_err v) s = Returns (others s)"

definition ticks_before :: "('f \<times> 'e wakeup) list \<Rightarrow> nat \<Rightarrow> nat" where
  "ticks_before ws i = length (filter (\<lambda>fw. is_tick (snd fw)) (take i ws))"

definition numbered :: "nat \<Rightarrow> ('f \<times> 'e wakeup) list \<Rightarrow> (nat \<times> 'f \<times> 'e wakeup) list" where
  "numbered n ws = map (\<lambda>i. (Suc (n + ticks_before ws i), ws ! i)) [0..<length ws]"

definition ticks_served ::
    "(instant \<Rightarrow> 'e \<Rightarrow> 's \<Rightarrow> 's outcome) \<Rightarrow> (nat \<Rightarrow> instant) \<Rightarrow> nat \<Rightarrow> (('s \<Rightarrow> 's) \<times> 'e wakeup) list \<Rightarrow> 's \<Rightarrow> 's outcome" where
  "ticks_served work ticks n ws s =
     foldl (\<lambda>r (i, fw). bind_outcome r (serve work (ticks i) fw)) (Returns s) (numbered n ws)"

lemma ticks_before_simps [simp]:
  "ticks_before ws 0 = 0"
  "ticks_before (fw # ws) (Suc i) = (if is_tick (snd fw) then Suc (ticks_before ws i) else ticks_before ws i)"
  by (simp_all add: ticks_before_def)

lemma ticks_before_append: "i \<le> length ws \<Longrightarrow> ticks_before (ws @ vs) i = ticks_before ws i"
  by (simp add: ticks_before_def)

lemma numbered_Cons: "numbered n (fw # ws) = (Suc n, fw) # numbered (if is_tick (snd fw) then Suc n else n) ws"
  by (simp add: numbered_def upt_conv_Cons map_Suc_upt [symmetric] o_def del: upt_Suc)

lemma foldl_Panics: "foldl (\<lambda>r (i, fw). bind_outcome r (g i fw)) Panics xs = Panics"
  by (induction xs) auto

lemma ticks_served_Nil [simp]: "ticks_served work ticks n [] s = Returns s"
  by (simp add: ticks_served_def numbered_def)

lemma ticks_served_Cons [simp]:
  "ticks_served work ticks n (fw # ws) s =
     bind_outcome (serve work (ticks (Suc n)) fw s) (ticks_served work ticks (if is_tick (snd fw) then Suc n else n) ws)"
  by (cases "serve work (ticks (Suc n)) fw s") (simp_all add: ticks_served_def numbered_Cons foldl_Panics)

lemma ticks_served_append:
  "ticks_served work ticks n (ws @ vs) s =
     bind_outcome (ticks_served work ticks n ws s) (ticks_served work ticks (n + ticks_before ws (length ws)) vs)"
proof (induction ws arbitrary: n s)
  case (Cons fw ws)
  then show ?case by (cases "serve work (ticks (Suc n)) fw s") simp_all
qed simp

lemma ticks_served_returns:
  "(\<And>now e s. \<exists>s'. work now e s = Returns s') \<Longrightarrow> \<exists>s'. ticks_served work ticks n ws s = Returns s'"
proof (induction ws arbitrary: n s)
  case (Cons fw ws)
  obtain f w where fw: "fw = (f, w)" by fastforce
  obtain s' where "serve work (ticks (Suc n)) fw s = Returns s'"
    using Cons.prems [of "ticks (Suc n)" _ "f s"] by (cases w) (fastforce simp: fw)+
  then show ?case using Cons by simp
qed simp

lemma select_loop_append:
  assumes "select_loop work ticks n ws s = Returns (Running s')"
  shows "\<exists>m. select_loop work ticks n (ws @ vs) s = select_loop work ticks m vs s'"
  using assms
  by (induction work ticks n ws s rule: select_loop.induct) (auto simp: bind_outcome_def split: outcome.splits if_splits)

text \<open>
  Until the first stop the loop does what it is to do, at the first stop it returns, and nothing that
  would happen later is looked at.
\<close>

lemma select_loop_running:
  "list_all (\<lambda>(f, w). \<not> stops w) ws \<Longrightarrow>
   select_loop work ticks n (ws @ vs) s = bind_outcome (ticks_served work ticks n ws s)
     (select_loop work ticks (n + ticks_before ws (length ws)) vs)"
proof (induction ws arbitrary: n s)
  case (Cons fw ws)
  obtain f w where fw: "fw = (f, w)" by fastforce
  show ?case
  proof (cases w)
    case (Tick e)
    then show ?thesis using Cons fw by (cases "work (ticks (Suc n)) e (f s)") simp_all
  next
    case (ShutdownChanged b v)
    then show ?thesis using Cons fw by simp
  qed
qed simp

lemma select_loop_stop: "stops w \<Longrightarrow> select_loop work ticks n ((f, w) # ws) s = Returns (Stopped (f s))"
  by (cases w) auto

lemma select_loop_until:
  assumes "list_all (\<lambda>(f, w). \<not> stops w) pre"
  shows "select_loop work ticks n pre s = map_outcome Running (ticks_served work ticks n pre s)"
    and "stops w \<Longrightarrow> select_loop work ticks n (pre @ (f, w) # post) s =
      map_outcome (\<lambda>s'. Stopped (f s')) (ticks_served work ticks n pre s)"
  using select_loop_running [OF assms, of work ticks n "[]" s] select_loop_running [OF assms, of work ticks n "(f, w) # post" s]
  by (cases "ticks_served work ticks n pre s"; simp add: select_loop_stop)+

text \<open>
  The contract of a task: until a stop comes it is running, with the ticks served and no other effect;
  from the first stop on it is stopped, in the state that the others had left then, whatever would come
  later.
\<close>

definition runs_until_stopped ::
    "((('s \<Rightarrow> 's) \<times> 'e wakeup) list \<Rightarrow> 's \<Rightarrow> 's task_status outcome) \<Rightarrow> (instant \<Rightarrow> 'e \<Rightarrow> 's \<Rightarrow> 's outcome) \<Rightarrow>
     (nat \<Rightarrow> instant) \<Rightarrow> 's \<Rightarrow> bool" where
  "runs_until_stopped task work ticks s \<longleftrightarrow> (\<forall>pre. list_all (\<lambda>(f, w). \<not> stops w) pre \<longrightarrow>
     task pre s = map_outcome Running (ticks_served work ticks 0 pre s) \<and>
     (\<forall>f w post. stops w \<longrightarrow>
        task (pre @ (f, w) # post) s = map_outcome (\<lambda>s'. Stopped (f s')) (ticks_served work ticks 0 pre s)))"

lemma background_task_contract:
  assumes "iv dur = Returns ticks"
  shows "runs_until_stopped (background_task iv dur work False) work ticks s"
  unfolding runs_until_stopped_def background_task_def using assms by (simp add: select_loop_until)

text \<open>
  A wake-up is in order if the other tasks keep the invariant and the work gets an environment that
  it can cope with.
\<close>

definition wakeup_ok :: "('s \<Rightarrow> bool) \<Rightarrow> ('e \<Rightarrow> bool) \<Rightarrow> ('s \<Rightarrow> 's) \<times> 'e wakeup \<Rightarrow> bool" where
  "wakeup_ok invar good fw \<longleftrightarrow>
     (\<forall>s. invar s \<longrightarrow> invar (fst fw s)) \<and> (case snd fw of Tick e \<Rightarrow> good e | ShutdownChanged _ _ \<Rightarrow> True)"

locale periodic_task =
  fixes work :: "instant \<Rightarrow> 'e \<Rightarrow> 's \<Rightarrow> 's outcome"
    and invar :: "'s \<Rightarrow> bool"
    and good :: "'e \<Rightarrow> bool"
  assumes work_invar: "invar s \<Longrightarrow> good e \<Longrightarrow> work now e s = Returns s' \<Longrightarrow> invar s'"
begin

lemma loop_invar:
  assumes "invar s" and "list_all (wakeup_ok invar good) ws" and "select_loop work ticks n ws s = Returns st"
  shows "invar (status_state st)"
  using assms
proof (induction ws arbitrary: s n)
  case (Cons fw ws)
  obtain f w where fw: "fw = (f, w)" by fastforce
  have f: "invar (f s)" using Cons.prems(1,2) by (simp add: fw wakeup_ok_def)
  have ws: "list_all (wakeup_ok invar good) ws" using Cons.prems(2) by simp
  show ?case
  proof (cases w)
    case (Tick e)
    then obtain s' where s': "work (ticks (Suc n)) e (f s) = Returns s'" "select_loop work ticks (Suc n) ws s' = Returns st"
      using Cons.prems(3) fw by (auto simp: bind_outcome_def split: outcome.splits)
    have "good e" using Cons.prems(2) by (simp add: fw Tick wakeup_ok_def)
    then show ?thesis using Cons.IH [OF work_invar [OF f _ s'(1)] ws s'(2)] by blast
  next
    case (ShutdownChanged b v)
    then show ?thesis using Cons.IH [OF f ws] Cons.prems(3) f fw by (auto split: if_splits)
  qed
qed auto

lemma task_invar:
  assumes "invar s" and "list_all (wakeup_ok invar good) ws" and "background_task iv dur work b ws s = Returns st"
  shows "invar (status_state st)"
  using assms loop_invar [OF assms(1,2)]
  by (auto simp: background_task_def bind_outcome_def split: if_splits outcome.splits)

end

subsection \<open>The tasks keep the contexts and the store in order\<close>

text \<open>Both discovery documents name an https URL for the keys.\<close>

definition contexts_https :: "ctx_heap \<Rightarrow> bool" where
  "contexts_https h \<longleftrightarrow> (\<forall>a c. h a = Some c \<longrightarrow> url_scheme (jwks_uri (ctx_discovery c)) = ''https'')"

definition contexts_fine :: "'a crypto_ext_scheme \<Rightarrow> ctx_heap \<Rightarrow> bool" where
  "contexts_fine X h \<longleftrightarrow> contexts_ok X h \<and> contexts_https h"

definition env_fine :: "'a crypto_ext_scheme \<Rightarrow> refresh_env \<Rightarrow> bool" where
  "env_fine X E \<longleftrightarrow> env_keeps X E \<and> (\<forall>f \<in> {re_before_cas E, re_during_fetch E, re_during_wait E}. \<forall>h.
     contexts_https h \<longrightarrow> contexts_https (f h))"

lemma fetch_discovery_https: "fetch_discovery X http u = Inr d \<Longrightarrow> url_scheme (jwks_uri d) = ''https''"
  by (auto simp: fetch_discovery_def Let_def bind_result_def map_err_def split: http_reply.splits if_splits sum.splits)

lemma install_https:
  "contexts_https h \<Longrightarrow> install_refreshed_jwks h a c j = (r, h') \<Longrightarrow> contexts_https h'"
  by (auto simp: install_refreshed_jwks_def jwks_store_def contexts_https_def split: sum.splits option.splits if_splits)

lemma fetch_and_install_https:
  assumes "contexts_https h" and "env_fine X E" and "fetch_and_install X E h a = Returns (b, h')"
  shows "contexts_https h'"
proof -
  have d: "contexts_https (re_during_fetch E h)" using assms(1,2) by (simp add: env_fine_def)
  show ?thesis
    using assms(1,3) d install_https [OF d]
    by (auto simp: fetch_and_install_def bind_outcome_def Let_def split: option.splits outcome.splits sum.splits prod.splits)
qed

lemma discovery_store_fine:
  assumes "contexts_fine X h" and "url_scheme (jwks_uri d) = ''https''"
  shows "contexts_fine X (discovery_store h a d)"
  using assms
  by (auto simp: contexts_fine_def contexts_ok_def contexts_https_def discovery_store_def split: option.splits)

lemma scheduled_refresh_fine:
  assumes "contexts_fine X h" and "env_fine X E" and "a = vault_addr \<or> a = admin_addr"
    and "do_scheduled_refresh X E h a = Returns h'"
  shows "contexts_fine X h'"
proof -
  obtain b where f: "fetch_and_install X E h a = Returns (b, h')"
    using assms(4) by (auto simp: do_scheduled_refresh_def bind_outcome_def split: outcome.splits)
  have ok: "contexts_ok X h" "contexts_https h" "env_keeps X E"
    using assms(1,2) by (simp_all add: contexts_fine_def env_fine_def)
  show ?thesis
    using contexts_ok_fetch_and_install [OF ok(1,3) assms(3) f] fetch_and_install_https [OF ok(2) assms(2) f]
    by (simp add: contexts_fine_def)
qed

lemma discovery_refresh_fine:
  assumes "contexts_fine X h" and "env_fine X E" and "do_discovery_refresh X E h a = Returns h'"
  shows "contexts_fine X h'"
proof -
  have d: "contexts_fine X (re_during_fetch E h)"
    using assms(1,2) by (simp add: contexts_fine_def env_fine_def env_keeps_def)
  show ?thesis
    using assms(1,3) d discovery_store_fine [OF d fetch_discovery_https]
    by (auto simp: do_discovery_refresh_def Let_def split: option.splits sum.splits)
qed

interpretation vault_jwks: periodic_task "\<lambda>now E h. do_scheduled_refresh X (E now) h vault_addr" "contexts_fine X"
    "\<lambda>E. \<forall>now. env_fine X (E now)"
  for X :: "'dk ext"
  by unfold_locales (blast intro: scheduled_refresh_fine)

interpretation admin_jwks: periodic_task "\<lambda>now E h. do_scheduled_refresh X (E now) h admin_addr" "contexts_fine X"
    "\<lambda>E. \<forall>now. env_fine X (E now)"
  for X :: "'dk ext"
  by unfold_locales (blast intro: scheduled_refresh_fine)

interpretation disc: periodic_task "\<lambda>now E h. do_discovery_refresh X (E now) h a" "contexts_fine X"
    "\<lambda>E. \<forall>now. env_fine X (E now)"
  for X :: "'dk ext" and a :: nat
  by unfold_locales (blast intro: discovery_refresh_fine)

interpretation clean: periodic_task "\<lambda>now _ s. Returns (maintenance_tick s now)" replay_inv "\<lambda>_. True"
  by unfold_locales (auto intro: replay_inv_maintenance_tick)

subsection \<open>Properties\<close>

lemma discovery_refresh_returns: "\<exists>h'. do_discovery_refresh X E h a = Returns h'"
  by (auto simp: do_discovery_refresh_def Let_def split: option.splits sum.splits)

text \<open>
  C22. Every background task serves its ticks until the first shutdown notification and ends there. While
  no notification has been a stop (the watch turned true, or its sender is gone), the task is running and
  its effect is exactly that of its work at each tick, at the instant that an interval with the configured
  period (\<^verbatim>\<open>jwks_refresh_secs\<close>, \<^verbatim>\<open>discovery_refresh_secs\<close>, a quarter of the replay window but at least a
  second) has for that tick, and of what the others did: a notification that is not a stop neither ends
  it nor does anything. At the first stop it returns, and nothing that would come later has an effect.
  When shutdown was signalled before the task began, it returns without any effect. The discovery and the
  clean-up task never panic; the key refresh task gets as far as its ticks' work does not panic, and
  panics when one of them does.
\<close>

theorem tasks_stop_on_shutdown:
  assumes "h a = Some c"
    and "iv (unat (jwks_refresh_secs (ctx_auth_config c)) * nanos_per_sec) = Returns jwks_ticks"
    and "iv (unat (discovery_refresh_secs (ctx_auth_config c)) * nanos_per_sec) = Returns discovery_ticks"
    and "iv (max (unat (jti_replay_window_secs (rs_config s)) div 4) 1 * nanos_per_sec) = Returns cleanup_ticks"
  shows "runs_until_stopped (jwks_refresh_task X iv a False) (\<lambda>now E h. do_scheduled_refresh X (E now) h a) jwks_ticks h \<and>
    runs_until_stopped (discovery_refresh_task X iv a False) (\<lambda>now E h. do_discovery_refresh X (E now) h a) discovery_ticks h \<and>
    runs_until_stopped (cleanup_task iv False) (\<lambda>now _ s. Returns (maintenance_tick s now)) cleanup_ticks s \<and>
    ticks_served (\<lambda>now E h. do_discovery_refresh X (E now) h a) discovery_ticks 0 ws h \<noteq> Panics \<and>
    ticks_served (\<lambda>now _ s. Returns (maintenance_tick s now)) cleanup_ticks 0 vs s \<noteq> Panics \<and>
    jwks_refresh_task X iv a True ws h = Returns (Stopped h) \<and>
    discovery_refresh_task X iv a True ws h = Returns (Stopped h) \<and>
    cleanup_task iv True vs s = Returns (Stopped s)"
proof (intro conjI)
  show "runs_until_stopped (jwks_refresh_task X iv a False) (\<lambda>now E h. do_scheduled_refresh X (E now) h a) jwks_ticks h"
    using background_task_contract [where iv = iv and ticks = jwks_ticks and
        work = "\<lambda>now E h. do_scheduled_refresh X (E now) h a", OF assms(2), of h] assms(1)
    by (simp add: runs_until_stopped_def jwks_refresh_task_def)
  show "runs_until_stopped (discovery_refresh_task X iv a False) (\<lambda>now E h. do_discovery_refresh X (E now) h a) discovery_ticks h"
    using background_task_contract [where iv = iv and ticks = discovery_ticks and
        work = "\<lambda>now E h. do_discovery_refresh X (E now) h a", OF assms(3), of h] assms(1)
    by (simp add: runs_until_stopped_def discovery_refresh_task_def)
  show "runs_until_stopped (cleanup_task iv False) (\<lambda>now _ s. Returns (maintenance_tick s now)) cleanup_ticks s"
    using background_task_contract [where iv = iv and ticks = cleanup_ticks and
        work = "\<lambda>now _ s. Returns (maintenance_tick s now)", OF assms(4), of s]
    by (simp add: runs_until_stopped_def cleanup_task_def unat_cleanup_period_secs)
  show "ticks_served (\<lambda>now E h. do_discovery_refresh X (E now) h a) discovery_ticks 0 ws h \<noteq> Panics"
    using ticks_served_returns [of "\<lambda>now E h. do_discovery_refresh X (E now) h a" discovery_ticks 0 ws h]
      discovery_refresh_returns by force
  show "ticks_served (\<lambda>now _ s. Returns (maintenance_tick s now)) cleanup_ticks 0 vs s \<noteq> Panics"
    using ticks_served_returns [of "\<lambda>now _ s. Returns (maintenance_tick s now)" cleanup_ticks 0 vs s] by force
qed (use assms(1) in \<open>simp_all add: jwks_refresh_task_def discovery_refresh_task_def cleanup_task_def background_task_def\<close>)

text \<open>
  Witness: the default clean-up task is woken by its first tick, by a notification that is not a stop, by
  its second tick, before which a proof was recorded, and by the watch turning true; a third tick is not served.
\<close>

theorem tasks_stop_on_shutdown_witness:
  "cleanup_task (demo_interval 0) False [(id, Tick ()), (id, ShutdownChanged False False),
       (fold run_op [OpInsert (jti_key_new demo_crypto 1 ''j'') (23 * nanos_per_sec)], Tick ()),
       (id, ShutdownChanged False True), (id, Tick ())] (replay_store_new auth_config_default) =
   Returns (Stopped (maintenance_tick (fold run_op [OpInsert (jti_key_new demo_crypto 1 ''j'') (23 * nanos_per_sec)]
     (maintenance_tick (replay_store_new auth_config_default)
     (22 * nanos_per_sec))) (44 * nanos_per_sec)))"
proof -
  let ?h = "demo_heap (demo_jwks ''v'' [1]) (demo_jwks ''a'' [2])"
  let ?s = "replay_store_new auth_config_default"
  let ?pre = "[(id, Tick ()), (id, ShutdownChanged False False), (fold run_op [OpInsert (jti_key_new demo_crypto 1 ''j'') (23 * nanos_per_sec)], Tick ())]"
  obtain c where c: "?h vault_addr = Some c" "ctx_auth_config c = auth_config_default"
    by (simp add: demo_heap_def demo_context_def)
  note defs = c(2) demo_interval_def auth_config_default_def nanos_per_sec_def replay_store_new_def
  have j: "demo_interval 0 (unat (jwks_refresh_secs (ctx_auth_config c)) * nanos_per_sec) = Returns (\<lambda>n. 0 + n * (3600 * nanos_per_sec))"
    by (simp add: defs)
  have d: "demo_interval 0 (unat (discovery_refresh_secs (ctx_auth_config c)) * nanos_per_sec) = Returns (\<lambda>n. 0 + n * (86400 * nanos_per_sec))"
    by (simp add: defs)
  have k: "demo_interval 0 (max (unat (jti_replay_window_secs (rs_config ?s)) div 4) 1 * nanos_per_sec) =
      Returns (\<lambda>n. n * (22 * nanos_per_sec))"
    by (simp add: defs)
  have "runs_until_stopped (cleanup_task (demo_interval 0) False) (\<lambda>now _ s. Returns (maintenance_tick s now))
      (\<lambda>n. n * (22 * nanos_per_sec)) ?s"
    by (rule tasks_stop_on_shutdown [where h = ?h and iv = "demo_interval 0" and s = ?s and
        jwks_ticks = "\<lambda>n. 0 + n * (3600 * nanos_per_sec)" and discovery_ticks = "\<lambda>n. 0 + n * (86400 * nanos_per_sec)" and
        cleanup_ticks = "\<lambda>n. n * (22 * nanos_per_sec)", OF c(1) j d k,
        THEN conjunct2, THEN conjunct2, THEN conjunct1])
  then have "stops (ShutdownChanged False True :: unit wakeup) \<longrightarrow>
      cleanup_task (demo_interval 0) False (?pre @ (id, ShutdownChanged False True) # [(id, Tick ())]) ?s =
      map_outcome (\<lambda>s'. Stopped (id s'))
        (ticks_served (\<lambda>now _ s. Returns (maintenance_tick s now)) (\<lambda>n. n * (22 * nanos_per_sec)) 0 ?pre ?s)"
    unfolding runs_until_stopped_def by (elim allE [of _ ?pre]) simp
  then show ?thesis by simp
qed

lemma run_op_inv: "replay_inv s \<Longrightarrow> replay_inv (run_op x s)"
  using replay_inv_try_insert replay_inv_maintenance_tick
  by (auto simp: run_op_def split: store_op.splits) (metis prod.collapse)

lemma run_ops_deadlines:
  assumes "replay_inv s" and "\<forall>k d. map_of (rs_entries s) k = Some d \<longrightarrow> u \<le> d"
    and "\<forall>k d. OpInsert k d \<in> set ops \<longrightarrow> u \<le> d"
  shows "map_of (rs_entries (fold run_op ops s)) k = Some d \<Longrightarrow> u \<le> d"
  using assms
proof (induction ops arbitrary: s)
  case (Cons x ops)
  have "\<forall>k d. map_of (rs_entries (run_op x s)) k = Some d \<longrightarrow> u \<le> d"
  proof (cases x)
    case (OpInsert k' d')
    obtain r s' where ins: "try_insert s k' d' = (r, s')" by fastforce
    have "u \<le> d'" using Cons.prems(4) OpInsert by simp
    then show ?thesis
      using ins OpInsert Cons.prems(3) try_insert_Inl [of s k' d' _ s'] try_insert_Inr(2) [of s k' d' _ s']
      by (cases r) (auto simp: run_op_def split: if_splits)
  next
    case (OpTick now)
    then show ?thesis
      using Cons.prems(3) maintenance_tick_refines [OF Cons.prems(2), of now]
      by (auto simp: run_op_def spec_expire_def split: option.splits if_splits)
  qed
  then show ?case using Cons.IH [OF _ run_op_inv [OF Cons.prems(2)]] Cons.prems(1,4) by simp
qed simp

text \<open>
  What the rest of the server does to the store between two wake-ups of the clean-up task is a list of
  store operations. They are in time if what is recorded after a tick has a deadline that was not past at
  that tick (a deadline is one replay window after the recording).
\<close>

definition with_ops :: "(store_op list \<times> 'e wakeup) list \<Rightarrow> ((jti_replay_store \<Rightarrow> jti_replay_store) \<times> 'e wakeup) list" where
  "with_ops ws = map (\<lambda>(ops, w). (fold run_op ops, w)) ws"

definition recorded_in_time :: "(nat \<Rightarrow> instant) \<Rightarrow> nat \<Rightarrow> (store_op list \<times> 'e wakeup) list \<Rightarrow> bool" where
  "recorded_in_time ticks n ws \<longleftrightarrow> (\<forall>i < length ws. \<forall>k d. OpInsert k d \<in> set (fst (ws ! i)) \<longrightarrow>
     ticks (n + ticks_before ws i) \<le> d)"

lemma with_ops_simps [simp]:
  "with_ops [] = []"
  "with_ops ((ops, w) # ws) = (fold run_op ops, w) # with_ops ws"
  "with_ops (ws @ vs) = with_ops ws @ with_ops vs"
  by (simp_all add: with_ops_def)

lemma with_ops_stops: "list_all (\<lambda>(f, w). \<not> stops w) (with_ops ws) \<longleftrightarrow> list_all (\<lambda>(ops, w). \<not> stops w) ws"
  by (induction ws) auto

lemma recorded_in_time_Cons:
  "recorded_in_time ticks n ((ops, w) # ws) \<longleftrightarrow> (\<forall>k d. OpInsert k d \<in> set ops \<longrightarrow> ticks n \<le> d) \<and>
     recorded_in_time ticks (if is_tick w then Suc n else n) ws"
  by (simp only: recorded_in_time_def length_Cons all_less_Suc_split) (auto simp: ticks_before_def)

lemma recorded_in_time_append:
  "recorded_in_time ticks n (ws @ vs) \<longleftrightarrow>
     recorded_in_time ticks n ws \<and> recorded_in_time ticks (n + ticks_before ws (length ws)) vs"
proof (induction ws arbitrary: n)
  case Nil
  show ?case by (simp add: recorded_in_time_def)
next
  case (Cons x ws)
  then show ?case by (cases x) (simp add: recorded_in_time_Cons)
qed

lemma run_ops_inv: "replay_inv s \<Longrightarrow> replay_inv (fold run_op ops s)"
  by (induction ops arbitrary: s) (simp_all add: run_op_inv)

text \<open>Between two ticks no entry of the store is older than the last of them.\<close>

definition entries_from :: "instant \<Rightarrow> jti_replay_store \<Rightarrow> bool" where
  "entries_from u s \<longleftrightarrow> replay_inv s \<and> (\<forall>k d. map_of (rs_entries s) k = Some d \<longrightarrow> u \<le> d)"

lemma entries_from_ops:
  "entries_from u s \<Longrightarrow> \<forall>k d. OpInsert k d \<in> set ops \<longrightarrow> u \<le> d \<Longrightarrow> entries_from u (fold run_op ops s)"
  unfolding entries_from_def using run_ops_deadlines run_ops_inv by blast

lemma maintenance_tick_drops:
  assumes "replay_inv s"
  shows "map_of (rs_entries (maintenance_tick s now)) k = Some d \<longleftrightarrow> map_of (rs_entries s) k = Some d \<and> now < d"
  using maintenance_tick_refines [OF assms, of now] by (auto simp: spec_expire_def split: option.splits if_splits)

lemma entries_from_tick: "replay_inv s \<Longrightarrow> entries_from now (maintenance_tick s now)"
  by (auto simp: entries_from_def maintenance_tick_drops replay_inv_maintenance_tick)

lemma cleanup_entries_from:
  assumes "entries_from (ticks n) s" and "recorded_in_time ticks n ws"
    and "ticks_served (\<lambda>now _ s. Returns (maintenance_tick s now)) ticks n (with_ops ws) s = Returns s'"
  shows "entries_from (ticks (n + ticks_before ws (length ws))) s'"
  using assms
proof (induction ws arbitrary: n s)
  case (Cons x ws)
  obtain ops w where x: "x = (ops, w)" by fastforce
  have ops: "entries_from (ticks n) (fold run_op ops s)"
    using Cons.prems(1,2) entries_from_ops by (simp add: x recorded_in_time_Cons)
  show ?case
  proof (cases w)
    case (Tick e)
    have "entries_from (ticks (Suc n)) (maintenance_tick (fold run_op ops s) (ticks (Suc n)))"
      by (rule entries_from_tick) (use ops in \<open>simp add: entries_from_def\<close>)
    then show ?thesis using Cons.IH [of "Suc n"] Cons.prems(2,3) by (simp add: x Tick recorded_in_time_Cons)
  next
    case (ShutdownChanged b v)
    then show ?thesis using Cons.IH [OF ops] Cons.prems(2,3) by (simp add: x recorded_in_time_Cons)
  qed
qed simp

text \<open>
  C23. The clean-up keeps up. The clean-up task of a server, started at \<open>t0\<close> with the empty store, has been
  woken by any ticks and by notifications that are not stops, while the rest of the server used the store.
  When the next tick comes, at the instant that an interval of a quarter of the replay window, but at
  least a second, has for it, the task removes exactly the entries that are past their deadline, and each of them is
  overdue by at most that quarter of the window (or second) and what the scheduler was late by: after
  the tick nothing overdue is left, and before it nothing was overdue by more. It is assumed of the
  rest of the server that it records no proof with a deadline that was past at the tick before.
\<close>

theorem cleanup_lag_bounded:
  assumes "interval_law iv t0 late"
    and "iv (max (unat (jti_replay_window_secs cfg) div 4) 1 * nanos_per_sec) = Returns ticks"
    and "list_all (\<lambda>(ops, w). \<not> stops w) ws"
    and "recorded_in_time ticks 0 (ws @ [(ops, Tick ())])"
    and "now = ticks (Suc (length (filter (\<lambda>(ops, w). is_tick w) ws)))"
  shows "\<exists>s1 s2. cleanup_task iv False (with_ops ws) (replay_store_new cfg) = Returns (Running s1) \<and>
     cleanup_task iv False (with_ops (ws @ [(ops, Tick ())])) (replay_store_new cfg) = Returns (Running s2) \<and>
     (\<forall>k d. map_of (rs_entries s2) k = Some d \<longleftrightarrow> map_of (rs_entries (fold run_op ops s1)) k = Some d \<and> now < d) \<and>
     (\<forall>k d. map_of (rs_entries (fold run_op ops s1)) k = Some d \<longrightarrow>
        now \<le> d + max (unat (jti_replay_window_secs cfg) div 4) 1 * nanos_per_sec + late)"
proof -
  let ?w = "\<lambda>now _ s. Returns (maintenance_tick s now)" and ?s0 = "replay_store_new cfg"
  let ?d = "max (unat (jti_replay_window_secs cfg) div 4) 1 * nanos_per_sec"
  let ?n = "ticks_before ws (length ws)"
  have d: "0 < ?d" by (simp add: nanos_per_sec_def)
  have n: "length (filter (\<lambda>(ops, w). is_tick w) ws) = ?n" by (simp add: ticks_before_def case_prod_unfold)
  have task: "cleanup_task iv False vs ?s0 = select_loop ?w ticks 0 vs ?s0" for vs
    using assms(2) by (simp add: cleanup_task_def background_task_def unat_cleanup_period_secs replay_store_new_def)
  obtain s1 where s1: "ticks_served ?w ticks 0 (with_ops ws) ?s0 = Returns s1"
    using ticks_served_returns [of ?w] by blast
  have go: "list_all (\<lambda>(f, w). \<not> stops w) (with_ops (ws @ [(ops, Tick ())]))"
    using assms(3) by (simp add: with_ops_stops del: with_ops_simps)
  have len: "ticks_before (with_ops ws) (length (with_ops ws)) = ?n"
    by (simp add: ticks_before_def with_ops_def filter_map case_prod_unfold o_def)
  have s2: "ticks_served ?w ticks 0 (with_ops (ws @ [(ops, Tick ())])) ?s0 =
      Returns (maintenance_tick (fold run_op ops s1) now)"
    using s1 by (simp add: ticks_served_append len assms(5) n)
  have tm: "recorded_in_time ticks 0 ws" "\<forall>k d. OpInsert k d \<in> set ops \<longrightarrow> ticks ?n \<le> d"
    using assms(4) by (simp_all add: recorded_in_time_append recorded_in_time_Cons)
  have "entries_from (ticks 0) ?s0" using replay_inv_new [of cfg] by (simp add: entries_from_def replay_store_new_def)
  then have old: "entries_from (ticks ?n) (fold run_op ops s1)"
    using cleanup_entries_from [OF _ tm(1) s1] entries_from_ops [OF _ tm(2)] by simp
  have lag: "now \<le> ticks ?n + ?d + late"
    using interval_lawD(1) [OF assms(1,2) d, of ?n] interval_lawD(2) [OF assms(1,2) d, of "Suc ?n"]
    unfolding assms(5) n by simp
  have late: "now \<le> d + ?d + late" if "map_of (rs_entries (fold run_op ops s1)) k = Some d" for k d
  proof -
    have "ticks ?n \<le> d" using old that by (simp add: entries_from_def)
    then show ?thesis using lag by linarith
  qed
  have run1: "cleanup_task iv False (with_ops ws) ?s0 = Returns (Running s1)"
    using select_loop_until(1) [OF assms(3) [folded with_ops_stops], of ?w ticks 0 ?s0] s1 task by simp
  have run2: "cleanup_task iv False (with_ops (ws @ [(ops, Tick ())])) ?s0 = Returns (Running (maintenance_tick (fold run_op ops s1) now))"
    using select_loop_until(1) [OF go, of ?w ticks 0 ?s0] s2 task by simp
  show ?thesis
    using run1 run2 late maintenance_tick_drops [of "fold run_op ops s1" now] old
    by (intro exI [of _ s1] exI [of _ "maintenance_tick (fold run_op ops s1) now"]) (simp add: entries_from_def)
qed

text \<open>
  Witness: with the default window of 90 seconds the ticks are 22 seconds apart. A proof recorded between the first two
  with its deadline at 23 seconds goes at the second, 21 seconds late.
\<close>

theorem cleanup_lag_bounded_witness:
  "\<exists>s2. cleanup_task (demo_interval 0) False (with_ops [([], Tick ()),
       ([OpInsert (jti_key_new demo_crypto 1 ''j'') (23 * nanos_per_sec)], Tick ())]) (replay_store_new auth_config_default) =
     Returns (Running s2) \<and> map_of (rs_entries s2) (jti_key_new demo_crypto 1 ''j'') = None \<and>
   (44 :: nat) * nanos_per_sec \<le> 23 * nanos_per_sec + 22 * nanos_per_sec"
proof -
  let ?s = "replay_store_new auth_config_default" and ?k = "jti_key_new demo_crypto 1 ''j''"
  let ?ops = "[OpInsert ?k (23 * nanos_per_sec)]" and ?t = "\<lambda>n. n * (22 * nanos_per_sec)"
  have law: "interval_law (demo_interval 0) 0 0" by (rule demo_interval_law)
  have iv: "demo_interval 0 (max (unat (jti_replay_window_secs auth_config_default) div 4) 1 * nanos_per_sec) = Returns ?t"
    by (simp add: demo_interval_def auth_config_default_def nanos_per_sec_def)
  have tm: "recorded_in_time ?t 0 ([([], Tick ())] @ [(?ops, Tick ())])"
    by (simp add: recorded_in_time_Cons recorded_in_time_def [of _ _ "[]"] nanos_per_sec_def)
  obtain s1 s2 where run: "cleanup_task (demo_interval 0) False (with_ops [([], Tick ())]) ?s = Returns (Running s1)"
      "cleanup_task (demo_interval 0) False (with_ops ([([], Tick ())] @ [(?ops, Tick ())])) ?s = Returns (Running s2)"
    and left: "\<forall>k d. map_of (rs_entries s2) k = Some d \<longleftrightarrow>
        map_of (rs_entries (fold run_op ?ops s1)) k = Some d \<and> 44 * nanos_per_sec < d"
    and lag: "\<forall>k d. map_of (rs_entries (fold run_op ?ops s1)) k = Some d \<longrightarrow> 44 * nanos_per_sec \<le>
        d + max (unat (jti_replay_window_secs auth_config_default) div 4) 1 * nanos_per_sec + 0"
    using cleanup_lag_bounded [OF law iv _ tm, of "44 * nanos_per_sec"] by auto
  have "maintenance_tick ?s (22 * nanos_per_sec) = ?s"
    by (simp add: maintenance_tick_def tick_drain_def replay_store_new_def heap_peek_def drain_expired.simps [of "22 * nanos_per_sec"])
  then have "s1 = ?s"
    using run(1) iv by (simp add: cleanup_task_def background_task_def unat_cleanup_period_secs replay_store_new_def)
  then have e: "map_of (rs_entries (fold run_op ?ops s1)) ?k = Some (23 * nanos_per_sec)"
    by (simp add: run_op_def try_insert_def try_insert_entries_def try_insert_push_def
        replay_store_new_def auth_config_default_def Let_def)
  have "map_of (rs_entries s2) ?k \<noteq> Some d" for d
    using left e by (auto simp: nanos_per_sec_def)
  then have "map_of (rs_entries s2) ?k = None" by (cases "map_of (rs_entries s2) ?k") auto
  then show ?thesis using run(2) lag e by (fastforce simp: auth_config_default_def)
qed

text \<open>
  A key refresh task does not survive a key set on which the parser panics: from the tick at which it
  fetches one on, whatever the provider publishes later and however long the server runs, there is no
  further scheduled refresh for that context.
\<close>

theorem jwks_task_dies:
  assumes "jwks_refresh_task X iv a False ws h = Returns (Running h')" and "f h' a = Some c"
    and "\<And>now. fetch_jwks X (re_http (E now)) (jwks_uri (ctx_discovery c)) = Panics"
    and "h a \<noteq> None"
  shows "jwks_refresh_task X iv a False (ws @ (f, Tick E) # post) h = Panics"
proof -
  let ?w = "\<lambda>now E h. do_scheduled_refresh X (E now) h a"
  obtain ticks where run: "select_loop ?w ticks 0 ws h = Returns (Running h')"
    and task: "\<And>ws. jwks_refresh_task X iv a False ws h = select_loop ?w ticks 0 ws h"
    using assms(1,4) by (auto simp: jwks_refresh_task_def background_task_def bind_outcome_def split: option.splits outcome.splits)
  have "do_scheduled_refresh X (E now) (f h') a = Panics" for now
    using assms(2,3) by (simp add: do_scheduled_refresh_def fetch_and_install_def)
  then show ?thesis
    using select_loop_append [OF run, of "(f, Tick E) # post"] by (auto simp: task)
qed

definition demo_octet_ext :: "unit ext" where
  "demo_octet_ext = demo_ext\<lparr>json_jwk_set := (\<lambda>_. Inr [demo_octet_key])\<rparr>"

definition demo_octet_env :: refresh_env where
  "demo_octet_env = (demo_refresh_env 100)\<lparr>re_http := (\<lambda>_. HttpResponse 200 (Inr []))\<rparr>"

text \<open>Witness: the provider publishes an octet key with the algorithm ES256 once.\<close>

theorem jwks_task_dies_witness:
  "jwks_refresh_task demo_octet_ext (demo_interval 0) vault_addr False
     ([] @ (id, Tick (\<lambda>_. demo_octet_env)) # [(id, Tick (\<lambda>_. demo_refresh_env 200))])
     (demo_heap (demo_jwks ''v'' [1]) (demo_jwks ''a'' [2])) = Panics"
proof -
  let ?h = "demo_heap (demo_jwks ''v'' [1]) (demo_jwks ''a'' [2])"
  have start: "jwks_refresh_task demo_octet_ext (demo_interval 0) vault_addr False [] ?h = Returns (Running ?h)"
    by (simp add: jwks_refresh_task_def background_task_def demo_heap_def demo_context_def demo_interval_def
        auth_config_default_def nanos_per_sec_def)
  obtain c where c: "id ?h vault_addr = Some c" by (simp add: demo_heap_def)
  have "fetch_jwks demo_octet_ext (re_http demo_octet_env) (jwks_uri (ctx_discovery c)) = Panics"
    by (simp add: fetch_jwks_def demo_octet_env_def demo_octet_ext_def is_success_def parse_jwks_def
        demo_octet_key_def from_jwt_key_alg_def compute_thumbprint_def)
  then show ?thesis by (rule jwks_task_dies [OF start, of id, OF c]) (simp add: demo_heap_def)
qed

end
