(* ===== verification/Http.thy ===== *)
theory Http
  imports Net
begin

section \<open>Requests, responses and log events\<close>

text \<open>
  What the handlers see of a request and what they produce. A header value is given by what
  \<^verbatim>\<open>HeaderValue::to_str\<close> returns for it (\<^term>\<open>None\<close> when it is not visible ASCII), header names are
  in lower case, and \<^verbatim>\<open>headers().get\<close> returns the first value of a name. The typed request
  extensions that the server inserts are fields of the request. The body is abstract; it is only
  read through \<^verbatim>\<open>axum::body::to_bytes\<close>, a function that the handlers take as an argument.
\<close>

subsection \<open>Effective addresses (proxy_trust/resolve.rs) and subjects (auth/subject.rs)\<close>

datatype effective_scheme = SchemeHttp | SchemeHttps

record effective_address =
  ea_addr :: ip_addr
  ea_scheme :: effective_scheme

definition localhost :: ip_addr where
  "localhost = V4 [127, 0, 0, 1]"

text \<open>
  The subjects are two types over one private newtype. Only the constructor functions make them and only
  \<open>into_string\<close> opens them; there is no function from one to the other.
\<close>

datatype sub = Sub (sub_into_string: string)

datatype vault_subject = VaultSubject sub

datatype admin_subject = AdminSubject sub

definition vault_subject_new :: "string \<Rightarrow> vault_subject" where
  "vault_subject_new s = VaultSubject (Sub s)"

definition admin_subject_new :: "string \<Rightarrow> admin_subject" where
  "admin_subject_new s = AdminSubject (Sub s)"

primrec vault_subject_into_string :: "vault_subject \<Rightarrow> string" where
  "vault_subject_into_string (VaultSubject w) = sub_into_string w"

primrec admin_subject_into_string :: "admin_subject \<Rightarrow> string" where
  "admin_subject_into_string (AdminSubject w) = sub_into_string w"

lemma subject_round_trip [simp]:
  "vault_subject_into_string (vault_subject_new s) = s" "admin_subject_into_string (admin_subject_new s) = s"
  by (simp_all add: vault_subject_new_def admin_subject_new_def)

subsection \<open>Messages\<close>

record 'body request =
  req_method :: string
  req_headers :: "(string \<times> string option) list"
  req_authority :: "string option"
  req_path :: string
  req_path_and_query :: "string option"
  ext_connect_info :: "socket_addr option"
  ext_effective_address :: "effective_address option"
  ext_vault_subject :: "vault_subject option"
  ext_admin_subject :: "admin_subject option"
  req_body :: 'body

text \<open>\<^verbatim>\<open>headers().get(name)\<close> followed by \<^verbatim>\<open>to_str().ok()\<close>.\<close>

definition header_str :: "'body request \<Rightarrow> string \<Rightarrow> string option" where
  "header_str r name = Option.bind (map_of (req_headers r) name) id"

record response =
  resp_status :: u16
  resp_headers :: "(string \<times> string) list"
  resp_body :: bytes

definition effective_addr :: "'body request \<Rightarrow> ip_addr" where
  "effective_addr r = (case ext_effective_address r of Some e \<Rightarrow> ea_addr e | None \<Rightarrow> localhost)"

subsection \<open>Log events (logging/events.rs, auth/failure.rs)\<close>

text \<open>
  The redaction wrapper (logging/sensitive.rs): both ways of printing it write the marker, and only
  \<open>expose_secret\<close> gives the value back. That it has no other trait implementations is a matter of types.
\<close>

datatype 'a sensitive = Sensitive (expose_secret: 'a)

definition redacted_marker :: string where
  "redacted_marker = ''<redacted>''"

definition sensitive_debug :: "'a sensitive \<Rightarrow> string" where
  "sensitive_debug w = redacted_marker"

definition sensitive_display :: "'a sensitive \<Rightarrow> string" where
  "sensitive_display w = redacted_marker"

text \<open>
  One constructor per emitter, with its fields in order. A constructor has no other data, so what
  an event can reveal is visible in its type.
\<close>

datatype log_event =
    ServerStarted socket_addr
  | ServerShutdownInitiated string u64
  | ServerShutdownCompleted bool
  | RequestRejected string string ip_addr
  | StorageStartupReady string
  | StorageStartupFailed string string string
  | BlockPutOk string string ip_addr u64
  | BlockPutBackendFailed string string ip_addr string
  | BlockGetHit string string ip_addr
  | BlockGetMiss string string ip_addr
  | BlockGetBackendFailed string string ip_addr string
  | BlockDeleteOk string string ip_addr
  | BlockDeleteBackendFailed string string ip_addr string
  | AuthFailureEvent string string ip_addr

definition block_id_malformed :: string where
  "block_id_malformed = ''<malformed>''"

end
