(* ===== verification/Token.thy ===== *)
theory Token
  imports Refresh Failure
begin

section \<open>Access-token validation (auth/token.rs)\<close>

text \<open>
  \<open>validate_token\<close> with its two decoding attempts around an on-demand refresh of the key set. The
  JWT library's decoder is a field of the record of third-party functions; the claim struct it
  fills is \<^typ>\<open>token_claims\<close>.
\<close>

record access_token =
  at_sub :: string
  at_aud :: string
  at_iss :: string
  at_exp :: u64
  at_iat :: u64
  at_nbf :: "u64 option"
  cnf_jkt :: bytes

definition map_jwt_error :: "jwt_error_kind option \<Rightarrow> auth_failure" where
  "map_jwt_error err = (case err of
      None \<Rightarrow> TokenSignatureInvalid
    | Some e \<Rightarrow> (case e of
        ExpiredSignature \<Rightarrow> TokenExpired
      | ImmatureSignature \<Rightarrow> TokenNotYetValid
      | InvalidIssuer \<Rightarrow> TokenIssuerMismatch
      | InvalidAudience \<Rightarrow> TokenAudienceMismatch
      | InvalidAlgorithm \<Rightarrow> InvalidAlg
      | InvalidAlgorithmName \<Rightarrow> InvalidAlg
      | InvalidKeyFormat \<Rightarrow> InvalidAlg
      | _ \<Rightarrow> TokenSignatureInvalid))"

text \<open>The loop over the candidate keys.\<close>

fun try_candidates ::
    "'dk ext \<Rightarrow> string \<Rightarrow> validation \<Rightarrow> jwk list \<Rightarrow> jwt_error_kind option \<Rightarrow> auth_failure + token_claims" where
  "try_candidates X raw_jws v [] last_err = Inl (map_jwt_error last_err)"
| "try_candidates X raw_jws v (candidate # rest) last_err =
     (case decoding_key_from_jwk X (jwk_raw candidate) of
        Inl _ \<Rightarrow> try_candidates X raw_jws v rest last_err
      | Inr dk \<Rightarrow>
          (case jwt_decode_token X raw_jws dk v of
             Inr td \<Rightarrow> Inr td
           | Inl e \<Rightarrow> try_candidates X raw_jws v rest (Some e)))"

definition try_decode_with_current_jwks ::
    "'dk ext \<Rightarrow> string \<Rightarrow> jose_header \<Rightarrow> validation \<Rightarrow> jwks \<Rightarrow> auth_failure + token_claims" where
  "try_decode_with_current_jwks X raw_jws header v current_jwks =
     (let candidates = lookup_candidates current_jwks (hdr_kid header) in
      if candidates = [] then Inl TokenSignatureInvalid
      else try_candidates X raw_jws v candidates None)"

text \<open>The algorithm gate that token and proof validation share.\<close>

definition allowlist_alg :: "jwt_algorithm \<Rightarrow> auth_failure + jws_alg" where
  "allowlist_alg a = (case a of ALG_PS256 \<Rightarrow> Inr Ps256 | ALG_ES256 \<Rightarrow> Inr Es256 | _ \<Rightarrow> Inl InvalidAlg)"

definition token_validation :: "'dk ext \<Rightarrow> jws_alg \<Rightarrow> u64 \<Rightarrow> validation" where
  "token_validation X alg skew = (validation_new X (to_jwt_algorithm alg))
     \<lparr>v_validate_aud := False, v_validate_exp := False, v_validate_nbf := False,
      v_leeway := skew, v_required_spec_claims := [], v_aud := Some []\<rparr>"

text \<open>Steps 3 to 5a and the parsing of \<^verbatim>\<open>cnf.jkt\<close>, on the claims of a verified token.\<close>

definition check_token_claims ::
    "'dk ext \<Rightarrow> u64 option \<Rightarrow> oidc_context \<Rightarrow> token_claims \<Rightarrow> auth_failure + access_token" where
  "check_token_claims X clock ctx claims =
     bind_result (ok_or (tc_sub claims) (TokenMissingClaim ''sub'')) (\<lambda>sub.
     bind_result (ok_or (tc_iss claims) (TokenMissingClaim ''iss'')) (\<lambda>iss.
     bind_result (ok_or (tc_iat claims) (TokenMissingClaim ''iat'')) (\<lambda>iat.
     bind_result (ok_or (tc_exp claims) (TokenMissingClaim ''exp'')) (\<lambda>exp.
     bind_result (ok_or (tc_aud claims) (TokenMissingClaim ''aud'')) (\<lambda>aud_field.
     bind_result (case aud_field of Single s \<Rightarrow> Inr s | Multiple _ \<Rightarrow> Inl TokenAudienceMismatch) (\<lambda>aud.
     bind_result (ok_or (tc_cnf claims) (TokenMissingClaim ''cnf'')) (\<lambda>cnf.
     bind_result (ok_or (cnf_jkt_claim cnf) (TokenMissingClaim ''cnf.jkt'')) (\<lambda>cnf_jkt_b64.
     if \<not> ct_eq_str X iss (trim_end_matches CHR ''/'' (url_as_str (issuer_url ctx)))
     then Inl TokenIssuerMismatch
     else if \<not> ct_eq_str X aud (audience ctx) then Inl TokenAudienceMismatch
     else (let now_secs = unwrap_or clock 0; skew = clock_skew_secs (ctx_auth_config ctx) in
       if saturating_add exp skew \<le> now_secs then Inl TokenExpired
       else if (case tc_nbf claims of None \<Rightarrow> False | Some nbf \<Rightarrow> saturating_add now_secs skew < nbf)
       then Inl TokenNotYetValid
       else bind_result (map_err (\<lambda>_. TokenMissingClaim ''cnf.jkt'') (b64_decode X cnf_jkt_b64)) (\<lambda>jkt_bytes.
            if length jkt_bytes \<noteq> 32 then Inl (TokenMissingClaim ''cnf.jkt'')
            else Inr \<lparr>at_sub = sub, at_aud = aud, at_iss = iss, at_exp = exp, at_iat = iat,
                      at_nbf = tc_nbf claims, cnf_jkt = jkt_bytes\<rparr>))))))))))"

text \<open>
  The environment of one validation: that of a possible refresh, and the wall clock as the expiry
  check reads it. The context is the one at address \<open>a\<close>; the key set is read again after the
  refresh.
\<close>

definition validate_token ::
    "'dk ext \<Rightarrow> refresh_env \<Rightarrow> u64 option \<Rightarrow> ctx_heap \<Rightarrow> nat \<Rightarrow> oidc_context \<Rightarrow> string \<Rightarrow>
     ((auth_failure + access_token) \<times> ctx_heap) outcome" where
  "validate_token X E clock h a ctx raw_jws =
     (case jwt_decode_header X raw_jws of
        Inl _ \<Rightarrow> Returns (Inl InvalidAlg, h)
      | Inr header \<Rightarrow>
     (case allowlist_alg (hdr_alg header) of
        Inl e \<Rightarrow> Returns (Inl e, h)
      | Inr alg \<Rightarrow>
     (let v = token_validation X alg (clock_skew_secs (ctx_auth_config ctx));
          attempt = (\<lambda>g. try_decode_with_current_jwks X raw_jws header v
             (case g a of None \<Rightarrow> ctx_jwks ctx | Some c \<Rightarrow> ctx_jwks c)) in
      case attempt h of
        Inr claims \<Rightarrow> Returns (check_token_claims X clock ctx claims, h)
      | Inl first_err \<Rightarrow>
          bind_outcome (on_demand_refresh X E h a) (\<lambda>(may_retry, h').
          Returns (if \<not> may_retry then (Inl first_err, h')
                   else (case attempt h' of
                           Inr claims \<Rightarrow> (check_token_claims X clock ctx claims, h')
                         | Inl _ \<Rightarrow> (Inl first_err, h')))))))"

subsection \<open>What a validated token satisfies\<close>

lemma try_candidates_Inr:
  "try_candidates X raw v cands le = Inr td \<Longrightarrow>
     \<exists>c \<in> set cands. \<exists>dk. decoding_key_from_jwk X (jwk_raw c) = Inr dk \<and> jwt_decode_token X raw dk v = Inr td"
  by (induction X raw v cands le rule: try_candidates.induct) (auto split: sum.splits)

lemma try_candidates_complete:
  "c \<in> set cands \<Longrightarrow> decoding_key_from_jwk X (jwk_raw c) = Inr dk \<Longrightarrow>
   jwt_decode_token X raw dk v = Inr td \<Longrightarrow> \<exists>td'. try_candidates X raw v cands le = Inr td'"
  by (induction X raw v cands le rule: try_candidates.induct) (auto split: sum.splits)

lemma try_decode_Inr:
  assumes "try_decode_with_current_jwks X raw header v j = Inr td"
  obtains c dk where "c \<in> set (lookup_candidates j (hdr_kid header))"
    "decoding_key_from_jwk X (jwk_raw c) = Inr dk" "jwt_decode_token X raw dk v = Inr td"
  using assms try_candidates_Inr
  by (fastforce simp: try_decode_with_current_jwks_def Let_def split: if_splits)

text \<open>The claims that make a verified token acceptable to a context at a time.\<close>

definition token_fits :: "'dk ext \<Rightarrow> u64 option \<Rightarrow> oidc_context \<Rightarrow> token_claims \<Rightarrow> access_token \<Rightarrow> bool" where
  "token_fits X clock ctx claims t \<longleftrightarrow>
     (let now = unat (unwrap_or clock 0); skew = unat (clock_skew_secs (ctx_auth_config ctx)) in
      tc_sub claims = Some (at_sub t) \<and> tc_iat claims = Some (at_iat t) \<and>
      tc_iss claims = Some (at_iss t) \<and>
      at_iss t = trim_end_matches CHR ''/'' (url_as_str (issuer_url ctx)) \<and>
      tc_aud claims = Some (Single (at_aud t)) \<and> at_aud t = audience ctx \<and>
      tc_exp claims = Some (at_exp t) \<and> now < min (unat (at_exp t) + skew) (2 ^ 64 - 1) \<and>
      at_nbf t = tc_nbf claims \<and>
      (\<forall>nbf. tc_nbf claims = Some nbf \<longrightarrow> unat nbf \<le> min (now + skew) (2 ^ 64 - 1)) \<and>
      (\<exists>cnf b64. tc_cnf claims = Some cnf \<and> cnf_jkt_claim cnf = Some b64 \<and>
         b64_decode X b64 = Inr (cnf_jkt t)) \<and>
      length (cnf_jkt t) = 32)"

lemma check_token_claims_iff:
  assumes "subtle_decides_eq X"
  shows "check_token_claims X clock ctx claims = Inr t \<longleftrightarrow> token_fits X clock ctx claims t"
proof -
  note [simp] = ct_eq_str_iff [OF assms]
  have le: "a \<le> b \<longleftrightarrow> unat a \<le> unat b" "a < b \<longleftrightarrow> unat a < unat b" for a b :: u64
    by (simp_all add: word_le_nat_alt word_less_nat_alt)
  show ?thesis
  proof
    assume "check_token_claims X clock ctx claims = Inr t"
    then show "token_fits X clock ctx claims t"
      by (auto simp: check_token_claims_def token_fits_def bind_result_def ok_or_def map_err_def
          Let_def le unat_saturating_add
          split: audience_field.splits option.splits sum.splits if_splits)
  next
    assume "token_fits X clock ctx claims t"
    then show "check_token_claims X clock ctx claims = Inr t"
      by (cases t) (auto simp: check_token_claims_def token_fits_def Let_def le unat_saturating_add
          split: option.splits)
  qed
qed

lemma validate_token_cases:
  assumes "validate_token X E clock h a ctx raw = Returns (r, h')"
  obtains (early) e where "r = Inl e" "h' = h"
    | (decoded) header alg claims where "jwt_decode_header X raw = Inr header"
        "allowlist_alg (hdr_alg header) = Inr alg"
        "h' = h \<or> (\<exists>b. on_demand_refresh X E h a = Returns (b, h'))"
        "try_decode_with_current_jwks X raw header
           (token_validation X alg (clock_skew_secs (ctx_auth_config ctx)))
           (case h' a of None \<Rightarrow> ctx_jwks ctx | Some c \<Rightarrow> ctx_jwks c) = Inr claims"
        "check_token_claims X clock ctx claims = r"
    | (refused) e b where "r = Inl e" "on_demand_refresh X E h a = Returns (b, h')"
proof (cases "jwt_decode_header X raw")
  case (Inl e)
  with assms early show thesis by (auto simp: validate_token_def)
next
  case (Inr header)
  note hd = this
  show thesis
  proof (cases "allowlist_alg (hdr_alg header)")
    case (Inl e)
    with assms hd early show thesis by (auto simp: validate_token_def)
  next
    case (Inr alg)
    let ?decode = "\<lambda>g. try_decode_with_current_jwks X raw header
      (token_validation X alg (clock_skew_secs (ctx_auth_config ctx)))
      (case g a of None \<Rightarrow> ctx_jwks ctx | Some c \<Rightarrow> ctx_jwks c)"
    show thesis
    proof (cases "?decode h")
      case (Inr claims)
      with assms hd \<open>allowlist_alg (hdr_alg header) = Inr alg\<close> show thesis
        by (intro decoded [of header alg claims]) (auto simp: validate_token_def Let_def)
    next
      case (Inl e)
      have full: "validate_token X E clock h a ctx raw =
          bind_outcome (on_demand_refresh X E h a) (\<lambda>(b, g). Returns (if \<not> b then (Inl e, g)
            else (case ?decode g of Inr claims \<Rightarrow> (check_token_claims X clock ctx claims, g)
                  | Inl _ \<Rightarrow> (Inl e, g))))"
        using Inl hd \<open>allowlist_alg (hdr_alg header) = Inr alg\<close> by (simp add: validate_token_def)
      then obtain b g where o: "on_demand_refresh X E h a = Returns (b, g)"
        using assms by (cases "on_demand_refresh X E h a") auto
      then have "(r, h') = (if \<not> b then (Inl e, g)
            else (case ?decode g of Inr claims \<Rightarrow> (check_token_claims X clock ctx claims, g)
                  | Inl _ \<Rightarrow> (Inl e, g)))"
        using assms full by simp
      then have r: "r = (if \<not> b then Inl e else (case ?decode h' of
          Inr claims \<Rightarrow> check_token_claims X clock ctx claims | Inl _ \<Rightarrow> Inl e))" and "h' = g"
        by (auto split: if_splits sum.splits)
      with o have o: "on_demand_refresh X E h a = Returns (b, h')" by simp
      show thesis
      proof (cases "?decode h'")
        case (Inl e')
        with r have "r = Inl e" by simp
        then show thesis using o by (rule refused)
      next
        case (Inr claims)
        with r o hd \<open>allowlist_alg (hdr_alg header) = Inr alg\<close> show thesis
          using decoded [of header alg claims] refused by (cases b) auto
      qed
    qed
  qed
qed

lemma validate_token_Inr:
  assumes "subtle_decides_eq X" and "validate_token X E clock h a ctx raw = Returns (Inr t, h')"
  obtains header alg claims c dk where "jwt_decode_header X raw = Inr header"
    "hdr_alg header = to_jwt_algorithm alg"
    "c \<in> set (lookup_candidates (case h' a of None \<Rightarrow> ctx_jwks ctx | Some c \<Rightarrow> ctx_jwks c) (hdr_kid header))"
    "decoding_key_from_jwk X (jwk_raw c) = Inr dk"
    "jwt_decode_token X raw dk (token_validation X alg (clock_skew_secs (ctx_auth_config ctx))) = Inr claims"
    "token_fits X clock ctx claims t"
  using assms(2)
proof (cases rule: validate_token_cases)
  case (decoded header alg claims)
  have "hdr_alg header = to_jwt_algorithm alg"
    using decoded(2) by (auto simp: allowlist_alg_def to_jwt_algorithm_def split: jwt_algorithm.splits)
  moreover have "token_fits X clock ctx claims t"
    using decoded(5) check_token_claims_iff [OF assms(1)] by simp
  ultimately show thesis
    using decoded(1,4) that by (auto elim!: try_decode_Inr)
qed auto

subsection \<open>An example\<close>

definition demo_claims :: "bytes \<Rightarrow> token_claims" where
  "demo_claims jkt = \<lparr>tc_sub = Some ''u'', tc_aud = Some (Single ''vault''), tc_iss = Some ''i'',
     tc_exp = Some 1000, tc_iat = Some 5, tc_nbf = Some 10,
     tc_cnf = Some \<lparr>cnf_jkt_claim = Some (hex_encode jkt)\<rparr>\<rparr>"

definition demo_token :: "bytes \<Rightarrow> access_token" where
  "demo_token jkt = \<lparr>at_sub = ''u'', at_aud = ''vault'', at_iss = ''i'', at_exp = 1000, at_iat = 5,
     at_nbf = Some 10, cnf_jkt = jkt\<rparr>"

definition demo_token_ext :: "bytes \<Rightarrow> unit ext" where
  "demo_token_ext jkt = demo_ext
     \<lparr>jwt_decode_header := (\<lambda>_. Inr \<lparr>hdr_typ = None, hdr_alg = ALG_PS256, hdr_kid = Some ''k'', hdr_jwk = None\<rparr>),
      jwt_decode_token := (\<lambda>_ _ _. Inr (demo_claims jkt))\<rparr>"

abbreviation demo_vault_context :: oidc_context where
  "demo_vault_context \<equiv> demo_context Vault admin_addr (demo_jwks ''k'' [1])"

abbreviation demo_admin_context :: oidc_context where
  "demo_admin_context \<equiv> demo_context Admin vault_addr (demo_jwks ''k'' [2])"

abbreviation demo_ctx_heap :: ctx_heap where
  "demo_ctx_heap \<equiv> demo_heap (demo_jwks ''k'' [1]) (demo_jwks ''k'' [2])"

lemma demo_token_ext_laws:
  "subtle_decides_eq (demo_token_ext jkt)"
  by (simp add: subtle_decides_eq_def demo_token_ext_def)

lemma demo_candidates: "lookup_candidates (demo_jwks k e) (Some k) =
    [\<lparr>jwk_kid = Some k, jwk_alg = Ps256, jwk_thumbprint_field = jwk_thumbprint demo_crypto (Rsa [18] e),
      jwk_raw = demo_rsa_key k e\<rparr>]"
  by (simp add: lookup_candidates_def demo_jwks_def add_key_def Let_def jwks_empty_def demo_rsa_key_def)

lemma demo_token_fits:
  "length jkt = 32 \<Longrightarrow> token_fits (demo_token_ext jkt) (Some 100) demo_vault_context (demo_claims jkt) (demo_token jkt)"
  by (simp add: token_fits_def Let_def demo_token_ext_def demo_claims_def demo_token_def
      demo_context_def auth_config_default_def demo_url_def trim_end_matches_def audience_name_def
      hex_decode_encode)

lemma demo_validate_token:
  assumes "length jkt = 32"
  shows "validate_token (demo_token_ext jkt) E (Some 100) demo_ctx_heap vault_addr demo_vault_context ''tok'' =
    Returns (Inr (demo_token jkt), demo_ctx_heap)"
proof -
  have "check_token_claims (demo_token_ext jkt) (Some 100) demo_vault_context (demo_claims jkt) = Inr (demo_token jkt)"
    using demo_token_fits [OF assms] check_token_claims_iff [OF demo_token_ext_laws] by blast
  then show ?thesis
    by (simp add: validate_token_def Let_def demo_token_ext_def allowlist_alg_def demo_heap_def
        try_decode_with_current_jwks_def demo_context_def demo_candidates)
qed

subsection \<open>Properties\<close>

text \<open>
  C12. A token is accepted only if its header names PS256 or ES256, its signature verifies with a
  key of the context's key set (the one current at the time, possibly after a refresh), and its
  claims fit the context: issuer, single audience, expiry and not-before within the clock skew,
  and a key confirmation of 32 bytes; the token that handlers see carries exactly these claims.
\<close>

theorem validate_token_sound:
  assumes "subtle_decides_eq X" and "validate_token X E clock h a ctx raw = Returns (Inr t, h')"
  shows "\<exists>header alg claims c dk.
    jwt_decode_header X raw = Inr header \<and> hdr_alg header \<in> {ALG_PS256, ALG_ES256} \<and>
    hdr_alg header = to_jwt_algorithm alg \<and>
    c \<in> set (lookup_candidates (case h' a of None \<Rightarrow> ctx_jwks ctx | Some c \<Rightarrow> ctx_jwks c) (hdr_kid header)) \<and>
    decoding_key_from_jwk X (jwk_raw c) = Inr dk \<and>
    jwt_decode_token X raw dk (token_validation X alg (clock_skew_secs (ctx_auth_config ctx))) = Inr claims \<and>
    token_fits X clock ctx claims t"
proof -
  have alg: "to_jwt_algorithm x \<in> {ALG_PS256, ALG_ES256}" for x
    by (cases x) (simp_all add: to_jwt_algorithm_def)
  show ?thesis by (rule validate_token_Inr [OF assms]) (use alg in metis)
qed

theorem validate_token_sound_witness:
  "\<exists>claims. token_fits (demo_token_ext (replicate 32 7)) (Some 100) demo_vault_context claims
     (demo_token (replicate 32 7))"
  using validate_token_sound [OF demo_token_ext_laws demo_validate_token [of "replicate 32 7"]]
  by auto

text \<open>
  \<^verbatim>\<open>jsonwebtoken\<close>: the claims that decoding returns are the payload of the token, whatever the key
  and the validation options.
\<close>

definition decode_returns_payload :: "'dk ext \<Rightarrow> bool" where
  "decode_returns_payload X \<longleftrightarrow> (\<forall>raw dk v c dk' v' c'.
     jwt_decode_token X raw dk v = Inr c \<longrightarrow> jwt_decode_token X raw dk' v' = Inr c' \<longrightarrow> c = c')"

text \<open>
  C25. A token is good for one audience only: if the contexts are configured with different
  audiences, no token that one context accepts is accepted by the other, at any time and with any
  key sets, refreshed or not.
\<close>

theorem no_token_for_two_audiences:
  assumes "subtle_decides_eq X" and "decode_returns_payload X"
    and "audience ctx \<noteq> audience ctx'"
    and "validate_token X E clock h a ctx raw = Returns (Inr t, h1)"
    and "validate_token X E' clock' h' a' ctx' raw = Returns (r, h2)"
  shows "\<exists>e. r = Inl e"
proof (rule ccontr)
  assume "\<nexists>e. r = Inl e"
  then obtain t' where r: "r = Inr t'" by (cases r) auto
  obtain dk v claims where
    c: "jwt_decode_token X raw dk v = Inr claims" and f: "token_fits X clock ctx claims t"
    by (rule validate_token_Inr [OF assms(1,4)])
  obtain dk' v' claims' where
    c': "jwt_decode_token X raw dk' v' = Inr claims'" and f': "token_fits X clock' ctx' claims' t'"
    by (rule validate_token_Inr [OF assms(1) assms(5) [unfolded r]])
  have "claims = claims'" using assms(2) c c' by (auto simp: decode_returns_payload_def)
  with f f' assms(3) show False by (auto simp: token_fits_def Let_def)
qed

lemma demo_token_payload: "decode_returns_payload (demo_token_ext jkt)"
  by (simp add: decode_returns_payload_def demo_token_ext_def)

theorem no_token_for_two_audiences_witness:
  "\<exists>e h. validate_token (demo_token_ext (replicate 32 7)) (demo_refresh_env 100) (Some 100)
     demo_ctx_heap admin_addr demo_admin_context ''tok'' = Returns (Inl e, h)"
proof -
  let ?X = "demo_token_ext (replicate 32 7)"
  obtain r h where r: "validate_token ?X (demo_refresh_env 100) (Some 100)
      demo_ctx_heap admin_addr demo_admin_context ''tok'' = Returns (r, h)"
    by (simp add: validate_token_def Let_def demo_token_ext_def allowlist_alg_def demo_heap_def
        try_decode_with_current_jwks_def demo_context_def demo_candidates)
  have "audience demo_vault_context \<noteq> audience demo_admin_context"
    by (simp add: demo_context_def audience_name_def)
  from no_token_for_two_audiences [OF demo_token_ext_laws demo_token_payload this
      demo_validate_token [of "replicate 32 7" "demo_refresh_env 100"] r] r
  show ?thesis by auto
qed

lemma validate_token_good:
  assumes "subtle_decides_eq X" and "decode_returns_payload X"
    and "h a = Some c" and "jwt_decode_header X raw = Inr header"
    and "hdr_alg header = to_jwt_algorithm alg"
    and "k \<in> set (lookup_candidates (ctx_jwks c) (hdr_kid header))"
    and "decoding_key_from_jwk X (jwk_raw k) = Inr dk"
    and "jwt_decode_token X raw dk (token_validation X alg (clock_skew_secs (ctx_auth_config ctx))) = Inr claims"
    and "token_fits X clock ctx claims t"
  shows "validate_token X E clock h a ctx raw = Returns (Inr t, h)"
proof -
  let ?v = "token_validation X alg (clock_skew_secs (ctx_auth_config ctx))"
  let ?cs = "lookup_candidates (ctx_jwks c) (hdr_kid header)"
  obtain td where td: "try_candidates X raw ?v ?cs None = Inr td"
    using try_candidates_complete [OF assms(6,7,8)] by blast
  then have "td = claims"
    using try_candidates_Inr [OF td] assms(2,8) by (auto simp: decode_returns_payload_def)
  then have "try_decode_with_current_jwks X raw header ?v (ctx_jwks c) = Inr claims"
    using td assms(6) by (auto simp: try_decode_with_current_jwks_def Let_def)
  moreover have "allowlist_alg (hdr_alg header) = Inr alg"
    using assms(5) by (cases alg) (simp_all add: allowlist_alg_def to_jwt_algorithm_def)
  ultimately show ?thesis
    using assms(3,4,9) check_token_claims_iff [OF assms(1)] by (simp add: validate_token_def)
qed

text \<open>
  C35. A good token is accepted without a refresh: with an allowlisted algorithm, a candidate key of
  the current key set that decodes it, and claims that fit, validation returns the token and
  changes nothing.
\<close>

theorem validate_token_complete:
  assumes "subtle_decides_eq X" and "decode_returns_payload X"
    and "h a = Some c" and "jwt_decode_header X raw = Inr header"
    and "hdr_alg header = to_jwt_algorithm alg"
    and "k \<in> set (lookup_candidates (ctx_jwks c) (hdr_kid header))"
    and "decoding_key_from_jwk X (jwk_raw k) = Inr dk"
    and "jwt_decode_token X raw dk (token_validation X alg (clock_skew_secs (ctx_auth_config ctx))) = Inr claims"
    and "token_fits X clock ctx claims t"
  shows "validate_token X E clock h a ctx raw = Returns (Inr t, h)"
  using assms by (rule validate_token_good)

theorem validate_token_complete_witness:
  "validate_token (demo_token_ext (replicate 32 7)) (demo_refresh_env 100) (Some 100)
     demo_ctx_heap vault_addr demo_vault_context ''tok'' =
   Returns (Inr (demo_token (replicate 32 7)), demo_ctx_heap)"
proof -
  let ?X = "demo_token_ext (replicate 32 7)"
  let ?hd = "\<lparr>hdr_typ = None, hdr_alg = ALG_PS256, hdr_kid = Some ''k'', hdr_jwk = None\<rparr>"
  have "demo_ctx_heap vault_addr = Some demo_vault_context" by (simp add: demo_heap_def)
  moreover have "jwt_decode_header ?X ''tok'' = Inr ?hd" by (simp add: demo_token_ext_def)
  moreover have "hdr_alg ?hd = to_jwt_algorithm Ps256" by (simp add: to_jwt_algorithm_def)
  moreover have "hd (lookup_candidates (ctx_jwks demo_vault_context) (hdr_kid ?hd)) \<in>
      set (lookup_candidates (ctx_jwks demo_vault_context) (hdr_kid ?hd))"
    by (simp add: demo_context_def demo_candidates)
  moreover have "decoding_key_from_jwk ?X k = Inr ()" for k by (simp add: demo_token_ext_def)
  moreover have "jwt_decode_token ?X ''tok'' () v = Inr (demo_claims (replicate 32 7))" for v
    by (simp add: demo_token_ext_def)
  ultimately show ?thesis
    using demo_token_fits [of "replicate 32 7"]
    by (intro validate_token_complete [OF demo_token_ext_laws demo_token_payload]) auto
qed

text \<open>
  The issuer comparison strips trailing slashes from the configured URL only: with an issuer
  URL that is written with a trailing slash, as every URL without a path is, a token whose issuer
  claim is exactly that URL is refused, also when everything else about it is right.
\<close>

theorem exact_issuer_with_slash_refused:
  assumes "subtle_decides_eq X" and "url_as_str (issuer_url ctx) = u @ ''/''"
    and "tc_iss claims = Some (url_as_str (issuer_url ctx))"
  shows "\<exists>e. check_token_claims X clock ctx claims = Inl e"
proof (cases "check_token_claims X clock ctx claims")
  case (Inr t)
  then have "token_fits X clock ctx claims t" using check_token_claims_iff [OF assms(1)] by blast
  then have "tc_iss claims = Some (at_iss t)"
      "at_iss t = trim_end_matches CHR ''/'' (url_as_str (issuer_url ctx))"
    unfolding token_fits_def Let_def by blast+
  then have "trim_end_matches CHR ''/'' (url_as_str (issuer_url ctx)) = url_as_str (issuer_url ctx)"
    unfolding assms(3) by (metis option.inject)
  then have "trim_end_matches CHR ''/'' (u @ ''/'') = u @ ''/''" by (simp only: assms(2))
  moreover have "length (trim_end_matches CHR ''/'' (u @ ''/'')) \<le> length u"
    using length_dropWhile_le [of "\<lambda>c. c = CHR ''/''" "rev u"] by (simp add: trim_end_matches_def)
  ultimately have "length (u @ ''/'') \<le> length u" by metis
  then have False by simp
  then show ?thesis ..
qed simp

theorem exact_issuer_with_slash_refused_witness:
  "\<exists>e. check_token_claims (demo_token_ext (replicate 32 7)) (Some 100)
     (demo_vault_context\<lparr>issuer_url := demo_url ''https://i/''\<rparr>)
     ((demo_claims (replicate 32 7))\<lparr>tc_iss := Some ''https://i/''\<rparr>) = Inl e"
  by (rule exact_issuer_with_slash_refused [where u = "''https://i''"])
    (simp_all add: demo_token_ext_laws demo_url_def)

end
