(* ===== verification/Dpop.thy ===== *)
theory Dpop
  imports Token Replay
begin

section \<open>DPoP proof validation (auth/dpop.rs)\<close>

text \<open>
  \<open>validate_proof\<close> checks the proof against the request, the token and the clock and, last,
  inserts its identifier into the replay store. It reads two clocks: the wall clock for the age of
  the proof and the monotonic clock for the deadline of the entry. The sum of freshness and skew
  is a plain 64-bit addition.
\<close>

record dpop_proof =
  dp_alg :: jws_alg
  dp_htm :: string
  dp_htu :: string
  dp_iat :: u64
  dp_jti :: string
  dp_thumbprint :: bytes
  dp_ath :: string

definition compute_ath :: "'a crypto_ext_scheme \<Rightarrow> string \<Rightarrow> string" where
  "compute_ath X raw_token = b64_encode X (sha256 X (as_bytes raw_token))"

definition opt_ct_eq :: "'a crypto_ext_scheme \<Rightarrow> string option \<Rightarrow> string option \<Rightarrow> bool" where
  "opt_ct_eq X a b = (case (a, b) of
      (Some s, Some t) \<Rightarrow> ct_eq_str X s t | (None, None) \<Rightarrow> True | _ \<Rightarrow> False)"

definition urls_equivalent_ct :: "'a crypto_ext_scheme \<Rightarrow> url \<Rightarrow> url \<Rightarrow> bool" where
  "urls_equivalent_ct X a b =
     (let scheme_eq = ct_eq_str X (url_scheme a) (url_scheme b);
          host_eq = opt_ct_eq X (url_host_str a) (url_host_str b);
          port_eq = (url_port_or_known_default a = url_port_or_known_default b);
          path_eq = ct_eq_str X (url_path a) (url_path b);
          query_eq = opt_ct_eq X (url_query a) (url_query b);
          no_userinfo = (url_username a = [] \<and> url_password a = None \<and>
                         url_username b = [] \<and> url_password b = None)
      in scheme_eq \<and> host_eq \<and> port_eq \<and> path_eq \<and> query_eq \<and> no_userinfo)"

definition compute_jwk_thumbprint :: "'a crypto_ext_scheme \<Rightarrow> raw_jwk \<Rightarrow> auth_failure + bytes" where
  "compute_jwk_thumbprint X jwk = (case raw_algorithm jwk of
      EllipticCurve curve x_b64 y_b64 \<Rightarrow>
        if curve \<noteq> P256 then Inl ProofSignatureInvalid
        else bind_result (map_err (\<lambda>_. ProofSignatureInvalid) (b64_decode X x_b64)) (\<lambda>x.
             bind_result (map_err (\<lambda>_. ProofSignatureInvalid) (b64_decode X y_b64)) (\<lambda>y.
             if length x \<noteq> 32 \<or> length y \<noteq> 32 then Inl ProofSignatureInvalid
             else Inr (jwk_thumbprint X (EcP256 x y))))
    | RSA n_b64 e_b64 \<Rightarrow>
        bind_result (map_err (\<lambda>_. ProofSignatureInvalid) (b64_decode X n_b64)) (\<lambda>n.
        bind_result (map_err (\<lambda>_. ProofSignatureInvalid) (b64_decode X e_b64)) (\<lambda>e.
        Inr (jwk_thumbprint X (Rsa n e))))
    | _ \<Rightarrow> Inl ProofSignatureInvalid)"

definition iat_in_window :: "auth_config \<Rightarrow> u64 \<Rightarrow> u64 \<Rightarrow> bool" where
  "iat_in_window cfg now iat =
     (let freshness = dpop_freshness_secs cfg; skew = clock_skew_secs cfg in
      if iat \<le> now then saturating_sub now iat \<le> freshness + skew
      else saturating_sub iat now \<le> skew)"

definition proof_validation :: "'dk ext \<Rightarrow> jws_alg \<Rightarrow> validation" where
  "proof_validation X alg = (validation_new X (to_jwt_algorithm alg))
     \<lparr>v_validate_aud := False, v_validate_exp := False, v_validate_nbf := False,
      v_required_spec_claims := [], v_aud := Some []\<rparr>"

text \<open>Steps 1 to 6b: everything before the replay store, up to the identifier.\<close>

definition check_proof ::
    "'dk ext \<Rightarrow> u64 option \<Rightarrow> oidc_context \<Rightarrow> string \<Rightarrow> string \<Rightarrow> url \<Rightarrow> access_token \<Rightarrow> string \<Rightarrow>
     auth_failure + dpop_proof" where
  "check_proof X clock ctx raw_proof request_method effective_uri access_token raw_token =
     bind_result (map_err (\<lambda>_. InvalidAlg) (jwt_decode_header X raw_proof)) (\<lambda>header.
     bind_result (allowlist_alg (hdr_alg header)) (\<lambda>alg.
     if hdr_typ header \<noteq> Some ''dpop+jwt'' then Inl ProofSignatureInvalid else
     bind_result (ok_or (hdr_jwk header) ProofSignatureInvalid) (\<lambda>embedded_jwk.
     bind_result (map_err (\<lambda>_. ProofSignatureInvalid) (decoding_key_from_jwk X embedded_jwk)) (\<lambda>dk.
     bind_result (map_err (\<lambda>_. ProofSignatureInvalid)
       (jwt_decode_proof X raw_proof dk (proof_validation X alg))) (\<lambda>claims.
     bind_result (ok_or (dc_htm claims) (ProofMissingClaim ''htm'')) (\<lambda>htm.
     if \<not> ct_eq_str X htm request_method then Inl ProofHtmMismatch else
     bind_result (ok_or (dc_htu claims) (ProofMissingClaim ''htu'')) (\<lambda>htu_raw.
     bind_result (map_err (\<lambda>_. ProofHtuMismatch) (url_parse X htu_raw)) (\<lambda>htu_url.
     if \<not> urls_equivalent_ct X htu_url effective_uri then Inl ProofHtuMismatch else
     bind_result (ok_or (dc_iat claims) (ProofMissingClaim ''iat'')) (\<lambda>iat.
     if \<not> iat_in_window (ctx_auth_config ctx) (unwrap_or clock 0) iat then Inl ProofIatStale else
     bind_result (compute_jwk_thumbprint X embedded_jwk) (\<lambda>thumbprint.
     if \<not> ct_eq_32 X thumbprint (cnf_jkt access_token) then Inl ProofJktMismatch else
     bind_result (ok_or (dc_ath claims) (ProofMissingClaim ''ath'')) (\<lambda>claimed_ath.
     let expected_ath = compute_ath X raw_token in
     if \<not> ct_eq_str X claimed_ath expected_ath then Inl ProofAthMismatch else
     bind_result (ok_or (dc_jti claims) (ProofMissingClaim ''jti'')) (\<lambda>jti.
     Inr \<lparr>dp_alg = alg, dp_htm = htm, dp_htu = htu_raw, dp_iat = iat, dp_jti = jti,
          dp_thumbprint = thumbprint, dp_ath = expected_ath\<rparr>))))))))))))"

text \<open>Step 7, the replay check, and the whole function.\<close>

definition validate_proof ::
    "'dk ext \<Rightarrow> u64 option \<Rightarrow> instant \<Rightarrow> oidc_context \<Rightarrow> jti_replay_store \<Rightarrow> string \<Rightarrow> string \<Rightarrow> url \<Rightarrow>
     access_token \<Rightarrow> string \<Rightarrow> (auth_failure + dpop_proof) \<times> jti_replay_store" where
  "validate_proof X clock at_instant ctx store raw_proof request_method effective_uri access_token raw_token =
     (case check_proof X clock ctx raw_proof request_method effective_uri access_token raw_token of
        Inl e \<Rightarrow> (Inl e, store)
      | Inr prf \<Rightarrow>
          (let key = jti_key_new X (as_jti_key_byte (ctx_tag ctx)) (dp_jti prf) in
           case instant_checked_add at_instant (jti_replay_window_secs (ctx_auth_config ctx)) of
             None \<Rightarrow> (Inl ProofIatStale, store)
           | Some deadline \<Rightarrow>
               (case try_insert store key deadline of
                  (Inr _, store') \<Rightarrow> (Inr prf, store')
                | (Inl Replayed, store') \<Rightarrow> (Inl ProofReplayed, store')
                | (Inl MemoryPressure, store') \<Rightarrow> (Inl AuthMemoryPressure, store'))))"

subsection \<open>What an accepted proof satisfies\<close>

definition url_match :: "url \<Rightarrow> url \<Rightarrow> bool" where
  "url_match a b \<longleftrightarrow> url_scheme a = url_scheme b \<and> url_host_str a = url_host_str b \<and>
     url_port_or_known_default a = url_port_or_known_default b \<and> url_path a = url_path b \<and>
     url_query a = url_query b \<and> url_username a = [] \<and> url_password a = None \<and>
     url_username b = [] \<and> url_password b = None"

lemma urls_equivalent_ct_iff:
  "subtle_decides_eq X \<Longrightarrow> urls_equivalent_ct X a b \<longleftrightarrow> url_match a b"
  by (auto simp: urls_equivalent_ct_def url_match_def opt_ct_eq_def ct_eq_str_iff split: option.splits)

lemma compute_jwk_thumbprint_length:
  "sha256_len32 X \<Longrightarrow> compute_jwk_thumbprint X jwk = Inr tp \<Longrightarrow> length tp = 32"
  by (auto simp: compute_jwk_thumbprint_def bind_result_def map_err_def length_jwk_thumbprint
      split: algorithm_parameters.splits if_splits sum.splits)

text \<open>The age check in unbounded arithmetic, for settings whose sum does not overflow.\<close>

lemma iat_in_window_iff:
  assumes "auth_config_ok cfg"
  shows "iat_in_window cfg now iat \<longleftrightarrow>
    unat now \<le> unat iat + unat (dpop_freshness_secs cfg) + unat (clock_skew_secs cfg) \<and>
    unat iat \<le> unat now + unat (clock_skew_secs cfg)"
proof -
  have "unat (dpop_freshness_secs cfg + clock_skew_secs cfg) =
      unat (dpop_freshness_secs cfg) + unat (clock_skew_secs cfg)"
    using assms by (intro unat_plus_no_overflow) (simp add: auth_config_ok_def)
  then show ?thesis
    by (auto simp: iat_in_window_def Let_def word_le_nat_alt unat_saturating_sub)
qed

definition proof_fits ::
    "'dk ext \<Rightarrow> u64 option \<Rightarrow> oidc_context \<Rightarrow> string \<Rightarrow> string \<Rightarrow> url \<Rightarrow> access_token \<Rightarrow> string \<Rightarrow>
     dpop_proof \<Rightarrow> bool" where
  "proof_fits X clock ctx raw_proof request_method effective_uri at raw_token p \<longleftrightarrow>
     (\<exists>header jwk dk claims htu.
        jwt_decode_header X raw_proof = Inr header \<and>
        hdr_alg header = to_jwt_algorithm (dp_alg p) \<and> hdr_typ header = Some ''dpop+jwt'' \<and>
        hdr_jwk header = Some jwk \<and> decoding_key_from_jwk X jwk = Inr dk \<and>
        jwt_decode_proof X raw_proof dk (proof_validation X (dp_alg p)) = Inr claims \<and>
        dc_htm claims = Some (dp_htm p) \<and> dp_htm p = request_method \<and>
        dc_htu claims = Some (dp_htu p) \<and> url_parse X (dp_htu p) = Inr htu \<and>
        url_match htu effective_uri \<and>
        dc_iat claims = Some (dp_iat p) \<and>
        iat_in_window (ctx_auth_config ctx) (unwrap_or clock 0) (dp_iat p) \<and>
        compute_jwk_thumbprint X jwk = Inr (dp_thumbprint p) \<and> dp_thumbprint p = cnf_jkt at \<and>
        dc_ath claims = Some (dp_ath p) \<and> dp_ath p = compute_ath X raw_token \<and>
        dc_jti claims = Some (dp_jti p))"

lemma allowlist_alg_iff: "allowlist_alg a = Inr alg \<longleftrightarrow> a = to_jwt_algorithm alg"
  by (cases a; cases alg) (simp_all add: allowlist_alg_def to_jwt_algorithm_def)

lemma if_Inl_Inr: "(if P then Inl e else x) = Inr y \<longleftrightarrow> \<not> P \<and> x = Inr y"
  by simp

lemma check_proof_iff:
  assumes "subtle_decides_eq X" and "sha256_len32 X" and "length (cnf_jkt at) = 32"
  shows "check_proof X clock ctx raw_proof m u at raw_token = Inr p \<longleftrightarrow>
    proof_fits X clock ctx raw_proof m u at raw_token p"
proof -
  have eq32: "compute_jwk_thumbprint X jwk = Inr tp \<Longrightarrow> ct_eq_32 X tp (cnf_jkt at) \<longleftrightarrow> tp = cnf_jkt at"
    for jwk tp
    using compute_jwk_thumbprint_length [OF assms(2)] ct_eq_32_iff [OF assms(1)] assms(3) by blast
  note simps = check_proof_def proof_fits_def bind_result_Inr_iff map_err_Inr_iff ok_or_Inr_iff
    if_Inl_Inr Let_def allowlist_alg_iff ct_eq_str_iff [OF assms(1)]
    urls_equivalent_ct_iff [OF assms(1)] not_not
  show ?thesis
  proof
    assume "check_proof X clock ctx raw_proof m u at raw_token = Inr p"
    then show "proof_fits X clock ctx raw_proof m u at raw_token p"
      unfolding simps using eq32 by fastforce
  next
    assume "proof_fits X clock ctx raw_proof m u at raw_token p"
    then show "check_proof X clock ctx raw_proof m u at raw_token = Inr p"
      unfolding simps using eq32 by (cases p) fastforce
  qed
qed

lemma validate_proof_Inr:
  assumes "validate_proof X clock t ctx st raw_proof m u at raw_token = (Inr p, st')"
  shows "check_proof X clock ctx raw_proof m u at raw_token = Inr p"
    and "try_insert st (jti_key_new X (as_jti_key_byte (ctx_tag ctx)) (dp_jti p))
      (t + unat (jti_replay_window_secs (ctx_auth_config ctx)) * nanos_per_sec) = (Inr (), st')"
  using assms
  by (auto simp: validate_proof_def Let_def dest: instant_checked_add_Some
      split: sum.splits option.splits prod.splits insert_error.splits)

lemma validate_proof_Inl:
  assumes "validate_proof X clock t ctx st raw_proof m u at raw_token = (Inl e, st')"
  shows "st' = st"
  using assms
  by (auto simp: validate_proof_def Let_def dest: try_insert_Inl
      split: sum.splits option.splits prod.splits insert_error.splits)

lemma replay_inv_validate_proof:
  assumes "replay_inv st"
  shows "replay_inv (snd (validate_proof X clock t ctx st raw_proof m u at raw_token))"
proof (cases "validate_proof X clock t ctx st raw_proof m u at raw_token")
  case (Pair r st')
  show ?thesis
  proof (cases r)
    case (Inl e)
    with Pair assms show ?thesis using validate_proof_Inl by fastforce
  next
    case (Inr p)
    with Pair assms show ?thesis
      using validate_proof_Inr(2) replay_inv_try_insert by fastforce
  qed
qed

text \<open>A seen identifier is refused whatever the rest of the proof looks like.\<close>

lemma validate_proof_seen:
  assumes "hm_contains (rs_entries st) (jti_key_new X (as_jti_key_byte (ctx_tag ctx)) j)"
  shows "validate_proof X clock t ctx st raw_proof m u at raw_token \<noteq> (Inr p, st') \<or> dp_jti p \<noteq> j"
proof (rule ccontr)
  assume "\<not> ?thesis"
  then have acc: "validate_proof X clock t ctx st raw_proof m u at raw_token = (Inr p, st')"
    and j: "dp_jti p = j" by auto
  from try_insert_Inr(1) [OF validate_proof_Inr(2) [OF acc]] assms show False by (simp add: j)
qed

subsection \<open>Clocks\<close>

text \<open>
  The wall clock in seconds and the monotonic clock in nanoseconds advance together: a fixed
  offset turns an instant into nanoseconds of wall-clock time.
\<close>

definition clocks_agree :: "nat \<Rightarrow> u64 option \<Rightarrow> instant \<Rightarrow> bool" where
  "clocks_agree offset clock t \<longleftrightarrow> (\<exists>now. clock = Some now \<and> unat now = (t + offset) div nanos_per_sec)"

lemma elapsed_bound:
  assumes "clocks_agree off (Some w1) t1" and "clocks_agree off (Some w2) t2"
    and "unat w2 \<le> unat w1 + d"
  shows "t2 < t1 + (d + 1) * nanos_per_sec"
proof -
  have n: "0 < nanos_per_sec" by (simp add: nanos_per_sec_def)
  have w: "unat w1 = (t1 + off) div nanos_per_sec" "unat w2 = (t2 + off) div nanos_per_sec"
    using assms(1,2) by (auto simp: clocks_agree_def)
  have "(t2 + off) div nanos_per_sec < (t1 + off) div nanos_per_sec + (d + 1)"
    using assms(3) w by simp
  then have "t2 + off < ((t1 + off) div nanos_per_sec + (d + 1)) * nanos_per_sec"
    using n by (simp add: less_mult_imp_div_less div_less_iff_less_mult)
  also have "\<dots> = (t1 + off) div nanos_per_sec * nanos_per_sec + (d + 1) * nanos_per_sec"
    by (rule add_mult_distrib)
  also have "\<dots> \<le> t1 + off + (d + 1) * nanos_per_sec" by simp
  finally show ?thesis by simp
qed

lemma accepted_in_window:
  assumes "check_proof X clock ctx raw_proof m u at raw_token = Inr p"
  shows "iat_in_window (ctx_auth_config ctx) (unwrap_or clock 0) (dp_iat p)"
  using assms by (auto simp: check_proof_def bind_result_def Let_def split: sum.splits if_splits)

subsection \<open>An example\<close>

definition demo_jkt :: bytes where
  "demo_jkt = jwk_thumbprint demo_crypto (Rsa [18] [5])"

definition demo_proof_claims :: "u64 \<Rightarrow> dpop_claims" where
  "demo_proof_claims iat = \<lparr>dc_htm = Some ''GET'', dc_htu = Some ''http://h/x'', dc_iat = Some iat,
     dc_jti = Some ''j'', dc_ath = Some (hex_encode (pad32 (as_bytes ''tok'')))\<rparr>"

definition demo_auth_ext :: "u64 \<Rightarrow> unit ext" where
  "demo_auth_ext iat = (demo_token_ext demo_jkt)
     \<lparr>jwt_decode_header := (\<lambda>r. Inr (if r = ''prf''
        then \<lparr>hdr_typ = Some ''dpop+jwt'', hdr_alg = ALG_PS256, hdr_kid = None,
              hdr_jwk = Some (demo_rsa_key ''p'' [5])\<rparr>
        else \<lparr>hdr_typ = None, hdr_alg = ALG_PS256, hdr_kid = Some ''k'', hdr_jwk = None\<rparr>)),
      jwt_decode_proof := (\<lambda>_ _ _. Inr (demo_proof_claims iat))\<rparr>"

definition demo_proof :: "u64 \<Rightarrow> dpop_proof" where
  "demo_proof iat = \<lparr>dp_alg = Ps256, dp_htm = ''GET'', dp_htu = ''http://h/x'', dp_iat = iat, dp_jti = ''j'',
     dp_thumbprint = demo_jkt, dp_ath = hex_encode (pad32 (as_bytes ''tok''))\<rparr>"

lemma demo_jkt_length: "length demo_jkt = 32"
  using length_jwk_thumbprint [OF demo_crypto_sha256] by (simp add: demo_jkt_def)

lemma demo_auth_ext_laws: "subtle_decides_eq (demo_auth_ext i)" "sha256_len32 (demo_auth_ext i)"
  by (simp_all add: subtle_decides_eq_def sha256_len32_def demo_auth_ext_def demo_token_ext_def
      pad32_def min_def)

lemma demo_proof_thumbprint:
  "compute_jwk_thumbprint (demo_auth_ext i) (demo_rsa_key ''p'' [5]) = Inr demo_jkt"
proof -
  have t: "crypto_ext.truncate (demo_auth_ext i) = demo_crypto"
    by (simp add: demo_auth_ext_def demo_token_ext_def demo_ext_def crypto_ext.defs demo_crypto_def)
  have "jwk_thumbprint (demo_auth_ext i) = jwk_thumbprint demo_crypto"
    using jwk_thumbprint_truncate [of "demo_auth_ext i"] t by simp
  moreover have "b64_decode (demo_auth_ext i) = hex_decode"
    by (simp add: demo_auth_ext_def demo_token_ext_def)
  ultimately show ?thesis
    by (simp add: compute_jwk_thumbprint_def demo_rsa_key_def demo_jkt_def hex_decode_encode)
qed

lemma demo_check_proof_ctx:
  assumes "iat_in_window (ctx_auth_config ctx) now i"
  shows "check_proof (demo_auth_ext i) (Some now) ctx ''prf'' ''GET'' (demo_url ''http://h/x'')
    (demo_token demo_jkt) ''tok'' = Inr (demo_proof i)"
proof -
  let ?hd = "\<lparr>hdr_typ = Some ''dpop+jwt'', hdr_alg = ALG_PS256, hdr_kid = None,
    hdr_jwk = Some (demo_rsa_key ''p'' [5])\<rparr>"
  have "proof_fits (demo_auth_ext i) (Some now) ctx ''prf'' ''GET'' (demo_url ''http://h/x'')
      (demo_token demo_jkt) ''tok'' (demo_proof i)"
    unfolding proof_fits_def
    by (rule exI [of _ ?hd], rule exI [of _ "demo_rsa_key ''p'' [5]"], rule exI [of _ "()"],
        rule exI [of _ "demo_proof_claims i"], rule exI [of _ "demo_url ''http://h/x''"])
      (use assms in \<open>simp add: demo_proof_def demo_proof_claims_def demo_proof_thumbprint
        demo_token_def url_match_def compute_ath_def\<close>,
       simp add: demo_auth_ext_def demo_token_ext_def demo_url_def to_jwt_algorithm_def
        demo_proof_claims_def)
  then show ?thesis
    using check_proof_iff [OF demo_auth_ext_laws] by (simp add: demo_token_def demo_jkt_length)
qed

lemma demo_check_proof:
  "iat_in_window auth_config_default now i \<Longrightarrow>
   check_proof (demo_auth_ext i) (Some now) demo_vault_context ''prf'' ''GET'' (demo_url ''http://h/x'')
    (demo_token demo_jkt) ''tok'' = Inr (demo_proof i)"
  by (rule demo_check_proof_ctx) (simp add: demo_context_def)

definition demo_key :: jti_key where
  "demo_key = JtiKey 1 (pad32 (as_bytes ''j''))"

lemma demo_validate_proof:
  assumes "iat_in_window auth_config_default now i" and "t div nanos_per_sec + 90 < 2 ^ 63"
  shows "validate_proof (demo_auth_ext i) (Some now) t demo_vault_context st ''prf'' ''GET'' (demo_url ''http://h/x'')
      (demo_token demo_jkt) ''tok'' =
    (case try_insert st demo_key (t + 90 * nanos_per_sec) of
       (Inr _, st') \<Rightarrow> (Inr (demo_proof i), st')
     | (Inl Replayed, st') \<Rightarrow> (Inl ProofReplayed, st')
     | (Inl MemoryPressure, st') \<Rightarrow> (Inl AuthMemoryPressure, st'))"
proof -
  have "jti_key_new (demo_auth_ext i) (as_jti_key_byte (ctx_tag demo_vault_context)) (dp_jti (demo_proof i)) = demo_key"
    by (simp add: jti_key_new_def demo_context_def as_jti_key_byte_def demo_auth_ext_def
        demo_token_ext_def demo_key_def demo_proof_def)
  moreover have "(t + 90 * nanos_per_sec) div nanos_per_sec = 90 + t div nanos_per_sec"
    by (rule div_mult_self1) (simp add: nanos_per_sec_def)
  then have "instant_checked_add t (jti_replay_window_secs (ctx_auth_config demo_vault_context)) =
      Some (t + 90 * nanos_per_sec)"
    using assms(2) by (simp add: instant_checked_add_def demo_context_def auth_config_default_def Let_def)
  ultimately show ?thesis
    using demo_check_proof [OF assms(1)] by (simp add: validate_proof_def)
qed

lemma demo_first_insert:
  "try_insert (replay_store_new auth_config_default) demo_key d =
     (Inr (), \<lparr>rs_entries = [(demo_key, d)], rs_queue = [(d, demo_key)], rs_len = 1,
               rs_config = auth_config_default\<rparr>)"
  by (simp add: try_insert_def try_insert_entries_def try_insert_push_def replay_store_new_def
      auth_config_default_def heap_push_def)

subsection \<open>Properties\<close>

text \<open>
  C11. A proof is accepted only if it is a DPoP JWT with an allowlisted algorithm that verifies with
  the key in its own header; its method and URL are those of the request; its age is within the
  window in exact arithmetic; its key is the one the token is confirmed for; its token hash is that
  of the presented token; and its identifier was not in the replay store of this audience and is
  there afterwards, with a deadline one replay window ahead.
\<close>

theorem validate_proof_sound:
  assumes "subtle_decides_eq X" and "sha256_len32 X" and "length (cnf_jkt at) = 32"
    and "auth_config_ok (ctx_auth_config ctx)"
    and "validate_proof X clock t ctx st raw_proof m u at raw_token = (Inr p, st')"
  shows "proof_fits X clock ctx raw_proof m u at raw_token p \<and>
    unat (unwrap_or clock 0) \<le> unat (dp_iat p) + unat (dpop_freshness_secs (ctx_auth_config ctx)) +
      unat (clock_skew_secs (ctx_auth_config ctx)) \<and>
    unat (dp_iat p) \<le> unat (unwrap_or clock 0) + unat (clock_skew_secs (ctx_auth_config ctx)) \<and>
    map_of (rs_entries st) (jti_key_new X (as_jti_key_byte (ctx_tag ctx)) (dp_jti p)) = None \<and>
    map_of (rs_entries st') = (map_of (rs_entries st))
      (jti_key_new X (as_jti_key_byte (ctx_tag ctx)) (dp_jti p) \<mapsto>
       t + unat (jti_replay_window_secs (ctx_auth_config ctx)) * nanos_per_sec)"
proof -
  note acc = validate_proof_Inr [OF assms(5)]
  have "proof_fits X clock ctx raw_proof m u at raw_token p"
    using acc(1) check_proof_iff [OF assms(1-3)] by blast
  moreover have "iat_in_window (ctx_auth_config ctx) (unwrap_or clock 0) (dp_iat p)"
    using acc(1) by (rule accepted_in_window)
  ultimately show ?thesis
    using try_insert_Inr(1,2) [OF acc(2)] iat_in_window_iff [OF assms(4)] by blast
qed

theorem validate_proof_sound_witness:
  "\<exists>p st'. validate_proof (demo_auth_ext 100) (Some 100) 0 demo_vault_context
       (replay_store_new auth_config_default) ''prf'' ''GET'' (demo_url ''http://h/x'') (demo_token demo_jkt) ''tok'' =
       (Inr p, st') \<and>
     proof_fits (demo_auth_ext 100) (Some 100) demo_vault_context ''prf'' ''GET'' (demo_url ''http://h/x'')
       (demo_token demo_jkt) ''tok'' p"
proof -
  have w: "iat_in_window auth_config_default 100 100"
    by (simp add: iat_in_window_def auth_config_default_def saturating_sub_def)
  obtain st' where a: "validate_proof (demo_auth_ext 100) (Some 100) 0 demo_vault_context
       (replay_store_new auth_config_default) ''prf'' ''GET'' (demo_url ''http://h/x'') (demo_token demo_jkt) ''tok'' =
       (Inr (demo_proof 100), st')"
    by (simp add: demo_validate_proof [OF w] demo_first_insert)
  have "length (cnf_jkt (demo_token demo_jkt)) = 32" by (simp add: demo_token_def demo_jkt_length)
  moreover have "auth_config_ok (ctx_auth_config demo_vault_context)"
    by (simp add: demo_context_def auth_config_default_ok)
  ultimately show ?thesis
    using validate_proof_sound [OF demo_auth_ext_laws _ _ a] a by blast
qed

text \<open>
  A refused proof leaves the replay store as it was: no failed attempt, at whichever step,
  consumes an identifier or a place in the store.
\<close>

theorem refused_proof_keeps_store:
  assumes "fst (validate_proof X clock t ctx st raw_proof m u at raw_token) = Inl e"
  shows "snd (validate_proof X clock t ctx st raw_proof m u at raw_token) = st"
  using assms validate_proof_Inl by (metis prod.collapse)

theorem refused_proof_keeps_store_witness:
  "snd (validate_proof demo_ext None 0 demo_vault_context (replay_store_new auth_config_default)
     ''prf'' ''GET'' (demo_url ''http://h/x'') (demo_token demo_jkt) ''tok'') = replay_store_new auth_config_default"
  by (rule refused_proof_keeps_store [where e = InvalidAlg])
    (simp add: validate_proof_def check_proof_def demo_ext_def crypto_ext.defs)

text \<open>
  \<^verbatim>\<open>jsonwebtoken\<close>: the claims that decoding a proof returns are its payload, whatever the key and
  the validation options.
\<close>

definition proof_decodes_payload :: "'dk ext \<Rightarrow> string \<Rightarrow> bool" where
  "proof_decodes_payload X raw_proof \<longleftrightarrow> (\<forall>dk v c dk' v' c'.
     jwt_decode_proof X raw_proof dk v = Inr c \<longrightarrow>
     jwt_decode_proof X raw_proof dk' v' = Inr c' \<longrightarrow> c = c')"

text \<open>
  What becomes of an accepted proof when it comes with another access token, all else being equal: the
  key that the token names is compared first, then the digest of the token.
\<close>

lemma check_proof_other_token:
  assumes X: "subtle_decides_eq X" "sha256_len32 X" and rt: "base64_roundtrip X"
    and len: "length (cnf_jkt at) = 32" "length (cnf_jkt at') = 32"
    and acc: "check_proof X clock ctx raw_proof m u at raw = Inr p"
  shows "check_proof X clock ctx raw_proof m u at' raw' =
    (if cnf_jkt at' \<noteq> cnf_jkt at then Inl ProofJktMismatch
     else if sha256 X (as_bytes raw') \<noteq> sha256 X (as_bytes raw) then Inl ProofAthMismatch
     else Inr p)"
proof -
  obtain header jwk dk claims htu where f: "jwt_decode_header X raw_proof = Inr header"
      "hdr_alg header = to_jwt_algorithm (dp_alg p)" "hdr_typ header = Some ''dpop+jwt''"
      "hdr_jwk header = Some jwk" "decoding_key_from_jwk X jwk = Inr dk"
      "jwt_decode_proof X raw_proof dk (proof_validation X (dp_alg p)) = Inr claims"
      "dc_htm claims = Some (dp_htm p)" "dp_htm p = m" "dc_htu claims = Some (dp_htu p)"
      "url_parse X (dp_htu p) = Inr htu" "url_match htu u" "dc_iat claims = Some (dp_iat p)"
      "iat_in_window (ctx_auth_config ctx) (unwrap_or clock 0) (dp_iat p)"
      "compute_jwk_thumbprint X jwk = Inr (dp_thumbprint p)" "dp_thumbprint p = cnf_jkt at"
      "dc_ath claims = Some (dp_ath p)" "dp_ath p = compute_ath X raw" "dc_jti claims = Some (dp_jti p)"
    using acc unfolding check_proof_iff [OF X len(1)] proof_fits_def by blast
  have alg: "allowlist_alg (to_jwt_algorithm (dp_alg p)) = Inr (dp_alg p)" by (simp add: allowlist_alg_iff)
  have ath: "compute_ath X raw = compute_ath X raw' \<longleftrightarrow> sha256 X (as_bytes raw') = sha256 X (as_bytes raw)"
    using b64_encode_inject [OF rt] by (auto simp: compute_ath_def)
  have jkt: "ct_eq_32 X (cnf_jkt at) (cnf_jkt at') \<longleftrightarrow> cnf_jkt at' = cnf_jkt at"
    using ct_eq_32_iff [OF X(1) len] by auto
  let ?q = "\<lambda>r. \<lparr>dp_alg = dp_alg p, dp_htm = dp_htm p, dp_htu = dp_htu p, dp_iat = dp_iat p, dp_jti = dp_jti p,
    dp_thumbprint = cnf_jkt at, dp_ath = compute_ath X r\<rparr>"
  have "check_proof X clock ctx raw_proof m u at' raw' =
    (if cnf_jkt at' \<noteq> cnf_jkt at then Inl ProofJktMismatch
     else if sha256 X (as_bytes raw') \<noteq> sha256 X (as_bytes raw) then Inl ProofAthMismatch
     else Inr (?q raw'))"
    unfolding check_proof_def using f alg ath jkt
    by (simp add: ct_eq_str_iff [OF X(1)] urls_equivalent_ct_iff [OF X(1)])
  moreover have "p = ?q raw" using f(15,17) by (cases p) simp
  ultimately show ?thesis using ath by metis
qed

text \<open>
  In whatever request an accepted proof is presented again, the header of the proof fixes its key and its
  algorithm, and so the claims that decoding returns.
\<close>

lemma accepted_tokens_agree:
  assumes X: "subtle_decides_eq X" "sha256_len32 X" and rt: "base64_roundtrip X"
    and len: "length (cnf_jkt at) = 32" "length (cnf_jkt at') = 32"
    and acc: "check_proof X clock ctx raw_proof m u at raw = Inr p"
      "check_proof X clock' ctx' raw_proof m' u' at' raw' = Inr p'"
  shows "cnf_jkt at' = cnf_jkt at" and "sha256 X (as_bytes raw') = sha256 X (as_bytes raw)"
proof -
  have alg: "to_jwt_algorithm a = to_jwt_algorithm b \<Longrightarrow> a = b" for a b
    by (cases a; cases b) (simp_all add: to_jwt_algorithm_def)
  note fits = acc(1) [unfolded check_proof_iff [OF X len(1)] proof_fits_def]
    acc(2) [unfolded check_proof_iff [OF X len(2)] proof_fits_def]
  show "cnf_jkt at' = cnf_jkt at" using fits by auto
  have "compute_ath X raw' = compute_ath X raw" using fits by (auto dest!: alg)
  then show "sha256 X (as_bytes raw') = sha256 X (as_bytes raw)"
    using b64_encode_inject [OF rt] by (simp add: compute_ath_def)
qed

text \<open>
  C26. A proof is bound to the key and to the digest of one access token. When a proof is accepted with a
  token \<open>raw\<close> that names the key \<open>at\<close>, then presenting it in the same request with another token fails
  with a mismatch of the key when the other token names another key, and with a mismatch of the token
  hash when the SHA-256 digest of the other token string is another one, in both cases without an effect
  on the replay store; only a token string with the very digest is treated as \<open>raw\<close> would be. And in no
  request, at no time and in neither context, is the proof accepted with a token of another key or digest.
\<close>

theorem proof_bound_to_token:
  assumes "subtle_decides_eq X" and "sha256_len32 X" and "base64_roundtrip X"
    and "length (cnf_jkt at) = 32" and "length (cnf_jkt at') = 32"
    and "check_proof X clock ctx raw_proof m u at raw = Inr p"
  shows "validate_proof X clock t ctx st raw_proof m u at' raw' =
       (if cnf_jkt at' \<noteq> cnf_jkt at then (Inl ProofJktMismatch, st)
        else if sha256 X (as_bytes raw') \<noteq> sha256 X (as_bytes raw) then (Inl ProofAthMismatch, st)
        else validate_proof X clock t ctx st raw_proof m u at raw) \<and>
    (\<forall>clock' t' ctx' st' st'' m' u' p'.
       validate_proof X clock' t' ctx' st' raw_proof m' u' at' raw' = (Inr p', st'') \<longrightarrow>
       cnf_jkt at' = cnf_jkt at \<and> sha256 X (as_bytes raw') = sha256 X (as_bytes raw))"
proof -
  have "cnf_jkt at' = cnf_jkt at \<and> sha256 X (as_bytes raw') = sha256 X (as_bytes raw)"
    if "validate_proof X clock' t' ctx' st' raw_proof m' u' at' raw' = (Inr p', st'')" for clock' t' ctx' st' st'' m' u' p'
    using accepted_tokens_agree [OF assms validate_proof_Inr(1) [OF that]] by blast
  moreover have "validate_proof X clock t ctx st raw_proof m u at' raw' =
       (if cnf_jkt at' \<noteq> cnf_jkt at then (Inl ProofJktMismatch, st)
        else if sha256 X (as_bytes raw') \<noteq> sha256 X (as_bytes raw) then (Inl ProofAthMismatch, st)
        else validate_proof X clock t ctx st raw_proof m u at raw)"
    using check_proof_other_token [OF assms, of raw'] assms(6) by (simp add: validate_proof_def)
  ultimately show ?thesis by blast
qed

lemma demo_proof_payload: "proof_decodes_payload (demo_auth_ext i) raw_proof"
  by (simp add: proof_decodes_payload_def demo_auth_ext_def demo_token_ext_def)

text \<open>
  Witness: the example proof, accepted with the token \<^verbatim>\<open>tok\<close>, is refused with the token \<^verbatim>\<open>toc\<close>, and with a
  token that names another key.
\<close>

theorem proof_bound_to_token_witness:
  "fst (validate_proof (demo_auth_ext 100) (Some 100) 0 demo_vault_context (replay_store_new auth_config_default)
     ''prf'' ''GET'' (demo_url ''http://h/x'') (demo_token demo_jkt) ''tok'') = Inr (demo_proof 100) \<and>
   validate_proof (demo_auth_ext 100) (Some 100) 0 demo_vault_context (replay_store_new auth_config_default)
     ''prf'' ''GET'' (demo_url ''http://h/x'') (demo_token demo_jkt) ''toc'' =
     (Inl ProofAthMismatch, replay_store_new auth_config_default) \<and>
   validate_proof (demo_auth_ext 100) (Some 100) 0 demo_vault_context (replay_store_new auth_config_default)
     ''prf'' ''GET'' (demo_url ''http://h/x'') (demo_token (replicate 32 0)) ''tok'' =
     (Inl ProofJktMismatch, replay_store_new auth_config_default)"
proof -
  let ?X = "demo_auth_ext 100"
  have w: "iat_in_window auth_config_default 100 100"
    by (simp add: iat_in_window_def auth_config_default_def saturating_sub_def)
  have rt: "base64_roundtrip ?X"
    by (simp add: base64_roundtrip_def demo_auth_ext_def demo_token_ext_def hex_decode_encode)
  have len: "length (cnf_jkt (demo_token demo_jkt)) = 32" "length (cnf_jkt (demo_token (replicate 32 0))) = 32"
    by (simp_all add: demo_token_def demo_jkt_length)
  have "hd demo_jkt = 123"
    by (simp add: demo_jkt_def jwk_thumbprint_def demo_crypto_def canonical_json_def pad32_def as_bytes_def)
  then have key: "cnf_jkt (demo_token (replicate 32 0)) \<noteq> cnf_jkt (demo_token demo_jkt)"
    by (auto simp: demo_token_def dest: arg_cong [of _ _ hd])
  have dig: "sha256 ?X (as_bytes ''toc'') \<noteq> sha256 ?X (as_bytes ''tok'')"
    by (simp add: demo_auth_ext_def demo_token_ext_def pad32_def as_bytes_def)
  note bound = proof_bound_to_token [OF demo_auth_ext_laws rt len(1) _ demo_check_proof [OF w]]
  have "fst (validate_proof ?X (Some 100) 0 demo_vault_context (replay_store_new auth_config_default)
      ''prf'' ''GET'' (demo_url ''http://h/x'') (demo_token demo_jkt) ''tok'') = Inr (demo_proof 100)"
    by (simp add: demo_validate_proof [OF w] demo_first_insert)
  then show ?thesis
    using bound [OF len(1), of 0 "replay_store_new auth_config_default" "''toc''"] dig
      bound [OF len(2), of 0 "replay_store_new auth_config_default" "''tok''"] key
    by simp
qed

lemma check_proof_claims:
  assumes "check_proof X clock ctx raw_proof m u at raw = Inr p"
  shows "\<exists>dk v c. jwt_decode_proof X raw_proof dk v = Inr c \<and> dc_iat c = Some (dp_iat p) \<and>
    dc_jti c = Some (dp_jti p)"
  using assms
  by (fastforce simp: check_proof_def bind_result_def ok_or_def map_err_def Let_def
      split: sum.splits option.splits if_splits)

lemma check_proof_same_claims:
  assumes "proof_decodes_payload X raw_proof"
    and "check_proof X clock ctx raw_proof m u at raw = Inr p"
    and "check_proof X clock' ctx' raw_proof m' u' at' raw' = Inr p'"
  shows "dp_iat p' = dp_iat p" "dp_jti p' = dp_jti p"
  using check_proof_claims [OF assms(2)] check_proof_claims [OF assms(3)] assms(1)
  by (auto simp: proof_decodes_payload_def) (metis option.inject)+

lemma proof_refused_again:
  assumes cfg: "auth_config_ok (ctx_auth_config ctx)"
    and window: "unat (dpop_freshness_secs (ctx_auth_config ctx)) +
      2 * unat (clock_skew_secs (ctx_auth_config ctx)) + 1 \<le>
      unat (jti_replay_window_secs (ctx_auth_config ctx))"
    and payload: "proof_decodes_payload X raw_proof"
    and inv: "replay_inv st"
    and clocks: "clocks_agree off (Some w1) t1" "clocks_agree off (Some w2) t2"
    and first: "validate_proof X (Some w1) t1 ctx st raw_proof m u at raw = (Inr p, st1)"
    and ticks: "\<And>now. OpTick now \<in> set ops \<Longrightarrow> now \<le> t2"
    and second: "validate_proof X (Some w2) t2 ctx (fold run_op ops st1) raw_proof m' u' at' raw' = (r, st2)"
  shows "\<exists>e. r = Inl e"
proof (rule ccontr)
  assume "\<nexists>e. r = Inl e"
  then obtain p' where r: "r = Inr p'" by (cases r) auto
  note a1 = validate_proof_Inr [OF first] and a2 = validate_proof_Inr [OF second [unfolded r]]
  note same = check_proof_same_claims [OF payload a1(1) a2(1)]
  let ?f = "unat (dpop_freshness_secs (ctx_auth_config ctx))"
  let ?s = "unat (clock_skew_secs (ctx_auth_config ctx))"
  let ?d = "t1 + unat (jti_replay_window_secs (ctx_auth_config ctx)) * nanos_per_sec"
  have "unat (dp_iat p) \<le> unat w1 + ?s" "unat w2 \<le> unat (dp_iat p) + ?f + ?s"
    using accepted_in_window [OF a1(1)] accepted_in_window [OF a2(1)] same(1)
    by (simp_all add: iat_in_window_iff [OF cfg])
  then have "unat w2 \<le> unat w1 + (?f + 2 * ?s)" by simp
  from elapsed_bound [OF clocks this] window
  have "t2 < ?d"
    by (meson add_left_mono less_le_trans mult_le_mono1)
  with ticks have "\<And>now. OpTick now \<in> set ops \<Longrightarrow> now < ?d" using le_less_trans by blast
  from rg.second_insert_replayed [OF inv a1(2) this]
  have "fst (try_insert (fold run_op ops st1)
      (jti_key_new X (as_jti_key_byte (ctx_tag ctx)) (dp_jti p)) d) = Inl Replayed" for d .
  then show False using a2(2) same(2) by (metis Inl_Inr_False fst_conv)
qed

text \<open>
  With a replay window of at least the freshness, twice the clock skew and one second, no proof
  is accepted twice: after a first acceptance, whatever the other requests and the clean-up task do
  to the store up to the moment of the second presentation, that presentation is refused, with any
  request and any token, as long as the two clocks advance together.
\<close>

theorem no_proof_accepted_twice:
  assumes cfg: "auth_config_ok (ctx_auth_config ctx)"
    and window: "unat (dpop_freshness_secs (ctx_auth_config ctx)) +
      2 * unat (clock_skew_secs (ctx_auth_config ctx)) + 1 \<le>
      unat (jti_replay_window_secs (ctx_auth_config ctx))"
    and payload: "proof_decodes_payload X raw_proof"
    and inv: "replay_inv st"
    and clocks: "clocks_agree off (Some w1) t1" "clocks_agree off (Some w2) t2"
    and first: "validate_proof X (Some w1) t1 ctx st raw_proof m u at raw = (Inr p, st1)"
    and ticks: "\<And>now. OpTick now \<in> set ops \<Longrightarrow> now \<le> t2"
    and second: "validate_proof X (Some w2) t2 ctx (fold run_op ops st1) raw_proof m' u' at' raw' = (r, st2)"
  shows "\<exists>e. r = Inl e"
  by (rule proof_refused_again [OF assms])

definition demo_wide_config :: auth_config where
  "demo_wide_config = auth_config_default\<lparr>jti_replay_window_secs := 151\<rparr>"

theorem no_proof_accepted_twice_witness:
  "\<exists>st1 e. validate_proof (demo_auth_ext 160) (Some 100) 0
       (demo_vault_context\<lparr>ctx_auth_config := demo_wide_config\<rparr>)
       (replay_store_new auth_config_default) ''prf'' ''GET'' (demo_url ''http://h/x'') (demo_token demo_jkt) ''tok'' =
       (Inr (demo_proof 160), st1) \<and>
     fst (validate_proof (demo_auth_ext 160) (Some 200) (100 * nanos_per_sec)
       (demo_vault_context\<lparr>ctx_auth_config := demo_wide_config\<rparr>)
       (fold run_op [OpTick (91 * nanos_per_sec)] st1)
       ''prf'' ''GET'' (demo_url ''http://h/x'') (demo_token demo_jkt) ''tok'') = Inl e"
proof -
  let ?ctx = "demo_vault_context\<lparr>ctx_auth_config := demo_wide_config\<rparr>"
  let ?v = "\<lambda>w t st. validate_proof (demo_auth_ext 160) (Some w) t ?ctx st ''prf'' ''GET''
    (demo_url ''http://h/x'') (demo_token demo_jkt) ''tok''"
  have w: "iat_in_window auth_config_default 100 160" "iat_in_window demo_wide_config 100 160"
    by (simp_all add: iat_in_window_def auth_config_default_def saturating_sub_def demo_wide_config_def)
  have "check_proof (demo_auth_ext 160) (Some 100) ?ctx ''prf'' ''GET'' (demo_url ''http://h/x'')
      (demo_token demo_jkt) ''tok'' = Inr (demo_proof 160)"
    using w(2) by (intro demo_check_proof_ctx) simp
  moreover have "jti_key_new (demo_auth_ext 160) (as_jti_key_byte (ctx_tag ?ctx)) (dp_jti (demo_proof 160)) = demo_key"
    by (simp add: jti_key_new_def demo_context_def as_jti_key_byte_def demo_auth_ext_def
        demo_token_ext_def demo_key_def demo_proof_def)
  moreover have "instant_checked_add 0 (jti_replay_window_secs (ctx_auth_config ?ctx)) = Some (151 * nanos_per_sec)"
    by (simp add: instant_checked_add_def demo_wide_config_def nanos_per_sec_def)
  ultimately obtain st1 where first: "?v 100 0 (replay_store_new auth_config_default) = (Inr (demo_proof 160), st1)"
    by (simp add: validate_proof_def demo_first_insert)
  have cfg: "auth_config_ok (ctx_auth_config ?ctx)"
    and win: "unat (dpop_freshness_secs (ctx_auth_config ?ctx)) + 2 * unat (clock_skew_secs (ctx_auth_config ?ctx)) + 1
      \<le> unat (jti_replay_window_secs (ctx_auth_config ?ctx))"
    by (simp_all add: demo_wide_config_def auth_config_ok_def auth_config_default_def)
  have clocks: "clocks_agree (100 * nanos_per_sec) (Some 100) 0"
      "clocks_agree (100 * nanos_per_sec) (Some 200) (100 * nanos_per_sec)"
    by (simp_all add: clocks_agree_def nanos_per_sec_def)
  have ticks: "now \<le> 100 * nanos_per_sec" if "OpTick now \<in> set [OpTick (91 * nanos_per_sec)]" for now
    using that by simp
  obtain r st2 where second: "?v 200 (100 * nanos_per_sec) (fold run_op [OpTick (91 * nanos_per_sec)] st1) = (r, st2)"
    by force
  from no_proof_accepted_twice [OF cfg win demo_proof_payload replay_inv_new clocks first ticks second]
    first second show ?thesis by auto
qed

text \<open>
  C18. The window that the validator accepts (freshness plus skew, the default) is not enough: with
  the default settings, a proof issued 60 seconds ahead of the server's clock is accepted at second
  100, its entry is removed by the clean-up at second 191, and at second 200 the very same proof
  is accepted again.
\<close>

theorem default_window_admits_replay:
  "\<exists>st1 st2.
     auth_config_ok (ctx_auth_config demo_vault_context) \<and>
     validate_proof (demo_auth_ext 160) (Some 100) 0 demo_vault_context
       (replay_store_new auth_config_default) ''prf'' ''GET'' (demo_url ''http://h/x'') (demo_token demo_jkt) ''tok'' =
       (Inr (demo_proof 160), st1) \<and>
     validate_proof (demo_auth_ext 160) (Some 200) (100 * nanos_per_sec) demo_vault_context
       (maintenance_tick st1 (91 * nanos_per_sec)) ''prf'' ''GET'' (demo_url ''http://h/x'') (demo_token demo_jkt) ''tok'' =
       (Inr (demo_proof 160), st2) \<and>
     clocks_agree (100 * nanos_per_sec) (Some 100) 0 \<and>
     clocks_agree (100 * nanos_per_sec) (Some 200) (100 * nanos_per_sec)"
proof -
  have w: "iat_in_window auth_config_default 100 160" "iat_in_window auth_config_default 200 160"
    by (simp_all add: iat_in_window_def auth_config_default_def saturating_sub_def)
  let ?d = "90 * nanos_per_sec"
  let ?st1 = "\<lparr>rs_entries = [(demo_key, ?d)], rs_queue = [(?d, demo_key)], rs_len = 1,
               rs_config = auth_config_default\<rparr>"
  have "maintenance_tick ?st1 (91 * nanos_per_sec) = replay_store_new auth_config_default"
    by (simp add: maintenance_tick_def tick_drain_def tick_remove_def replay_store_new_def
        drain_expired.simps heap_peek_def heap_pop_def nanos_per_sec_def)
  then have "validate_proof (demo_auth_ext 160) (Some 200) (100 * nanos_per_sec) demo_vault_context
       (maintenance_tick ?st1 (91 * nanos_per_sec)) ''prf'' ''GET'' (demo_url ''http://h/x'') (demo_token demo_jkt) ''tok'' =
       (Inr (demo_proof 160), snd (try_insert (replay_store_new auth_config_default) demo_key
          (100 * nanos_per_sec + 90 * nanos_per_sec)))"
    using demo_validate_proof [OF w(2), of "100 * nanos_per_sec"]
    by (simp add: demo_first_insert nanos_per_sec_def)
  moreover have "validate_proof (demo_auth_ext 160) (Some 100) 0 demo_vault_context
       (replay_store_new auth_config_default) ''prf'' ''GET'' (demo_url ''http://h/x'') (demo_token demo_jkt) ''tok'' =
       (Inr (demo_proof 160), ?st1)"
    using demo_validate_proof [OF w(1), of 0] by (simp add: demo_first_insert)
  moreover have "auth_config_ok (ctx_auth_config demo_vault_context)"
    by (simp add: demo_context_def auth_config_default_ok)
  moreover have "clocks_agree (100 * nanos_per_sec) (Some 100) 0"
      "clocks_agree (100 * nanos_per_sec) (Some 200) (100 * nanos_per_sec)"
    by (simp_all add: clocks_agree_def nanos_per_sec_def)
  ultimately show ?thesis by blast
qed

end
