(* ===== verification/Guard.thy ===== *)
theory Guard
  imports Dpop
begin

section \<open>The authentication guards (auth/middleware.rs, auth/subject.rs)\<close>

text \<open>
  The guards wrap a service, a function from a request and the server state to a response, the log
  events and the new state. They are modelled as functions on services, as the \<^verbatim>\<open>Layer\<close>
  implementations are; cloning and polling of the inner service are plumbing of \<^verbatim>\<open>tower\<close> and have
  no counterpart. The state has the two contexts, the replay store and, abstractly, whatever the
  handlers behind the guards work on.
\<close>

record 'fs server_state =
  ss_contexts :: ctx_heap
  ss_replay :: jti_replay_store
  ss_fs :: 'fs

type_synonym ('body, 'fs) service =
  "'body request \<Rightarrow> 'fs server_state \<Rightarrow> (response \<times> log_event list \<times> 'fs server_state) outcome"

text \<open>The clocks and the refresh environment that one authentication meets.\<close>

record auth_env =
  ae_refresh :: refresh_env
  ae_token_clock :: "u64 option"
  ae_proof_clock :: "u64 option"
  ae_instant :: instant

definition build_effective_uri :: "'dk ext \<Rightarrow> 'body request \<Rightarrow> auth_failure + url" where
  "build_effective_uri X r =
     (let scheme = (case ext_effective_address r of
            Some e \<Rightarrow> (case ea_scheme e of SchemeHttps \<Rightarrow> ''https'' | SchemeHttp \<Rightarrow> ''http'')
          | None \<Rightarrow> ''http'') in
      bind_result (ok_or (opt_or (header_str r ''host'') (req_authority r)) ProofHtuMismatch) (\<lambda>authority.
      let path_and_query = unwrap_or (req_path_and_query r) ''/'';
          raw = scheme @ ''://'' @ authority @ path_and_query in
      map_err (\<lambda>_. ProofHtuMismatch) (url_parse X raw)))"

text \<open>The two headers: the token after the scheme, and the proof.\<close>

definition extract_token :: "'body request \<Rightarrow> auth_failure + string" where
  "extract_token r =
     bind_result (ok_or (header_str r ''authorization'') MissingToken) (\<lambda>auth_value.
     bind_result (ok_or (split_once CHR '' '' auth_value) MissingToken) (\<lambda>(scheme, rest).
     if \<not> eq_ignore_ascii_case scheme ''DPoP'' then Inl MissingToken
     else (let raw_token = trim rest in
           if raw_token = [] then Inl MissingToken else Inr raw_token)))"

definition extract_proof :: "'body request \<Rightarrow> auth_failure + string" where
  "extract_proof r =
     bind_result (ok_or (header_str r ''dpop'') MissingProof) (\<lambda>v.
     let raw_proof = trim v in
     if raw_proof = [] then Inl MissingProof else Inr raw_proof)"

definition authenticate_common ::
    "'dk ext \<Rightarrow> auth_env \<Rightarrow> nat \<Rightarrow> oidc_context \<Rightarrow> 'body request \<Rightarrow> ctx_heap \<Rightarrow> jti_replay_store \<Rightarrow>
     ((auth_failure + string) \<times> ctx_heap \<times> jti_replay_store) outcome" where
  "authenticate_common X A a ctx r h store =
     (case extract_token r of
        Inl e \<Rightarrow> Returns (Inl e, h, store)
      | Inr raw_token \<Rightarrow>
     (case extract_proof r of
        Inl e \<Rightarrow> Returns (Inl e, h, store)
      | Inr raw_proof \<Rightarrow>
     (case build_effective_uri X r of
        Inl e \<Rightarrow> Returns (Inl e, h, store)
      | Inr effective_uri \<Rightarrow>
     bind_outcome (validate_token X (ae_refresh A) (ae_token_clock A) h a ctx raw_token) (\<lambda>(res, h').
     case res of
        Inl e \<Rightarrow> Returns (Inl e, h', store)
      | Inr at \<Rightarrow>
          (let (res', store') = validate_proof X (ae_proof_clock A) (ae_instant A) ctx store
                 raw_proof (req_method r) effective_uri at raw_token in
           Returns (map_sum id (\<lambda>_. at_sub at) res', h', store'))))))"

text \<open>What a guard answers when authentication fails.\<close>

definition failure_response :: "auth_failure \<Rightarrow> response" where
  [handler_defs]: "failure_response f =
     (if f = AuthMemoryPressure then respond_503_memory_pressure else respond_401)"

definition guard_call ::
    "(string \<Rightarrow> 'body request \<Rightarrow> 'body request) \<Rightarrow> (string \<Rightarrow> bool) \<Rightarrow> 'dk ext \<Rightarrow> auth_env \<Rightarrow> nat \<Rightarrow>
     oidc_context \<Rightarrow> ('body, 'fs) service \<Rightarrow> ('body, 'fs) service" where
  "guard_call insert_subject auth_method X A a ctx inner r s =
     (if \<not> auth_method (req_method r) then inner r s
      else bind_outcome (authenticate_common X A a ctx r (ss_contexts s) (ss_replay s)) (\<lambda>(res, h', store').
           let s' = s\<lparr>ss_contexts := h', ss_replay := store'\<rparr> in
           case res of
             Inr sub \<Rightarrow> inner (insert_subject sub r) s'
           | Inl failure \<Rightarrow>
               Returns (failure_response failure,
                        [log_failure failure (effective_addr r) (audience_name (ctx_tag ctx))], s')))"

definition vault_guard_call ::
    "string list \<Rightarrow> 'dk ext \<Rightarrow> auth_env \<Rightarrow> nat \<Rightarrow> oidc_context \<Rightarrow> ('body, 'fs) service \<Rightarrow> ('body, 'fs) service" where
  "vault_guard_call auth_methods =
     guard_call (\<lambda>sub r. r\<lparr>ext_vault_subject := Some (vault_subject_new sub)\<rparr>) (\<lambda>m. m \<in> set auth_methods)"

definition admin_guard_call ::
    "'dk ext \<Rightarrow> auth_env \<Rightarrow> nat \<Rightarrow> oidc_context \<Rightarrow> ('body, 'fs) service \<Rightarrow> ('body, 'fs) service" where
  "admin_guard_call =
     guard_call (\<lambda>sub r. r\<lparr>ext_admin_subject := Some (admin_subject_new sub)\<rparr>) (\<lambda>m. m = ''GET'')"

text \<open>
  The guards as layers: the context that the guard was built with and, for the vault guard, the methods that it
  authenticates. The replay store that both hold is the one of the server state.
\<close>

record vault_guard =
  vg_ctx :: "nat \<times> oidc_context"
  vg_auth_methods :: "string list"

definition vault_guard_new :: "nat \<times> oidc_context \<Rightarrow> vault_guard" where
  "vault_guard_new ctx = \<lparr>vg_ctx = ctx, vg_auth_methods = [''GET'']\<rparr>"

definition with_methods :: "string list \<Rightarrow> vault_guard \<Rightarrow> vault_guard" where
  "with_methods methods g = g\<lparr>vg_auth_methods := methods\<rparr>"

definition vault_guard_layer ::
    "'dk ext \<Rightarrow> auth_env \<Rightarrow> vault_guard \<Rightarrow> ('body, 'fs) service \<Rightarrow> ('body, 'fs) service" where
  "vault_guard_layer X A g inner = vault_guard_call (vg_auth_methods g) X A (fst (vg_ctx g)) (snd (vg_ctx g)) inner"

record admin_guard =
  ag_ctx :: "nat \<times> oidc_context"

definition admin_guard_new :: "nat \<times> oidc_context \<Rightarrow> admin_guard" where
  "admin_guard_new ctx = \<lparr>ag_ctx = ctx\<rparr>"

definition admin_guard_layer ::
    "'dk ext \<Rightarrow> auth_env \<Rightarrow> admin_guard \<Rightarrow> ('body, 'fs) service \<Rightarrow> ('body, 'fs) service" where
  "admin_guard_layer X A g inner = admin_guard_call X A (fst (ag_ctx g)) (snd (ag_ctx g)) inner"

lemma guard_layer_simps [simp]:
  "vault_guard_layer X A (vault_guard_new v) inner = vault_guard_call [''GET''] X A (fst v) (snd v) inner"
  "vault_guard_layer X A (with_methods ms (vault_guard_new v)) inner = vault_guard_call ms X A (fst v) (snd v) inner"
  "admin_guard_layer X A (admin_guard_new v) inner = admin_guard_call X A (fst v) (snd v) inner"
  by (simp_all add: vault_guard_layer_def vault_guard_new_def with_methods_def admin_guard_layer_def admin_guard_new_def)

text \<open>The extractors of auth/subject.rs.\<close>

definition vault_subject_from_request :: "'body request \<Rightarrow> response + vault_subject" where
  "vault_subject_from_request r = ok_or (ext_vault_subject r) respond_401"

definition admin_subject_from_request :: "'body request \<Rightarrow> response + admin_subject" where
  "admin_subject_from_request r = ok_or (ext_admin_subject r) respond_401"

subsection \<open>What authentication establishes\<close>

text \<open>
  The request carries a token that a key of the given key set verifies and whose claims fit the
  context, and a proof that fits the token, the context and the request.
\<close>

definition current_keys :: "ctx_heap \<Rightarrow> nat \<Rightarrow> oidc_context \<Rightarrow> jwks" where
  "current_keys h a ctx = (case h a of None \<Rightarrow> ctx_jwks ctx | Some c \<Rightarrow> ctx_jwks c)"

definition authenticated ::
    "'dk ext \<Rightarrow> auth_env \<Rightarrow> oidc_context \<Rightarrow> jwks \<Rightarrow> 'body request \<Rightarrow> string \<Rightarrow> bool" where
  "authenticated X A ctx keys r sub \<longleftrightarrow>
     (\<exists>raw_token raw_proof uri header alg c dk claims at p.
        extract_token r = Inr raw_token \<and> extract_proof r = Inr raw_proof \<and>
        build_effective_uri X r = Inr uri \<and>
        jwt_decode_header X raw_token = Inr header \<and> hdr_alg header = to_jwt_algorithm alg \<and>
        c \<in> set (lookup_candidates keys (hdr_kid header)) \<and> decoding_key_from_jwk X (jwk_raw c) = Inr dk \<and>
        jwt_decode_token X raw_token dk (token_validation X alg (clock_skew_secs (ctx_auth_config ctx))) = Inr claims \<and>
        token_fits X (ae_token_clock A) ctx claims at \<and> at_sub at = sub \<and>
        proof_fits X (ae_proof_clock A) ctx raw_proof (req_method r) uri at raw_token p)"

lemma authenticate_common_parts:
  assumes "authenticate_common X A a ctx r h st = Returns (Inr sub, h', st')"
  obtains raw_token raw_proof uri at p where
    "extract_token r = Inr raw_token" "extract_proof r = Inr raw_proof" "build_effective_uri X r = Inr uri"
    "validate_token X (ae_refresh A) (ae_token_clock A) h a ctx raw_token = Returns (Inr at, h')"
    "validate_proof X (ae_proof_clock A) (ae_instant A) ctx st raw_proof (req_method r) uri at raw_token = (Inr p, st')"
    "sub = at_sub at"
  using assms
  by (auto simp: authenticate_common_def bind_outcome_def map_sum_def
      split: sum.splits outcome.splits prod.splits)

lemma authenticate_common_Inr:
  assumes "subtle_decides_eq X" and "sha256_len32 X"
    and "authenticate_common X A a ctx r h st = Returns (Inr sub, h', st')"
  shows "authenticated X A ctx (current_keys h' a ctx) r sub"
proof -
  from assms(3) obtain raw_token raw_proof uri at p where
    e: "extract_token r = Inr raw_token" "extract_proof r = Inr raw_proof"
       "build_effective_uri X r = Inr uri" and
    t: "validate_token X (ae_refresh A) (ae_token_clock A) h a ctx raw_token = Returns (Inr at, h')" and
    p: "validate_proof X (ae_proof_clock A) (ae_instant A) ctx st raw_proof (req_method r) uri at raw_token =
      (Inr p, st')" and sub: "sub = at_sub at"
    by (rule authenticate_common_parts)
  obtain header alg claims c dk where
    c: "jwt_decode_header X raw_token = Inr header" "hdr_alg header = to_jwt_algorithm alg"
      "c \<in> set (lookup_candidates (current_keys h' a ctx) (hdr_kid header))"
      "decoding_key_from_jwk X (jwk_raw c) = Inr dk"
      "jwt_decode_token X raw_token dk (token_validation X alg (clock_skew_secs (ctx_auth_config ctx))) = Inr claims"
      "token_fits X (ae_token_clock A) ctx claims at"
    by (rule validate_token_Inr [OF assms(1) t]) (simp add: current_keys_def)
  have "length (cnf_jkt at) = 32" using c(6) by (auto simp: token_fits_def Let_def)
  then have "proof_fits X (ae_proof_clock A) ctx raw_proof (req_method r) uri at raw_token p"
    using validate_proof_Inr(1) [OF p] check_proof_iff [OF assms(1,2)] by blast
  with e c sub show ?thesis unfolding authenticated_def by blast
qed

lemma authenticate_common_Inl:
  assumes "authenticate_common X A a ctx r h st = Returns (Inl e, h', st')"
  shows "st' = st"
  using assms
  by (auto simp: authenticate_common_def bind_outcome_def map_sum_def dest: validate_proof_Inl
      split: sum.splits outcome.splits prod.splits)

lemma guard_call_cases:
  assumes "guard_call ins am X A a ctx inner r s = Returns out"
  obtains (bypass) "\<not> am (req_method r)" "inner r s = Returns out"
    | (passed) sub h' st' where "am (req_method r)"
        "authenticate_common X A a ctx r (ss_contexts s) (ss_replay s) = Returns (Inr sub, h', st')"
        "inner (ins sub r) (s\<lparr>ss_contexts := h', ss_replay := st'\<rparr>) = Returns out"
    | (failed) f h' where "am (req_method r)"
        "authenticate_common X A a ctx r (ss_contexts s) (ss_replay s) = Returns (Inl f, h', ss_replay s)"
        "out = (failure_response f, [log_failure f (effective_addr r) (audience_name (ctx_tag ctx))],
                s\<lparr>ss_contexts := h'\<rparr>)"
proof (cases "am (req_method r)")
  case False
  with assms bypass show thesis by (simp add: guard_call_def)
next
  case True
  obtain res h' st' where
    a: "authenticate_common X A a ctx r (ss_contexts s) (ss_replay s) = Returns (res, h', st')"
    using assms True
    by (cases "authenticate_common X A a ctx r (ss_contexts s) (ss_replay s)") (auto simp: guard_call_def)
  show thesis
  proof (cases res)
    case (Inl f)
    have "st' = ss_replay s" using a Inl authenticate_common_Inl by blast
    with Inl a assms True failed [of f h'] show thesis by (simp add: guard_call_def Let_def)
  next
    case (Inr sub)
    with a assms True passed [of sub h' st'] show thesis by (simp add: guard_call_def Let_def)
  qed
qed

subsection \<open>Properties\<close>

definition demo_request :: "string \<Rightarrow> string \<Rightarrow> unit request" where
  "demo_request m path = \<lparr>req_method = m,
     req_headers = [(''host'', Some ''h''), (''authorization'', Some ''DPoP tok''), (''dpop'', Some ''prf'')],
     req_authority = None, req_path = path, req_path_and_query = Some path, ext_connect_info = None,
     ext_effective_address = None, ext_vault_subject = None, ext_admin_subject = None, req_body = ()\<rparr>"

definition demo_auth_env :: auth_env where
  "demo_auth_env = \<lparr>ae_refresh = demo_refresh_env 100, ae_token_clock = Some 100,
     ae_proof_clock = Some 100, ae_instant = 0\<rparr>"

definition demo_state :: "unit server_state" where
  "demo_state = \<lparr>ss_contexts = demo_ctx_heap, ss_replay = replay_store_new auth_config_default, ss_fs = ()\<rparr>"

lemma demo_extract:
  "extract_token (demo_request m path) = Inr ''tok''" "extract_proof (demo_request m path) = Inr ''prf''"
proof -
  have "trim ''tok'' = ''tok''" "trim ''prf'' = ''prf''"
    by (rule trim_visible, simp)+
  then show "extract_token (demo_request m path) = Inr ''tok''" "extract_proof (demo_request m path) = Inr ''prf''"
    by (simp_all add: extract_token_def extract_proof_def demo_request_def header_str_def
        eq_ignore_ascii_case_def)
qed

lemma demo_effective_uri:
  "build_effective_uri (demo_auth_ext i) (demo_request m path) = Inr (demo_url (''http://h'' @ path))"
  by (simp add: build_effective_uri_def demo_request_def header_str_def demo_auth_ext_def demo_token_ext_def)

lemma demo_validate_token_auth:
  "validate_token (demo_auth_ext i) E (Some 100) demo_ctx_heap vault_addr demo_vault_context ''tok'' =
    Returns (Inr (demo_token demo_jkt), demo_ctx_heap)"
proof -
  have "token_fits (demo_auth_ext i) (Some 100) demo_vault_context (demo_claims demo_jkt) (demo_token demo_jkt)"
    using demo_token_fits [OF demo_jkt_length]
    by (simp add: token_fits_def Let_def demo_auth_ext_def demo_token_ext_def)
  then have "check_token_claims (demo_auth_ext i) (Some 100) demo_vault_context (demo_claims demo_jkt) =
      Inr (demo_token demo_jkt)"
    using check_token_claims_iff [OF demo_auth_ext_laws(1)] by blast
  then show ?thesis
    by (simp add: validate_token_def Let_def demo_auth_ext_def demo_token_ext_def allowlist_alg_def
        demo_heap_def try_decode_with_current_jwks_def demo_context_def demo_candidates)
qed

lemma demo_authenticate:
  "authenticate_common (demo_auth_ext 100) demo_auth_env vault_addr demo_vault_context
     (demo_request ''GET'' ''/x'') demo_ctx_heap (replay_store_new auth_config_default) =
   Returns (Inr ''u'', demo_ctx_heap, snd (try_insert (replay_store_new auth_config_default) demo_key (90 * nanos_per_sec)))"
proof -
  have w: "iat_in_window auth_config_default 100 100"
    by (simp add: iat_in_window_def auth_config_default_def saturating_sub_def)
  have m: "req_method (demo_request ''GET'' ''/x'') = ''GET''" by (simp add: demo_request_def)
  have "at_sub (demo_token demo_jkt) = ''u''" by (simp add: demo_token_def)
  then show ?thesis
    using demo_validate_proof [OF w, of 0]
    by (simp add: authenticate_common_def demo_extract demo_effective_uri demo_auth_env_def
        demo_validate_token_auth demo_first_insert m)
qed

text \<open>
  Behind the vault guard, a request with one of the guarded methods reaches the handler only
  when its token and its proof are accepted by the vault context, and then with the subject of that
  token; otherwise the handler does not run and the answer is the failure response, with the replay
  store and the handlers' state as they were.
\<close>

theorem vault_guard_sound:
  assumes "subtle_decides_eq X" and "sha256_len32 X" and "req_method r \<in> set methods"
    and "vault_guard_call methods X A a ctx inner r s = Returns (resp, log, s')"
  shows "(\<exists>sub s1. authenticated X A ctx (current_keys (ss_contexts s1) a ctx) r sub \<and> ss_fs s1 = ss_fs s \<and>
            inner (r\<lparr>ext_vault_subject := Some (vault_subject_new sub)\<rparr>) s1 = Returns (resp, log, s')) \<or>
         (\<exists>f. resp = failure_response f \<and>
            log = [log_failure f (effective_addr r) (audience_name (ctx_tag ctx))] \<and>
            ss_fs s' = ss_fs s \<and> ss_replay s' = ss_replay s)"
  using assms(4) [unfolded vault_guard_call_def]
proof (cases rule: guard_call_cases)
  case bypass
  with assms(3) show ?thesis by simp
next
  case (passed sub h' st')
  have "authenticated X A ctx (current_keys h' a ctx) r sub" by (rule authenticate_common_Inr [OF assms(1,2) passed(2)])
  with passed(3) show ?thesis
    by (intro disjI1 exI [of _ sub] exI [of _ "s\<lparr>ss_contexts := h', ss_replay := st'\<rparr>"]) simp
next
  case (failed f h')
  then show ?thesis by auto
qed

theorem vault_guard_sound_witness:
  "\<exists>s1. (\<lambda>r s. Returns (respond_401, [], s)) (demo_request ''GET'' ''/x'') s1 =
     vault_guard_call [''GET''] (demo_auth_ext 100) demo_auth_env vault_addr demo_vault_context
       (\<lambda>r s. Returns (respond_401, [], s)) (demo_request ''GET'' ''/x'') demo_state \<and>
   (\<exists>keys sub. authenticated (demo_auth_ext 100) demo_auth_env demo_vault_context keys (demo_request ''GET'' ''/x'') sub)"
proof -
  let ?inner = "\<lambda>r s. Returns (respond_401, [], s)"
  let ?s1 = "demo_state\<lparr>ss_replay := snd (try_insert (replay_store_new auth_config_default) demo_key (90 * nanos_per_sec))\<rparr>"
  have m: "req_method (demo_request ''GET'' ''/x'') \<in> set [''GET'']" by (simp add: demo_request_def)
  have run: "vault_guard_call [''GET''] (demo_auth_ext 100) demo_auth_env vault_addr demo_vault_context
      ?inner (demo_request ''GET'' ''/x'') demo_state = Returns (respond_401, [], ?s1)"
    using m by (simp add: vault_guard_call_def guard_call_def demo_state_def demo_authenticate Let_def)
  from vault_guard_sound [OF demo_auth_ext_laws m run] run show ?thesis by auto
qed

text \<open>
  C29. Failures are uniform: two requests that fail authentication at any guards of the server, for
  whatever reasons and with whatever tokens, proofs and states, get the same response unless exactly
  one of them met memory pressure; that response is an empty 401 with the one fixed challenge; and
  the log entries differ at most in the category, the audience and the client address.
\<close>

theorem failures_uniform:
  assumes "authenticate_common X A a ctx r (ss_contexts s) (ss_replay s) = Returns (Inl f, h, st)"
    and "authenticate_common X' A' a' ctx' r' (ss_contexts s') (ss_replay s') = Returns (Inl f', h', st')"
    and "f \<noteq> AuthMemoryPressure" and "f' \<noteq> AuthMemoryPressure" and "am (req_method r)" and "am' (req_method r')"
    and "guard_call ins am X A a ctx inner r s = Returns (resp, log, s1)"
    and "guard_call ins' am' X' A' a' ctx' inner' r' s' = Returns (resp', log', s1')"
  shows "resp = resp' \<and> resp_status resp = 401 \<and> resp_body resp = [] \<and>
    resp_headers resp = [(''www-authenticate'', www_authenticate_value), (''content-length'', ''0'')] \<and>
    (failure_category f = failure_category f' \<and> ctx_tag ctx = ctx_tag ctx' \<and>
     effective_addr r = effective_addr r' \<longrightarrow> log = log')"
proof -
  have "resp = respond_401" "log = [log_failure f (effective_addr r) (audience_name (ctx_tag ctx))]"
    using assms(1,3,5,7) by (auto simp: guard_call_def Let_def failure_response_def)
  moreover have "resp' = respond_401"
      "log' = [log_failure f' (effective_addr r') (audience_name (ctx_tag ctx'))]"
    using assms(2,4,6,8) by (auto simp: guard_call_def Let_def failure_response_def)
  ultimately show ?thesis by (simp add: respond_401_def log_failure_def)
qed

definition demo_bare_request :: "unit request" where
  "demo_bare_request = (demo_request ''GET'' ''/x'')\<lparr>req_headers := []\<rparr>"

theorem failures_uniform_witness:
  "\<exists>log log' s1 s1'.
     vault_guard_call [''GET''] demo_ext demo_auth_env vault_addr demo_vault_context
       (\<lambda>r s. Panics) demo_bare_request demo_state = Returns (respond_401, log, s1) \<and>
     admin_guard_call demo_ext demo_auth_env admin_addr demo_admin_context
       (\<lambda>r s. Panics) (demo_request ''GET'' ''/x'') demo_state = Returns (respond_401, log', s1')"
proof -
  have a: "authenticate_common demo_ext demo_auth_env vault_addr demo_vault_context demo_bare_request
      (ss_contexts demo_state) (ss_replay demo_state) =
      Returns (Inl MissingToken, ss_contexts demo_state, ss_replay demo_state)"
    by (simp add: authenticate_common_def extract_token_def demo_bare_request_def header_str_def)
  have uri: "build_effective_uri demo_ext (demo_request m p) = Inr (demo_url (''http://h'' @ p))" for m p
    by (simp add: build_effective_uri_def demo_request_def header_str_def)
  have b: "authenticate_common demo_ext demo_auth_env admin_addr demo_admin_context (demo_request ''GET'' ''/x'')
      (ss_contexts demo_state) (ss_replay demo_state) =
      Returns (Inl InvalidAlg, ss_contexts demo_state, ss_replay demo_state)"
    by (simp add: authenticate_common_def demo_extract uri validate_token_def)
      (simp add: demo_ext_def crypto_ext.defs)
  have g: "req_method demo_bare_request = ''GET''" "req_method (demo_request ''GET'' ''/x'') = ''GET''"
    by (simp_all add: demo_bare_request_def demo_request_def)
  obtain resp log s1 where r1: "guard_call (\<lambda>sub r. r\<lparr>ext_vault_subject := Some (vault_subject_new sub)\<rparr>)
      (\<lambda>m. m \<in> set [''GET'']) demo_ext demo_auth_env vault_addr demo_vault_context (\<lambda>r s. Panics)
      demo_bare_request demo_state = Returns (resp, log, s1)"
    using a by (simp add: guard_call_def g)
  obtain resp' log' s1' where r2: "guard_call (\<lambda>sub r. r\<lparr>ext_admin_subject := Some (admin_subject_new sub)\<rparr>)
      (\<lambda>m. m = ''GET'') demo_ext demo_auth_env admin_addr demo_admin_context (\<lambda>r s. Panics)
      (demo_request ''GET'' ''/x'') demo_state = Returns (resp', log', s1')"
    using b by (simp add: guard_call_def g)
  from failures_uniform [OF a b _ _ _ _ r1 r2] have "resp = resp'" by (simp add: g)
  moreover have "resp = respond_401" using r1 a by (auto simp: guard_call_def g Let_def failure_response_def)
  ultimately show ?thesis using r1 r2 by (auto simp: vault_guard_call_def admin_guard_call_def)
qed

end
