(* ===== verification/Proxy.thy ===== *)
theory Proxy
  imports Guard Config
begin

section \<open>Proxy trust (proxy_trust/mod.rs, proxy_trust/resolve.rs)\<close>

text \<open>
  Which address and scheme a request is taken to come from. Membership in a network is a function
  of the crate \<^verbatim>\<open>ipnet\<close>, here an argument.
\<close>

definition resolve_effective_address ::
    "('net \<Rightarrow> ip_addr \<Rightarrow> bool) \<Rightarrow> ip_addr \<Rightarrow> effective_scheme \<Rightarrow> 'net list \<Rightarrow> string option \<Rightarrow> string option \<Rightarrow>
     effective_address" where
  "resolve_effective_address net_contains peer_addr peer_scheme trusted x_forwarded_for x_forwarded_proto =
     (if trusted = [] then \<lparr>ea_addr = peer_addr, ea_scheme = peer_scheme\<rparr>
      else if \<not> list_ex (\<lambda>net. net_contains net peer_addr) trusted
      then \<lparr>ea_addr = peer_addr, ea_scheme = peer_scheme\<rparr>
      else
        (let addr = (case x_forwarded_for of
               Some s \<Rightarrow> unwrap_or (parse_ip_addr (trim (hd (split_on CHR '','' s)))) peer_addr
             | None \<Rightarrow> peer_addr);
             scheme = (case x_forwarded_proto of
               Some s \<Rightarrow> if eq_ignore_ascii_case s ''https'' then SchemeHttps
                         else if eq_ignore_ascii_case s ''http'' then SchemeHttp else peer_scheme
             | None \<Rightarrow> peer_scheme)
         in \<lparr>ea_addr = addr, ea_scheme = scheme\<rparr>))"

definition request_effective_address ::
    "('net \<Rightarrow> ip_addr \<Rightarrow> bool) \<Rightarrow> 'net list \<Rightarrow> 'body request \<Rightarrow> effective_address" where
  "request_effective_address net_contains trusted r =
     (let peer_addr = (case ext_connect_info r of Some sa \<Rightarrow> socket_ip sa | None \<Rightarrow> localhost) in
      resolve_effective_address net_contains peer_addr SchemeHttp trusted
        (header_str r ''x-forwarded-for'') (header_str r ''x-forwarded-proto''))"

definition proxy_middleware ::
    "('net \<Rightarrow> ip_addr \<Rightarrow> bool) \<Rightarrow> 'net list \<Rightarrow> ('body, 'fs) service \<Rightarrow> ('body, 'fs) service" where
  "proxy_middleware net_contains trusted inner r s =
     inner (r\<lparr>ext_effective_address := Some (request_effective_address net_contains trusted r)\<rparr>) s"

lemma split_on_neq_Nil: "split_on d s \<noteq> []"
  by (induction d s rule: split_on.induct) (auto split: list.splits)

lemma split_on_hd: "hd (split_on d s) = takeWhile (\<lambda>c. c \<noteq> d) s"
  by (induction d s rule: split_on.induct) (auto split: list.splits simp: split_on_neq_Nil)

subsection \<open>Properties\<close>

text \<open>
  C39. Forwarded headers count only when the direct peer is in a trusted network. A resolved address that
  is not the peer's is the leftmost entry of \<open>X-Forwarded-For\<close>, parsed; a resolved scheme that is not
  http was named by \<open>X-Forwarded-Proto\<close>; both only from a trusted peer. Conversely a trusted peer's
  leftmost entry is used when it parses, whatever follows it.
\<close>

theorem forwarded_headers_need_trust:
  fixes r :: "'body request"
  assumes "ext_connect_info r = Some sa" and "e = request_effective_address net_contains trusted r"
  shows "(ea_addr e \<noteq> socket_ip sa \<longrightarrow> (\<exists>net \<in> set trusted. net_contains net (socket_ip sa)) \<and>
      (\<exists>xff. header_str r ''x-forwarded-for'' = Some xff \<and>
         parse_ip_addr (trim (takeWhile (\<lambda>c. c \<noteq> CHR '','') xff)) = Some (ea_addr e))) \<and>
    (ea_scheme e \<noteq> SchemeHttp \<longrightarrow> (\<exists>net \<in> set trusted. net_contains net (socket_ip sa)) \<and>
      (\<exists>xfp. header_str r ''x-forwarded-proto'' = Some xfp \<and> eq_ignore_ascii_case xfp ''https'')) \<and>
    (\<forall>net first rest a. net \<in> set trusted \<and> net_contains net (socket_ip sa) \<and> CHR '','' \<notin> set first \<and>
      header_str r ''x-forwarded-for'' = Some (first @ CHR '','' # rest) \<and>
      parse_ip_addr (trim first) = Some a \<longrightarrow> ea_addr e = a)"
proof -
  have lead: "takeWhile (\<lambda>c. c \<noteq> CHR '','') (first @ CHR '','' # rest) = first" if "CHR '','' \<notin> set first"
    for first rest :: string
    using that by (subst takeWhile_append2) auto
  let ?P = "\<lambda>net. net_contains net (socket_ip sa)"
  have e: "e = (if trusted = [] \<or> \<not> list_ex ?P trusted then \<lparr>ea_addr = socket_ip sa, ea_scheme = SchemeHttp\<rparr>
      else \<lparr>ea_addr = (case header_str r ''x-forwarded-for'' of
               Some s \<Rightarrow> unwrap_or (parse_ip_addr (trim (takeWhile (\<lambda>c. c \<noteq> CHR '','') s))) (socket_ip sa)
             | None \<Rightarrow> socket_ip sa),
           ea_scheme = (case header_str r ''x-forwarded-proto'' of
               Some s \<Rightarrow> if eq_ignore_ascii_case s ''https'' then SchemeHttps else SchemeHttp
             | None \<Rightarrow> SchemeHttp)\<rparr>)"
    unfolding assms(2) request_effective_address_def resolve_effective_address_def assms(1) split_on_hd Let_def
    by (simp split: option.splits)
  show ?thesis
  proof (cases "\<exists>net \<in> set trusted. ?P net")
    case True
    then have e': "ea_addr e = (case header_str r ''x-forwarded-for'' of
               Some s \<Rightarrow> unwrap_or (parse_ip_addr (trim (takeWhile (\<lambda>c. c \<noteq> CHR '','') s))) (socket_ip sa)
             | None \<Rightarrow> socket_ip sa)"
      "ea_scheme e = (case header_str r ''x-forwarded-proto'' of
               Some s \<Rightarrow> if eq_ignore_ascii_case s ''https'' then SchemeHttps else SchemeHttp
             | None \<Rightarrow> SchemeHttp)"
      unfolding e list_ex_iff by auto
    show ?thesis
      unfolding e' using True lead by (auto simp: unwrap_or_def split: option.splits if_splits)
  next
    case False
    then have "e = \<lparr>ea_addr = socket_ip sa, ea_scheme = SchemeHttp\<rparr>" unfolding e list_ex_iff by auto
    then show ?thesis using False by auto
  qed
qed

definition demo_forwarded_request :: "unit request" where
  "demo_forwarded_request = (demo_request ''GET'' ''/x'')\<lparr>
     req_headers := [(''x-forwarded-for'', Some ''1.2.3.4,10.0.0.5''), (''x-forwarded-proto'', Some ''https'')],
     ext_connect_info := Some (SocketV4 [10, 0, 0, 5] 4711)\<rparr>"

text \<open>Witness: a trusted peer in front of a client.\<close>

theorem forwarded_headers_need_trust_witness:
  "ea_addr (request_effective_address (\<lambda>net a. a = net) [V4 [10, 0, 0, 5]] demo_forwarded_request) = V4 [1, 2, 3, 4]"
proof -
  have "trim ''1.2.3.4'' = ''1.2.3.4''" by (rule trim_visible) simp
  then have "parse_ip_addr (trim ''1.2.3.4'') = Some (V4 [1, 2, 3, 4])" by (simp only:) code_simp
  moreover have "header_str demo_forwarded_request ''x-forwarded-for'' = Some (''1.2.3.4'' @ CHR '','' # ''10.0.0.5'')"
    "ext_connect_info demo_forwarded_request = Some (SocketV4 [10, 0, 0, 5] 4711)"
    by (simp_all add: demo_forwarded_request_def header_str_def)
  ultimately show ?thesis
    using forwarded_headers_need_trust [OF _ refl, THEN conjunct2, THEN conjunct2, rule_format,
        of demo_forwarded_request "SocketV4 [10, 0, 0, 5] 4711" "V4 [10, 0, 0, 5]" "[V4 [10, 0, 0, 5]]"
           "\<lambda>net a. a = net" "''1.2.3.4''" "''10.0.0.5''" "V4 [1, 2, 3, 4]"]
    by (simp add: socket_ip_def)
qed

end
