(* ===== verification/Block_Id.thy ===== *)
theory Block_Id
  imports Prelude
begin

section \<open>Block identifiers and their paths (storage/block_id.rs, storage/path.rs)\<close>

text \<open>
  A block identifier is a string that \<open>parse\<close> accepted. The alphabet check is the branch-free
  arithmetic on bytes of the source; it is proved to decide the base64url alphabet. The paths that
  the local-filesystem provider derives from an identifier are proved to be injective and to stay
  below the root.
\<close>

unbundle bit_operations_syntax

definition block_id_len :: nat where
  "block_id_len = 43"

datatype block_id = BlockId (block_id_as_str: string)

definition bool_u8 :: "bool \<Rightarrow> u8" where
  "bool_u8 b = (if b then 1 else 0)"

definition is_base64url_byte :: "u8 \<Rightarrow> u8" where
  "is_base64url_byte b =
     (let upper = bool_u8 (b \<ge> 65 \<and> b \<le> 90);
          lower = bool_u8 (b \<ge> 97 \<and> b \<le> 122);
          digit = bool_u8 (b \<ge> 48 \<and> b \<le> 57);
          dash = bool_u8 (b = 45);
          underscore = bool_u8 (b = 95)
      in upper OR lower OR digit OR dash OR underscore)"

definition block_id_parse :: "string \<Rightarrow> block_id option" where
  "block_id_parse s =
     (if length s \<noteq> block_id_len then None
      else (let valid = foldl (\<lambda>v b. v AND is_base64url_byte b) 1 (as_bytes s) in
            if valid = 1 then Some (BlockId s) else None))"

definition shard_top :: "block_id \<Rightarrow> string" where
  "shard_top i = take 2 (block_id_as_str i)"

definition shard_mid :: "block_id \<Rightarrow> string" where
  "shard_mid i = drop 2 (take 4 (block_id_as_str i))"

text \<open>\<^verbatim>\<open>Path::join\<close> of the standard library on Unix.\<close>

definition path_join :: "string \<Rightarrow> string \<Rightarrow> string" where
  "path_join base p =
     (if p \<noteq> [] \<and> hd p = CHR ''/'' then p
      else if base = [] \<or> last base = CHR ''/'' then base @ p
      else base @ CHR ''/'' # p)"

definition shard_dir :: "string \<Rightarrow> block_id \<Rightarrow> string" where
  "shard_dir root i = path_join (path_join root (shard_top i)) (shard_mid i)"

definition block_path :: "string \<Rightarrow> block_id \<Rightarrow> string" where
  "block_path root i = path_join (shard_dir root i) (block_id_as_str i)"

subsection \<open>The alphabet\<close>

definition base64url_alphabet :: "char set" where
  "base64url_alphabet = set ''ABCDEFGHIJKLMNOPQRSTUVWXYZabcdefghijklmnopqrstuvwxyz0123456789-_''"

lemma is_base64url_byte_01: "is_base64url_byte b = 0 \<or> is_base64url_byte b = 1"
  by (simp add: is_base64url_byte_def bool_u8_def Let_def)

lemma is_base64url_byte_iff:
  "is_base64url_byte b = 1 \<longleftrightarrow>
     (65 \<le> b \<and> b \<le> 90) \<or> (97 \<le> b \<and> b \<le> 122) \<or> (48 \<le> b \<and> b \<le> 57) \<or> b = 45 \<or> b = 95"
  by (simp add: is_base64url_byte_def bool_u8_def Let_def)

lemma foldl_and_01:
  fixes v :: u8
  assumes "v = 0 \<or> v = 1"
  shows "foldl (\<lambda>v b. v AND is_base64url_byte b) v bs =
    (if v = 1 \<and> (\<forall>b \<in> set bs. is_base64url_byte b = 1) then 1 else 0)"
  using assms
proof (induction bs arbitrary: v)
  case (Cons b bs)
  have "v AND is_base64url_byte b = (if v = 1 \<and> is_base64url_byte b = 1 then 1 else 0)"
    using Cons.prems is_base64url_byte_01 [of b] by auto
  with Cons.IH [of "v AND is_base64url_byte b"] show ?case by auto
qed auto

lemma unat_of_char_u8: "unat (of_char c :: u8) = (of_char c :: nat)"
  by (simp add: of_char_def flip: unat_of_nat)

lemma alphabet_of_char: "c \<in> base64url_alphabet \<longleftrightarrow> (of_char c :: nat) \<in> of_char ` base64url_alphabet"
  by (auto simp: inj_def image_iff)

lemma alphabet_codes: "(of_char ` base64url_alphabet :: nat set) = {65..90} \<union> {97..122} \<union> {48..57} \<union> {45, 95}"
proof -
  have eq: "map of_char ''ABCDEFGHIJKLMNOPQRSTUVWXYZabcdefghijklmnopqrstuvwxyz0123456789-_'' =
      [65..<91] @ [97..<123] @ [48..<58] @ [45, 95 :: nat]"
    by simp
  have "(of_char ` base64url_alphabet :: nat set) = {65..<91} \<union> ({97..<123} \<union> ({48..<58} \<union> {45, 95}))"
    unfolding base64url_alphabet_def set_map [symmetric] eq
    by (simp only: set_append set_upt list.set)
  then show ?thesis by (simp only:) auto
qed
lemma base64url_byte_char:
  "is_base64url_byte (of_char c) = 1 \<longleftrightarrow> c \<in> base64url_alphabet"
  unfolding alphabet_of_char alphabet_codes is_base64url_byte_iff
  by (auto simp: word_le_nat_alt unat_of_char_u8 word_unat_eq_iff)

lemma block_id_parse_iff:
  "block_id_parse s = Some i \<longleftrightarrow>
     i = BlockId s \<and> length s = 43 \<and> set s \<subseteq> base64url_alphabet"
  using foldl_and_01 [of 1 "as_bytes s"]
  by (auto simp: block_id_parse_def Let_def block_id_len_def as_bytes_def base64url_byte_char)

subsection \<open>Paths\<close>

definition block_id_ok :: "block_id \<Rightarrow> bool" where
  "block_id_ok i \<longleftrightarrow> length (block_id_as_str i) = 43 \<and> set (block_id_as_str i) \<subseteq> base64url_alphabet"

lemma block_id_parse_ok: "block_id_parse s = Some i \<Longrightarrow> block_id_ok i \<and> block_id_as_str i = s"
  by (auto simp: block_id_parse_iff block_id_ok_def)

lemma alphabet_no_special: "CHR ''/'' \<notin> base64url_alphabet" "CHR ''.'' \<notin> base64url_alphabet"
  by (simp_all add: base64url_alphabet_def)

definition with_slash :: "string \<Rightarrow> string" where
  "with_slash root = (if root = [] \<or> last root = CHR ''/'' then root else root @ ''/'')"

lemma path_join_clean:
  "p \<noteq> [] \<Longrightarrow> CHR ''/'' \<notin> set p \<Longrightarrow> path_join base p = with_slash base @ p"
  by (cases p) (auto simp: path_join_def with_slash_def)

lemma with_slash_clean:
  "p \<noteq> [] \<Longrightarrow> CHR ''/'' \<notin> set p \<Longrightarrow> with_slash (base @ p) = base @ p @ ''/''"
  by (cases p rule: rev_cases) (auto simp: with_slash_def)

lemma block_id_ok_pieces:
  assumes "block_id_ok i"
  shows "length (shard_top i) = 2" "length (shard_mid i) = 2"
    "CHR ''/'' \<notin> set (shard_top i)" "CHR ''/'' \<notin> set (shard_mid i)"
    "CHR ''/'' \<notin> set (block_id_as_str i)" "CHR ''.'' \<notin> set (block_id_as_str i)"
    "block_id_as_str i \<noteq> []"
  using assms alphabet_no_special
  by (auto simp: block_id_ok_def shard_top_def shard_mid_def dest!: in_set_takeD in_set_dropD)

lemma shard_dir_eq:
  assumes "block_id_ok i"
  shows "shard_dir root i = with_slash root @ shard_top i @ ''/'' @ shard_mid i"
proof -
  note p = block_id_ok_pieces [OF assms]
  have "shard_top i \<noteq> []" "shard_mid i \<noteq> []" using p(1,2) by auto
  with p show ?thesis by (simp add: shard_dir_def path_join_clean with_slash_clean)
qed

lemma with_slash_shard_dir:
  assumes "block_id_ok i"
  shows "with_slash (shard_dir root i) = shard_dir root i @ ''/''"
proof -
  have "shard_mid i \<noteq> []" using block_id_ok_pieces(2) [OF assms] by auto
  then show ?thesis
    using with_slash_clean [of "shard_mid i" "with_slash root @ shard_top i @ ''/''"]
      block_id_ok_pieces(4) [OF assms]
    by (simp add: shard_dir_eq [OF assms])
qed

lemma block_path_eq:
  assumes "block_id_ok i"
  shows "block_path root i =
    with_slash root @ shard_top i @ ''/'' @ shard_mid i @ ''/'' @ block_id_as_str i"
proof -
  have "with_slash (shard_dir root i) = shard_dir root i @ ''/''"
    by (rule with_slash_shard_dir [OF assms])
  then show ?thesis
    using block_id_ok_pieces [OF assms]
    by (simp add: block_path_def path_join_clean shard_dir_eq [OF assms])
qed

lemma block_path_inject:
  assumes "block_id_ok i" and "block_id_ok j" and "block_path root i = block_path root j"
  shows "i = j"
proof -
  have "shard_top i @ ''/'' @ shard_mid i @ ''/'' @ block_id_as_str i =
      shard_top j @ ''/'' @ shard_mid j @ ''/'' @ block_id_as_str j"
    using assms(3) block_path_eq [OF assms(1)] block_path_eq [OF assms(2)] by simp
  then have "drop 6 (shard_top i @ ''/'' @ shard_mid i @ ''/'' @ block_id_as_str i) =
      drop 6 (shard_top j @ ''/'' @ shard_mid j @ ''/'' @ block_id_as_str j)"
    by simp
  then have "block_id_as_str i = block_id_as_str j"
    using block_id_ok_pieces(1,2) [OF assms(1)] block_id_ok_pieces(1,2) [OF assms(2)] by simp
  then show ?thesis by (simp add: block_id.expand)
qed

lemma file_name_of:
  "CHR ''/'' \<notin> set name \<Longrightarrow> rev (takeWhile (\<lambda>c. c \<noteq> CHR ''/'') (rev (d @ ''/'' @ name))) = name"
proof -
  assume "CHR ''/'' \<notin> set name"
  then have "takeWhile (\<lambda>c. c \<noteq> CHR ''/'') (rev name @ CHR ''/'' # rev d) = rev name"
    by (subst takeWhile_append2) auto
  then show ?thesis by simp
qed

text \<open>A path in a shard directory whose last component has a dot is no block path.\<close>

lemma block_path_not_dotted:
  assumes "block_id_ok i" and "block_id_ok j" and "CHR ''.'' \<in> set name" and "CHR ''/'' \<notin> set name"
  shows "path_join (shard_dir root j) name \<noteq> block_path root i"
proof
  assume "path_join (shard_dir root j) name = block_path root i"
  moreover have "name \<noteq> []" using assms(3) by auto
  ultimately have "shard_dir root j @ ''/'' @ name = shard_dir root i @ ''/'' @ block_id_as_str i"
    using assms(4) with_slash_shard_dir [OF assms(1)] with_slash_shard_dir [OF assms(2)]
      block_id_ok_pieces(5,7) [OF assms(1)]
    by (simp add: block_path_def path_join_clean)
  then have "name = block_id_as_str i"
    using file_name_of [OF assms(4)] file_name_of [OF block_id_ok_pieces(5) [OF assms(1)]] by metis
  then show False using assms(3) block_id_ok_pieces(6) [OF assms(1)] by simp
qed

subsection \<open>Properties\<close>

text \<open>
  C36. \<open>BlockId::parse\<close>, with its branch-free check, accepts exactly the strings of 43 characters of
  the base64url alphabet and returns them unchanged.
\<close>

theorem block_id_parse_decides:
  "block_id_parse s = Some i \<longleftrightarrow>
     length s = 43 \<and> set s \<subseteq> set ''ABCDEFGHIJKLMNOPQRSTUVWXYZabcdefghijklmnopqrstuvwxyz0123456789-_'' \<and>
     block_id_as_str i = s"
  by (cases i) (auto simp: block_id_parse_iff base64url_alphabet_def)

end
