(* ===== verification/Storage.thy ===== *)
theory Storage
  imports Block_Id Http
begin

section \<open>The storage interface (storage/provider.rs)\<close>

text \<open>
  The errors of a storage provider and the contract of the trait \<^verbatim>\<open>StorageProvider\<close>. An
  \<^verbatim>\<open>io::Error\<close> is given by its kind, which is all that the server reads of it.
\<close>

datatype io_error = IoNotFound | IoPermissionDenied | IoStorageFull | IoOther string

datatype backend_failure_cause = DiskFull | PermissionDenied | IoErrorCause

definition classify :: "io_error \<Rightarrow> backend_failure_cause" where
  "classify err = (case err of
      IoStorageFull \<Rightarrow> DiskFull
    | IoPermissionDenied \<Rightarrow> PermissionDenied
    | _ \<Rightarrow> IoErrorCause)"

definition cause_as_str :: "backend_failure_cause \<Rightarrow> string" where
  "cause_as_str c = (case c of
      DiskFull \<Rightarrow> ''disk_full''
    | PermissionDenied \<Rightarrow> ''permission_denied''
    | IoErrorCause \<Rightarrow> ''io_error'')"

datatype storage_error = StorageNotFound | StorageBackend backend_failure_cause io_error

definition backend_error :: "io_error \<Rightarrow> storage_error" where
  "backend_error e = StorageBackend (classify e) e"

datatype storage_init_error =
    RootMissing string
  | RootNotDirectory string
  | RootNotWritable string io_error

definition init_error_step :: "storage_init_error \<Rightarrow> string" where
  "init_error_step e = (case e of
      RootMissing _ \<Rightarrow> ''metadata'' | RootNotDirectory _ \<Rightarrow> ''is_dir'' | RootNotWritable _ _ \<Rightarrow> ''probe_write'')"

definition init_error_cause :: "storage_init_error \<Rightarrow> string" where
  "init_error_cause e = (case e of
      RootMissing _ \<Rightarrow> ''io_error'' | RootNotDirectory _ \<Rightarrow> ''io_error''
    | RootNotWritable _ src \<Rightarrow> cause_as_str (classify src))"

definition init_error_root_path :: "storage_init_error \<Rightarrow> string" where
  "init_error_root_path e = (case e of
      RootMissing p \<Rightarrow> p | RootNotDirectory p \<Rightarrow> p | RootNotWritable p _ \<Rightarrow> p)"

subsection \<open>The contract of the trait\<close>

text \<open>
  What the trait documents, for an implementation whose state is seen as a map from identifiers to
  payloads. Every operation meets an environment that may make it fail; a failed operation changes
  nothing that can be observed, and in a \<open>calm\<close> environment reads do not fail.
\<close>

locale storage_provider =
  fixes put :: "'e \<Rightarrow> block_id \<Rightarrow> bytes \<Rightarrow> 's \<Rightarrow> (storage_error + unit) \<times> 's"
    and get :: "'g \<Rightarrow> block_id \<Rightarrow> 's \<Rightarrow> storage_error + bytes"
    and delete :: "'g \<Rightarrow> block_id \<Rightarrow> 's \<Rightarrow> (storage_error + unit) \<times> 's"
    and exists_block :: "'g \<Rightarrow> block_id \<Rightarrow> 's \<Rightarrow> storage_error + bool"
    and env_ok :: "'e \<Rightarrow> bool"
    and calm :: "'g \<Rightarrow> bool"
    and invar :: "'s \<Rightarrow> bool"
    and view :: "'s \<Rightarrow> block_id \<rightharpoonup> bytes"
  assumes put_ok: "invar s \<Longrightarrow> block_id_ok i \<Longrightarrow> env_ok e \<Longrightarrow> put e i b s = (Inr u, s') \<Longrightarrow>
      invar s' \<and> view s' = (view s)(i \<mapsto> b)"
    and put_err: "invar s \<Longrightarrow> block_id_ok i \<Longrightarrow> env_ok e \<Longrightarrow> put e i b s = (Inl err, s') \<Longrightarrow>
      invar s' \<and> view s' = view s \<and> err \<noteq> StorageNotFound"
    and get_ok: "invar s \<Longrightarrow> block_id_ok i \<Longrightarrow> get g i s = Inr b \<Longrightarrow> view s i = Some b"
    and get_calm: "invar s \<Longrightarrow> block_id_ok i \<Longrightarrow> calm g \<Longrightarrow>
      get g i s = (case view s i of Some b \<Rightarrow> Inr b | None \<Rightarrow> Inl StorageNotFound)"
    and delete_ok: "invar s \<Longrightarrow> block_id_ok i \<Longrightarrow> calm g \<Longrightarrow> delete g i s = (r, s') \<Longrightarrow>
      r = Inr () \<and> invar s' \<and> view s' = (view s)(i := None)"
    and delete_err: "invar s \<Longrightarrow> block_id_ok i \<Longrightarrow> delete g i s = (Inl err, s') \<Longrightarrow>
      s' = s \<and> err \<noteq> StorageNotFound"
    and exists_calm: "invar s \<Longrightarrow> block_id_ok i \<Longrightarrow> calm g \<Longrightarrow>
      exists_block g i s = Inr (view s i \<noteq> None)"
begin

lemma get_after_put:
  assumes "invar s" and "block_id_ok i" and "env_ok e" and "put e i b s = (Inr u, s')"
    and "block_id_ok j" and "calm g"
  shows "get g j s' = (if j = i then Inr b else get g j s)"
  using put_ok [OF assms(1-4)] get_calm [OF _ assms(5,6)] assms(1) by auto

lemma get_after_failed_put:
  assumes "invar s" and "block_id_ok i" and "env_ok e" and "put e i b s = (Inl err, s')"
    and "block_id_ok j" and "calm g"
  shows "get g j s' = get g j s"
  using put_err [OF assms(1-4)] get_calm [OF _ assms(5,6)] assms(1) by auto

lemma put_twice:
  assumes "invar s" and "block_id_ok i" and "env_ok e" and "put e i b s = (Inr u, s1)"
    and "env_ok e'" and "put e' i b s1 = (Inr u', s2)"
  shows "view s2 = view s1"
  using put_ok [OF assms(1-4)] put_ok [OF _ assms(2,5,6)] by auto

lemma get_after_delete:
  assumes "invar s" and "block_id_ok i" and "block_id_ok j" and "calm g" and "delete g i s = (r, s')"
  shows "r = Inr () \<and> get g j s' = (if j = i then Inl StorageNotFound else get g j s)"
  using delete_ok [OF assms(1,2,4,5)] get_calm [OF _ assms(3,4)] assms(1) by auto

lemma delete_twice:
  assumes "invar s" and "block_id_ok i" and "calm g" and "delete g i s = (r, s1)"
  shows "fst (delete g i s1) = Inr () \<and> view (snd (delete g i s1)) = view s1"
  using delete_ok [OF assms] delete_ok [OF _ assms(2,3), of s1] by (metis fun_upd_idem fun_upd_same prod.collapse)

end

end
