(* ===== verification/Local_Fs.thy ===== *)
theory Local_Fs
  imports Storage Config
begin

section \<open>The local-filesystem provider (storage/local_fs.rs, storage/mod.rs)\<close>

text \<open>
  The file system is a state with directories (and their modes) and files (contents, mode, and
  whether the contents have been synced to disk since the last write). Each call of \<^verbatim>\<open>std::fs\<close>,
  \<^verbatim>\<open>tokio::fs\<close> or \<^verbatim>\<open>tempfile\<close> is one operation on it; it takes a fault, the error with which the
  system lets the call fail, which for the calls that work in several steps comes with how far
  they got. Temporary files get the name that the library chose (prefix, a random part, suffix),
  are created exclusively, and are removed when an unpersisted handle is dropped, which may itself
  fail.
\<close>

record fs_file =
  ff_data :: bytes
  ff_mode :: nat
  ff_synced :: bool

record fs =
  fs_dirs :: "string \<rightharpoonup> nat"
  fs_files :: "string \<rightharpoonup> fs_file"

type_synonym 'a io = "fs \<Rightarrow> (io_error + 'a) \<times> fs"

definition io_bind :: "'a io \<Rightarrow> ('a \<Rightarrow> 'b io) \<Rightarrow> 'b io" where
  "io_bind m k s = (case m s of (Inl e, s') \<Rightarrow> (Inl e, s') | (Inr x, s') \<Rightarrow> k x s')"

subsection \<open>System calls\<close>

text \<open>The directories on the way to a path, the path included.\<close>

fun path_prefixes :: "string \<Rightarrow> string \<Rightarrow> string list" where
  "path_prefixes acc [] = [acc]"
| "path_prefixes acc (c # cs) =
     (if c = CHR ''/'' \<and> acc \<noteq> [] \<and> last acc \<noteq> CHR ''/''
      then acc # path_prefixes (acc @ [c]) cs
      else path_prefixes (acc @ [c]) cs)"

fun mkdirs :: "nat \<Rightarrow> string list \<Rightarrow> unit io" where
  "mkdirs mode [] s = (Inr (), s)"
| "mkdirs mode (p # ps) s =
     (if fs_files s p \<noteq> None then (Inl (IoOther ''not a directory''), s)
      else if fs_dirs s p \<noteq> None then mkdirs mode ps s
      else mkdirs mode ps (s\<lparr>fs_dirs := (fs_dirs s)(p \<mapsto> mode)\<rparr>))"

definition create_dir_all :: "(nat \<times> io_error) option \<Rightarrow> nat \<Rightarrow> string \<Rightarrow> unit io" where
  "create_dir_all fault mode path s =
     (case fault of
        None \<Rightarrow> mkdirs mode (path_prefixes [] path) s
      | Some (k, e) \<Rightarrow> (Inl e, snd (mkdirs mode (take k (path_prefixes [] path)) s)))"

definition set_permissions :: "io_error option \<Rightarrow> string \<Rightarrow> nat \<Rightarrow> unit io" where
  "set_permissions fault dir mode s =
     (case fault of
        Some e \<Rightarrow> (Inl e, s)
      | None \<Rightarrow> if fs_dirs s dir \<noteq> None then (Inr (), s\<lparr>fs_dirs := (fs_dirs s)(dir \<mapsto> mode)\<rparr>)
                else (Inl IoNotFound, s))"

definition tempfile_in ::
    "io_error option \<Rightarrow> string \<Rightarrow> string \<Rightarrow> string \<Rightarrow> nat \<Rightarrow> string \<Rightarrow> string io" where
  "tempfile_in fault pre random suf mode dir s =
     (let p = path_join dir (pre @ random @ suf) in
      case fault of
        Some e \<Rightarrow> (Inl e, s)
      | None \<Rightarrow>
          if fs_dirs s dir = None then (Inl IoNotFound, s)
          else if fs_files s p \<noteq> None \<or> fs_dirs s p \<noteq> None then (Inl (IoOther ''file exists''), s)
          else (Inr p, s\<lparr>fs_files := (fs_files s)(p \<mapsto> \<lparr>ff_data = [], ff_mode = mode, ff_synced = False\<rparr>)\<rparr>))"

definition write_all :: "(nat \<times> io_error) option \<Rightarrow> string \<Rightarrow> bytes \<Rightarrow> unit io" where
  "write_all fault p payload s =
     (let (r, written) = (case fault of
            None \<Rightarrow> (Inr (), payload) | Some (k, e) \<Rightarrow> (Inl e, take k payload)) in
      (r, s\<lparr>fs_files := (fs_files s)(p := map_option
             (\<lambda>f. f\<lparr>ff_data := ff_data f @ written, ff_synced := False\<rparr>) (fs_files s p))\<rparr>))"

definition sync_all :: "io_error option \<Rightarrow> string \<Rightarrow> unit io" where
  "sync_all fault p s =
     (case fault of
        Some e \<Rightarrow> (Inl e, s)
      | None \<Rightarrow> (Inr (), s\<lparr>fs_files := (fs_files s)(p := map_option
                   (\<lambda>f. f\<lparr>ff_synced := True\<rparr>) (fs_files s p))\<rparr>))"

definition persist :: "io_error option \<Rightarrow> string \<Rightarrow> string \<Rightarrow> unit io" where
  "persist fault src dst s =
     (case fault of
        Some e \<Rightarrow> (Inl e, s)
      | None \<Rightarrow>
          if fs_dirs s dst \<noteq> None then (Inl (IoOther ''is a directory''), s)
          else (case fs_files s src of
                  None \<Rightarrow> (Inl IoNotFound, s)
                | Some f \<Rightarrow> (Inr (), s\<lparr>fs_files := ((fs_files s)(src := None))(dst \<mapsto> f)\<rparr>)))"

definition persist_noclobber :: "io_error option \<Rightarrow> string \<Rightarrow> string \<Rightarrow> unit io" where
  "persist_noclobber fault src dst s =
     (if fault = None \<and> (fs_files s dst \<noteq> None \<or> fs_dirs s dst \<noteq> None)
      then (Inl (IoOther ''file exists''), s) else persist fault src dst s)"

definition remove_file :: "io_error option \<Rightarrow> string \<Rightarrow> unit io" where
  "remove_file fault p s =
     (case fault of
        Some e \<Rightarrow> (Inl e, s)
      | None \<Rightarrow>
          if fs_files s p \<noteq> None then (Inr (), s\<lparr>fs_files := (fs_files s)(p := None)\<rparr>)
          else if fs_dirs s p \<noteq> None then (Inl (IoOther ''is a directory''), s)
          else (Inl IoNotFound, s))"

definition read_file :: "io_error option \<Rightarrow> string \<Rightarrow> fs \<Rightarrow> io_error + bytes" where
  "read_file fault p s =
     (case fault of
        Some e \<Rightarrow> Inl e
      | None \<Rightarrow>
          (case fs_files s p of
             Some f \<Rightarrow> Inr (ff_data f)
           | None \<Rightarrow> if fs_dirs s p \<noteq> None then Inl (IoOther ''is a directory'') else Inl IoNotFound))"

definition try_exists :: "io_error option \<Rightarrow> string \<Rightarrow> fs \<Rightarrow> io_error + bool" where
  "try_exists fault p s =
     (case fault of Some e \<Rightarrow> Inl e | None \<Rightarrow> Inr (fs_files s p \<noteq> None \<or> fs_dirs s p \<noteq> None))"

text \<open>Dropping an unpersisted temporary file after an error removes it, if the system lets it.\<close>

definition or_drop :: "bool \<Rightarrow> string \<Rightarrow> 'a io \<Rightarrow> 'a io" where
  "or_drop unlink_works temp m s = (case m s of
      (Inl e, s') \<Rightarrow> (Inl e, if unlink_works then s'\<lparr>fs_files := (fs_files s')(temp := None)\<rparr> else s')
    | (Inr x, s') \<Rightarrow> (Inr x, s'))"

subsection \<open>The operations\<close>

record put_env =
  pe_mkdir :: "(nat \<times> io_error) option"
  pe_chmod_top :: "io_error option"
  pe_chmod_shard :: "io_error option"
  pe_temp :: "io_error option"
  pe_random :: string
  pe_write :: "(nat \<times> io_error) option"
  pe_sync :: "io_error option"
  pe_persist :: "io_error option"
  pe_drop :: bool

definition mode_0700 :: nat where "mode_0700 = 448"
definition mode_0600 :: nat where "mode_0600 = 384"

definition put_temp :: "put_env \<Rightarrow> string \<Rightarrow> bytes \<Rightarrow> string \<Rightarrow> unit io" where
  "put_temp E temp payload dst =
     io_bind (write_all (pe_write E) temp payload) (\<lambda>_.
     io_bind (sync_all (pe_sync E) temp) (\<lambda>_.
     persist (pe_persist E) temp dst))"

definition put_prepare :: "put_env \<Rightarrow> string \<Rightarrow> block_id \<Rightarrow> unit io" where
  "put_prepare E root i =
     (let shard = shard_dir root i; top = path_join root (shard_top i) in
      io_bind (create_dir_all (pe_mkdir E) mode_0700 shard) (\<lambda>_.
      io_bind (set_permissions (pe_chmod_top E) top mode_0700) (\<lambda>_.
      set_permissions (pe_chmod_shard E) shard mode_0700)))"

definition run_put :: "put_env \<Rightarrow> string \<Rightarrow> block_id \<Rightarrow> bytes \<Rightarrow> fs \<Rightarrow> (storage_error + unit) \<times> fs" where
  "run_put E root i payload s =
     (let shard = shard_dir root i; dst = block_path root i;
          (r, s') = io_bind (put_prepare E root i) (\<lambda>_.
            io_bind (tempfile_in (pe_temp E) ''.put.'' (pe_random E) ''.tmp'' mode_0600 shard) (\<lambda>temp.
            or_drop (pe_drop E) temp (put_temp E temp payload dst))) s
      in (map_err backend_error r, s'))"

definition local_get :: "string \<Rightarrow> io_error option \<Rightarrow> block_id \<Rightarrow> fs \<Rightarrow> storage_error + bytes" where
  "local_get root fault i s = (case read_file fault (block_path root i) s of
      Inr bytes \<Rightarrow> Inr bytes
    | Inl IoNotFound \<Rightarrow> Inl StorageNotFound
    | Inl e \<Rightarrow> Inl (backend_error e))"

definition local_delete ::
    "string \<Rightarrow> io_error option \<Rightarrow> block_id \<Rightarrow> fs \<Rightarrow> (storage_error + unit) \<times> fs" where
  "local_delete root fault i s = (case remove_file fault (block_path root i) s of
      (Inr _, s') \<Rightarrow> (Inr (), s')
    | (Inl IoNotFound, s') \<Rightarrow> (Inr (), s')
    | (Inl e, s') \<Rightarrow> (Inl (backend_error e), s'))"

definition local_exists :: "string \<Rightarrow> io_error option \<Rightarrow> block_id \<Rightarrow> fs \<Rightarrow> storage_error + bool" where
  "local_exists root fault i s = map_err backend_error (try_exists fault (block_path root i) s)"

text \<open>The start-up probe. \<open>metadata\<close> succeeds on files and directories.\<close>

record probe_env =
  pr_metadata :: "io_error option"
  pr_temp :: "io_error option"
  pr_random :: string
  pr_write :: "(nat \<times> io_error) option"
  pr_sync :: "io_error option"
  pr_persist :: "io_error option"
  pr_remove :: "io_error option"
  pr_drop :: bool

definition probe_filename :: string where
  "probe_filename = ''.startup_probe''"

definition probe_write :: "probe_env \<Rightarrow> string \<Rightarrow> unit io" where
  "probe_write E root =
     io_bind (tempfile_in (pr_temp E) ''.probe.'' (pr_random E) ''.tmp'' mode_0600 root) (\<lambda>temp.
     or_drop (pr_drop E) temp (
     io_bind (write_all (pr_write E) temp (as_bytes ''probe'')) (\<lambda>_.
     io_bind (sync_all (pr_sync E) temp) (\<lambda>_.
     persist_noclobber (pr_persist E) temp (path_join root probe_filename)))))"

definition run_init_probe :: "probe_env \<Rightarrow> string \<Rightarrow> fs \<Rightarrow> (storage_init_error + unit) \<times> fs" where
  "run_init_probe E root s =
     (case (case pr_metadata E of
              Some e \<Rightarrow> Inl e
            | None \<Rightarrow> if fs_dirs s root \<noteq> None then Inr True
                      else if fs_files s root \<noteq> None then Inr False else Inl IoNotFound) of
        Inl IoNotFound \<Rightarrow> (Inl (RootMissing root), s)
      | Inl e \<Rightarrow> (Inl (RootNotWritable root e), s)
      | Inr is_dir \<Rightarrow>
          if \<not> is_dir then (Inl (RootNotDirectory root), s)
          else (case probe_write E root s of
                  (Inl e, s') \<Rightarrow> (Inl (RootNotWritable root e), s')
                | (Inr _, s') \<Rightarrow>
                    (Inr (), snd (remove_file (pr_remove E) (path_join root probe_filename) s'))))"

text \<open>A provider is its root: \<open>LocalFsProvider::init\<close> returns it once the probe has passed.\<close>

definition local_fs_init :: "probe_env \<Rightarrow> string \<Rightarrow> fs \<Rightarrow> (storage_init_error + string) \<times> fs" where
  "local_fs_init E root s =
     (case run_init_probe E root s of
        (Inl e, s') \<Rightarrow> (Inl e, s')
      | (Inr _, s') \<Rightarrow> (Inr root, s'))"

text \<open>\<open>storage::init_from_config\<close>: no provider, or the root of the initialised one.\<close>

definition init_from_config ::
    "probe_env \<Rightarrow> 'net server_config \<Rightarrow> fs \<Rightarrow> (storage_init_error + string option) \<times> fs" where
  "init_from_config E cfg s = (case backend cfg of
      BackendNone \<Rightarrow> (Inr None, s)
    | BackendLocalFs root \<Rightarrow>
        (case local_fs_init E root s of
           (Inl e, s') \<Rightarrow> (Inl e, s')
         | (Inr provider, s') \<Rightarrow> (Inr (Some provider), s')))"

subsection \<open>The invariant of a block root\<close>

text \<open>
  Where a block's file belongs there is no directory, and a file there is synced; no file is in the
  way of a shard directory.
\<close>

definition local_ok :: "string \<Rightarrow> fs \<Rightarrow> bool" where
  "local_ok root s \<longleftrightarrow> (\<forall>i. block_id_ok i \<longrightarrow>
     fs_dirs s (block_path root i) = None \<and>
     (\<forall>f. fs_files s (block_path root i) = Some f \<longrightarrow> ff_synced f) \<and>
     (\<forall>q \<in> set (path_prefixes [] (shard_dir root i)). fs_files s q = None))"

definition fs_view :: "string \<Rightarrow> fs \<Rightarrow> block_id \<rightharpoonup> bytes" where
  "fs_view root s i = (if block_id_ok i then map_option ff_data (fs_files s (block_path root i)) else None)"

lemma path_prefixes_length: "q \<in> set (path_prefixes acc cs) \<Longrightarrow> length q \<le> length acc + length cs"
  by (induction acc cs rule: path_prefixes.induct) (fastforce split: if_splits)+

lemma shard_prefix_short:
  assumes "block_id_ok i" and "q \<in> set (path_prefixes [] (shard_dir root i))"
  shows "length q \<le> length (with_slash root) + 5"
  using path_prefixes_length [OF assms(2)] block_id_ok_pieces(1,2) [OF assms(1)]
  by (simp add: shard_dir_eq [OF assms(1)])

lemma block_path_long: "block_id_ok i \<Longrightarrow> length (block_path root i) = length (with_slash root) + 49"
  using block_id_ok_pieces(1,2) by (simp add: block_path_eq block_id_ok_def)

lemma block_path_not_shard_prefix:
  assumes "block_id_ok i" and "block_id_ok j"
  shows "block_path root i \<notin> set (path_prefixes [] (shard_dir root j))"
  using shard_prefix_short [OF assms(2)] block_path_long [OF assms(1)] by fastforce

definition temp_path :: "string \<Rightarrow> block_id \<Rightarrow> string \<Rightarrow> string" where
  "temp_path root i random = path_join (shard_dir root i) (''.put.'' @ random @ ''.tmp'')"

text \<open>The library's random part is alphanumeric; all that matters is that it has no slash.\<close>

lemma temp_path_facts:
  assumes "block_id_ok i" and "block_id_ok j" and "CHR ''/'' \<notin> set random"
  shows "temp_path root i random \<noteq> block_path root j"
    and "temp_path root i random \<notin> set (path_prefixes [] (shard_dir root j))"
proof -
  let ?n = "''.put.'' @ random @ ''.tmp''"
  have n: "CHR ''/'' \<notin> set ?n" "CHR ''.'' \<in> set ?n" "?n \<noteq> []" using assms(3) by auto
  show "temp_path root i random \<noteq> block_path root j"
    unfolding temp_path_def by (rule block_path_not_dotted [OF assms(2,1) n(2,1)])
  have "temp_path root i random = shard_dir root i @ ''/'' @ ?n"
    using path_join_clean [OF n(3,1)] with_slash_shard_dir [OF assms(1)] by (simp add: temp_path_def)
  then have "length (with_slash root) + 5 < length (temp_path root i random)"
    using block_id_ok_pieces(1,2) [OF assms(1)] by (simp add: shard_dir_eq [OF assms(1)])
  then show "temp_path root i random \<notin> set (path_prefixes [] (shard_dir root j))"
    using shard_prefix_short [OF assms(2)] by fastforce
qed

lemma mkdirs_frame:
  "fs_files (snd (mkdirs m ps s)) = fs_files s"
  "q \<notin> set ps \<Longrightarrow> fs_dirs (snd (mkdirs m ps s)) q = fs_dirs s q"
  by (induction m ps s rule: mkdirs.induct) auto

lemma create_dir_all_frame:
  assumes "create_dir_all fault m p s = (r, s')"
  shows "fs_files s' = fs_files s" "q \<notin> set (path_prefixes [] p) \<Longrightarrow> fs_dirs s' q = fs_dirs s q"
  using assms mkdirs_frame
  by (auto simp: create_dir_all_def split: option.splits dest: in_set_takeD)
    (metis in_set_takeD mkdirs_frame(2) snd_conv)+

lemma set_permissions_frame:
  assumes "set_permissions fault d m s = (r, s')"
  shows "fs_files s' = fs_files s" "dom (fs_dirs s') = dom (fs_dirs s)"
  using assms by (auto simp: set_permissions_def split: option.splits if_splits)

lemma io_bind_cases:
  assumes "io_bind m k s = (r, s')"
  obtains (fail) e where "m s = (Inl e, s')" "r = Inl e"
    | (step) x s1 where "m s = (Inr x, s1)" "k x s1 = (r, s')"
  using assms by (auto simp: io_bind_def split: prod.splits sum.splits)

lemma put_prepare_frame:
  assumes "put_prepare E root i s = (r, s')"
  shows "fs_files s' = fs_files s"
    and "q \<notin> set (path_prefixes [] (shard_dir root i)) \<Longrightarrow> fs_dirs s q = None \<Longrightarrow> fs_dirs s' q = None"
proof -
  have "fs_files s' = fs_files s \<and>
      (q \<notin> set (path_prefixes [] (shard_dir root i)) \<longrightarrow> fs_dirs s q = None \<longrightarrow> fs_dirs s' q = None)" for q
    using assms unfolding put_prepare_def Let_def
  proof (cases rule: io_bind_cases)
    case (fail e)
    then show ?thesis using create_dir_all_frame by fastforce
  next
    case (step x s1)
    note f1 = create_dir_all_frame [OF step(1)]
    show ?thesis
      using step(2)
    proof (cases rule: io_bind_cases)
      case (fail e)
      then show ?thesis using f1 set_permissions_frame [OF fail(1)] by (metis domIff)
    next
      case (step y s2)
      then show ?thesis
        using f1 set_permissions_frame [OF step(1)] set_permissions_frame [OF step(2)] by (metis domIff)
    qed
  qed
  then show "fs_files s' = fs_files s"
    and "q \<notin> set (path_prefixes [] (shard_dir root i)) \<Longrightarrow> fs_dirs s q = None \<Longrightarrow> fs_dirs s' q = None"
    by blast+
qed

lemma put_temp_effect:
  assumes "put_temp E t b dst s = (r, s')" and "fs_files s t = Some \<lparr>ff_data = [], ff_mode = m, ff_synced = False\<rparr>"
    and "t \<noteq> dst"
  shows "fs_dirs s' = fs_dirs s"
    and "r = Inr u \<Longrightarrow>
      fs_files s' = ((fs_files s)(t := None))(dst \<mapsto> \<lparr>ff_data = b, ff_mode = m, ff_synced = True\<rparr>)"
    and "r = Inl e \<Longrightarrow> p \<noteq> t \<Longrightarrow> fs_files s' p = fs_files s p"
  using assms
  by (auto simp: put_temp_def io_bind_def write_all_def sync_all_def persist_def Let_def
      split: option.splits if_splits prod.splits)

lemma run_put_Inr:
  assumes "run_put E root i b s = (Inr u, s')" and "block_id_ok i" and "CHR ''/'' \<notin> set (pe_random E)"
  shows "fs_files s' = (fs_files s)(block_path root i \<mapsto> \<lparr>ff_data = b, ff_mode = mode_0600, ff_synced = True\<rparr>)"
    and "q \<notin> set (path_prefixes [] (shard_dir root i)) \<Longrightarrow> fs_dirs s q = None \<Longrightarrow> fs_dirs s' q = None"
proof -
  let ?t = "temp_path root i (pe_random E)"
  have neq: "?t \<noteq> block_path root i" by (rule temp_path_facts [OF assms(2,2,3)])
  obtain s1 where s1: "put_prepare E root i s = (Inr (), s1)"
    and free: "fs_files s1 ?t = None" "pe_temp E = None"
    and pt: "put_temp E ?t b (block_path root i) (s1\<lparr>fs_files := (fs_files s1)(?t \<mapsto>
        \<lparr>ff_data = [], ff_mode = mode_0600, ff_synced = False\<rparr>)\<rparr>) = (Inr (), s')"
    using assms(1)
    by (auto simp: run_put_def Let_def io_bind_def tempfile_in_def or_drop_def temp_path_def
        split: prod.splits sum.splits option.splits if_splits)
  note eff = put_temp_effect [OF pt, of mode_0600]
  show "fs_files s' = (fs_files s)(block_path root i \<mapsto> \<lparr>ff_data = b, ff_mode = mode_0600, ff_synced = True\<rparr>)"
    using eff(2) neq free(1) put_prepare_frame(1) [OF s1] by (auto simp: fun_eq_iff)
  show "q \<notin> set (path_prefixes [] (shard_dir root i)) \<Longrightarrow> fs_dirs s q = None \<Longrightarrow> fs_dirs s' q = None"
    using eff(1) neq put_prepare_frame(2) [OF s1] by simp
qed

lemma run_put_Inl:
  assumes "run_put E root i b s = (Inl e, s')" and "block_id_ok i" and "CHR ''/'' \<notin> set (pe_random E)"
  shows "p \<noteq> temp_path root i (pe_random E) \<Longrightarrow> fs_files s' p = fs_files s p"
    and "q \<notin> set (path_prefixes [] (shard_dir root i)) \<Longrightarrow> fs_dirs s q = None \<Longrightarrow> fs_dirs s' q = None"
    and "e \<noteq> StorageNotFound"
proof -
  let ?t = "temp_path root i (pe_random E)"
  let ?new = "\<lambda>s1. s1\<lparr>fs_files := (fs_files s1)(?t \<mapsto> \<lparr>ff_data = [], ff_mode = mode_0600, ff_synced = False\<rparr>)\<rparr>"
  have neq: "?t \<noteq> block_path root i" by (rule temp_path_facts [OF assms(2,2,3)])
  consider (prepare) e' where "put_prepare E root i s = (Inl e', s')" "e = backend_error e'"
    | (create) e' where "put_prepare E root i s = (Inr (), s')" "e = backend_error e'"
    | (temp) s1 e' s2 where "put_prepare E root i s = (Inr (), s1)"
        "put_temp E ?t b (block_path root i) (?new s1) = (Inl e', s2)"
        "s' = (if pe_drop E then s2\<lparr>fs_files := (fs_files s2)(?t := None)\<rparr> else s2)" "e = backend_error e'"
    using assms(1)
    by (auto simp: run_put_def Let_def io_bind_def tempfile_in_def or_drop_def temp_path_def
        split: prod.splits sum.splits option.splits if_splits)
  then have "(p \<noteq> ?t \<longrightarrow> fs_files s' p = fs_files s p) \<and>
      (q \<notin> set (path_prefixes [] (shard_dir root i)) \<longrightarrow> fs_dirs s q = None \<longrightarrow> fs_dirs s' q = None) \<and>
      e \<noteq> StorageNotFound" for p q
  proof cases
    case prepare
    then show ?thesis using put_prepare_frame [OF prepare(1)] by (auto simp: backend_error_def)
  next
    case create
    then show ?thesis using put_prepare_frame [OF create(1)] by (auto simp: backend_error_def)
  next
    case temp
    have new: "fs_files (?new s1) ?t = Some \<lparr>ff_data = [], ff_mode = mode_0600, ff_synced = False\<rparr>" by simp
    note eff = put_temp_effect [OF temp(2) new neq]
    show ?thesis
      using eff(1,3) temp(3,4) put_prepare_frame [OF temp(1)] by (auto simp: backend_error_def)
  qed
  then show "p \<noteq> ?t \<Longrightarrow> fs_files s' p = fs_files s p"
    "q \<notin> set (path_prefixes [] (shard_dir root i)) \<Longrightarrow> fs_dirs s q = None \<Longrightarrow> fs_dirs s' q = None"
    "e \<noteq> StorageNotFound"
    by blast+
qed

subsection \<open>The provider keeps the contract\<close>

text \<open>\<^verbatim>\<open>tempfile\<close>: the random part of a name is alphanumeric; what matters is that it has no slash.\<close>

definition put_env_ok :: "put_env \<Rightarrow> bool" where
  "put_env_ok E \<longleftrightarrow> CHR ''/'' \<notin> set (pe_random E)"

lemma local_ok_frame:
  assumes "local_ok root s" and "block_id_ok i"
    and "\<And>q. q \<notin> set (path_prefixes [] (shard_dir root i)) \<Longrightarrow> fs_dirs s q = None \<Longrightarrow> fs_dirs s' q = None"
    and "\<And>j. block_id_ok j \<Longrightarrow> fs_files s' (block_path root j) = fs_files s (block_path root j) \<or>
       (\<exists>f. fs_files s' (block_path root j) = Some f \<and> ff_synced f)"
    and "\<And>j q. block_id_ok j \<Longrightarrow> q \<in> set (path_prefixes [] (shard_dir root j)) \<Longrightarrow> fs_files s' q = fs_files s q"
  shows "local_ok root s'"
  unfolding local_ok_def
proof (intro allI impI conjI ballI)
  fix j assume j: "block_id_ok j"
  show "fs_dirs s' (block_path root j) = None"
    using assms(1,3) j block_path_not_shard_prefix [OF j assms(2)] by (simp add: local_ok_def)
  show "ff_synced f" if "fs_files s' (block_path root j) = Some f" for f
    using assms(1) assms(4) [OF j] j that by (auto simp: local_ok_def)
  show "fs_files s' q = None" if "q \<in> set (path_prefixes [] (shard_dir root j))" for q
    using assms(1) assms(5) [OF j that] j that by (simp add: local_ok_def)
qed

lemma local_put_ok:
  assumes "local_ok root s" and "block_id_ok i" and "put_env_ok E" and "run_put E root i b s = (Inr u, s')"
  shows "local_ok root s' \<and> fs_view root s' = (fs_view root s)(i \<mapsto> b)"
proof
  have r: "CHR ''/'' \<notin> set (pe_random E)" using assms(3) by (simp add: put_env_ok_def)
  note eff = run_put_Inr [OF assms(4,2) r]
  show "local_ok root s'"
    by (rule local_ok_frame [OF assms(1,2) eff(2)])
      (auto simp: eff(1) dest: block_path_not_shard_prefix [OF assms(2)])
  show "fs_view root s' = (fs_view root s)(i \<mapsto> b)"
    using assms(2) block_path_inject [OF _ assms(2)]
    by (auto simp: fun_eq_iff fs_view_def eff(1))
qed

lemma local_put_err:
  assumes "local_ok root s" and "block_id_ok i" and "put_env_ok E" and "run_put E root i b s = (Inl e, s')"
  shows "local_ok root s' \<and> fs_view root s' = fs_view root s \<and> e \<noteq> StorageNotFound"
proof (intro conjI)
  have r: "CHR ''/'' \<notin> set (pe_random E)" using assms(3) by (simp add: put_env_ok_def)
  note eff = run_put_Inl [OF assms(4,2) r] and t = temp_path_facts [OF assms(2) _ r]
  have block: "fs_files s' (block_path root j) = fs_files s (block_path root j)" if "block_id_ok j" for j
    using eff(1) t(1) [OF that] by metis
  have pre: "fs_files s' q = fs_files s q"
    if "block_id_ok j" "q \<in> set (path_prefixes [] (shard_dir root j))" for j q
    using eff(1) t(2) [OF that(1)] that(2) by metis
  show "local_ok root s'"
    by (rule local_ok_frame [OF assms(1,2) eff(2)]) (use block pre in auto)
  show "fs_view root s' = fs_view root s"
    by (auto simp: fun_eq_iff fs_view_def block)
  show "e \<noteq> StorageNotFound" by (rule eff(3))
qed

lemma local_get_calm:
  assumes "local_ok root s" and "block_id_ok i"
  shows "local_get root None i s = (case fs_view root s i of Some b \<Rightarrow> Inr b | None \<Rightarrow> Inl StorageNotFound)"
  using assms
  by (auto simp: local_get_def read_file_def fs_view_def local_ok_def split: option.splits)

lemma local_delete_calm:
  assumes "local_ok root s" and "block_id_ok i" and "local_delete root None i s = (r, s')"
  shows "r = Inr () \<and> local_ok root s' \<and> fs_view root s' = (fs_view root s)(i := None)"
proof -
  have d: "fs_dirs s (block_path root i) = None" using assms(1,2) by (simp add: local_ok_def)
  have eff: "r = Inr ()" "fs_dirs s' = fs_dirs s" "fs_files s' = (fs_files s)(block_path root i := None)"
    using assms(3) d
    by (auto simp: local_delete_def remove_file_def fun_upd_idem split: option.splits if_splits)
  have "local_ok root s'"
    using assms(1) by (auto simp: local_ok_def eff)
  moreover have "fs_view root s' = (fs_view root s)(i := None)"
    using assms(2) block_path_inject [OF _ assms(2)] by (auto simp: fun_eq_iff fs_view_def eff)
  ultimately show ?thesis using eff by simp
qed

interpretation lfs: storage_provider "\<lambda>E. run_put E root" "local_get root" "local_delete root"
  "local_exists root" put_env_ok "\<lambda>g. g = None" "local_ok root" "fs_view root"
  for root :: string
proof unfold_locales
  fix s i g b
  assume "local_ok root s" "block_id_ok i" "local_get root g i s = Inr b"
  then show "fs_view root s i = Some b"
    by (auto simp: local_get_def read_file_def fs_view_def
        split: option.splits sum.splits io_error.splits if_splits)
next
  fix s i g err s'
  assume "local_ok root s" "block_id_ok i" "local_delete root g i s = (Inl err, s')"
  then show "s' = s \<and> err \<noteq> StorageNotFound"
    by (auto simp: local_delete_def remove_file_def backend_error_def
        split: option.splits io_error.splits if_splits)
next
  fix s i and g :: "io_error option"
  assume "local_ok root s" "block_id_ok i" "g = None"
  then show "local_exists root g i s = Inr (fs_view root s i \<noteq> None)"
    by (auto simp: local_exists_def try_exists_def fs_view_def local_ok_def)
next
  fix s i g r s'
  assume "local_ok root s" "block_id_ok i" "g = None" "local_delete root g i s = (r, s')"
  then show "r = Inr () \<and> local_ok root s' \<and> fs_view root s' = (fs_view root s)(i := None)"
    by (auto dest: local_delete_calm)
next
  fix s i E b u s'
  assume "local_ok root s" "block_id_ok i" "put_env_ok E" "run_put E root i b s = (Inr u, s')"
  then show "local_ok root s' \<and> fs_view root s' = (fs_view root s)(i \<mapsto> b)"
    by (rule local_put_ok)
next
  fix s i E b e s'
  assume "local_ok root s" "block_id_ok i" "put_env_ok E" "run_put E root i b s = (Inl e, s')"
  then show "local_ok root s' \<and> fs_view root s' = fs_view root s \<and> e \<noteq> StorageNotFound"
    by (rule local_put_err)
next
  fix s i and g :: "io_error option"
  assume "local_ok root s" "block_id_ok i" "g = None"
  then show "local_get root g i s =
      (case fs_view root s i of Some b \<Rightarrow> Inr b | None \<Rightarrow> Inl StorageNotFound)"
    using local_get_calm by simp
qed

subsection \<open>A put succeeds where the system lets it\<close>

lemma path_prefixes_self: "acc @ cs \<in> set (path_prefixes acc cs)"
proof (induction acc cs rule: path_prefixes.induct)
  case (2 acc c cs)
  then show ?case by auto
qed simp

lemma path_prefixes_parent:
  "acc @ t \<noteq> [] \<Longrightarrow> last (acc @ t) \<noteq> CHR ''/'' \<Longrightarrow> acc @ t \<in> set (path_prefixes acc (t @ CHR ''/'' # m))"
proof (induction t arbitrary: acc)
  case (Cons c t)
  then show ?case using Cons.IH [of "acc @ [c]"] by auto
qed auto

lemma shard_dirs_on_path:
  assumes "block_id_ok i"
  shows "shard_dir root i \<in> set (path_prefixes [] (shard_dir root i))"
    and "path_join root (shard_top i) \<in> set (path_prefixes [] (shard_dir root i))"
proof -
  note p = block_id_ok_pieces [OF assms]
  have t: "shard_top i \<noteq> []" using p(1) by auto
  show "shard_dir root i \<in> set (path_prefixes [] (shard_dir root i))"
    using path_prefixes_self [of "[]" "shard_dir root i"] by simp
  have "last (shard_top i) \<noteq> CHR ''/''" using p(3) t last_in_set by metis
  then show "path_join root (shard_top i) \<in> set (path_prefixes [] (shard_dir root i))"
    using path_prefixes_parent [of "[]" "with_slash root @ shard_top i" "shard_mid i"] t p(3)
    by (simp add: path_join_clean shard_dir_eq [OF assms])
qed

lemma mkdirs_ok:
  "(\<forall>p \<in> set ps. fs_files s p = None) \<Longrightarrow> fst (mkdirs m ps s) = Inr ()"
  "fs_dirs s q \<noteq> None \<Longrightarrow> fs_dirs (snd (mkdirs m ps s)) q \<noteq> None"
  "(\<forall>p \<in> set ps. fs_files s p = None) \<Longrightarrow> q \<in> set ps \<Longrightarrow> fs_dirs (snd (mkdirs m ps s)) q \<noteq> None"
proof -
  show "(\<forall>p \<in> set ps. fs_files s p = None) \<Longrightarrow> fst (mkdirs m ps s) = Inr ()"
    by (induction m ps s rule: mkdirs.induct) auto
  show kept: "fs_dirs s q \<noteq> None \<Longrightarrow> fs_dirs (snd (mkdirs m ps s)) q \<noteq> None" for m ps s
    by (induction m ps s rule: mkdirs.induct) auto
  show "(\<forall>p \<in> set ps. fs_files s p = None) \<Longrightarrow> q \<in> set ps \<Longrightarrow> fs_dirs (snd (mkdirs m ps s)) q \<noteq> None"
    by (induction m ps s rule: mkdirs.induct) (use kept in \<open>force+\<close>)
qed

definition put_env_calm :: "put_env \<Rightarrow> bool" where
  "put_env_calm E \<longleftrightarrow> pe_mkdir E = None \<and> pe_chmod_top E = None \<and> pe_chmod_shard E = None \<and>
     pe_temp E = None \<and> pe_write E = None \<and> pe_sync E = None \<and> pe_persist E = None"

lemma put_prepare_calm:
  assumes "local_ok root s" and "block_id_ok i" and "put_env_calm E"
  obtains s1 where "put_prepare E root i s = (Inr (), s1)"
    and "fs_dirs s1 (shard_dir root i) = Some mode_0700"
    and "fs_dirs s1 (path_join root (shard_top i)) = Some mode_0700"
proof -
  let ?ps = "path_prefixes [] (shard_dir root i)"
  obtain r s0 where s0: "mkdirs mode_0700 ?ps s = (r, s0)" by fastforce
  have free: "\<forall>p \<in> set ?ps. fs_files s p = None" using assms(1,2) by (simp add: local_ok_def)
  have "r = Inr ()" using mkdirs_ok(1) [OF free, of mode_0700] s0 by simp
  moreover have "fs_dirs s0 q \<noteq> None" if "q \<in> set ?ps" for q
    using mkdirs_ok(3) [OF free that, of mode_0700] s0 by simp
  ultimately have "\<exists>s1. put_prepare E root i s = (Inr (), s1) \<and> fs_dirs s1 (shard_dir root i) = Some mode_0700 \<and>
      fs_dirs s1 (path_join root (shard_top i)) = Some mode_0700"
    using assms(3) s0 shard_dirs_on_path [OF assms(2), of root]
    by (auto simp: put_prepare_def Let_def io_bind_def create_dir_all_def set_permissions_def put_env_calm_def)
  then show thesis using that by blast
qed

lemma run_put_calm:
  assumes "local_ok root s" and "block_id_ok i" and "put_env_ok E" and "put_env_calm E"
    and "fs_files s (temp_path root i (pe_random E)) = None"
    and "fs_dirs s (temp_path root i (pe_random E)) = None"
  shows "\<exists>s'. run_put E root i b s = (Inr (), s') \<and> fs_dirs s' (shard_dir root i) = Some mode_0700 \<and>
    fs_dirs s' (path_join root (shard_top i)) = Some mode_0700"
proof -
  let ?t = "temp_path root i (pe_random E)"
  have r: "CHR ''/'' \<notin> set (pe_random E)" using assms(3) by (simp add: put_env_ok_def)
  obtain s1 where s1: "put_prepare E root i s = (Inr (), s1)" "fs_dirs s1 (shard_dir root i) = Some mode_0700"
    "fs_dirs s1 (path_join root (shard_top i)) = Some mode_0700"
    by (rule put_prepare_calm [OF assms(1,2,4)])
  note frame = put_prepare_frame [OF s1(1)]
  have "fs_files s1 ?t = None" "fs_dirs s1 ?t = None" "fs_dirs s1 (block_path root i) = None"
    using assms(5,6) frame temp_path_facts(2) [OF assms(2,2) r] block_path_not_shard_prefix [OF assms(2,2)]
      assms(1,2) by (auto simp: local_ok_def)
  then show ?thesis
    using s1 assms(4) temp_path_facts(1) [OF assms(2,2) r, of root]
    by (auto simp: run_put_def Let_def io_bind_def tempfile_in_def or_drop_def put_temp_def write_all_def
        sync_all_def persist_def put_env_calm_def temp_path_def)
qed

lemma run_put_Inl_dropped:
  assumes "run_put E root i b s = (Inl e, s')" and "block_id_ok i" and "CHR ''/'' \<notin> set (pe_random E)"
    and "pe_drop E"
  shows "fs_files s' = fs_files s"
proof
  fix p
  let ?t = "temp_path root i (pe_random E)"
  consider (prepare) r where "put_prepare E root i s = (r, s')"
    | (temp) s1 s2 where "put_prepare E root i s = (Inr (), s1)" "fs_files s1 ?t = None"
        "s' = s2\<lparr>fs_files := (fs_files s2)(?t := None)\<rparr>"
    using assms(1,4)
    by (auto simp: run_put_def Let_def io_bind_def tempfile_in_def or_drop_def temp_path_def
        split: prod.splits sum.splits option.splits if_splits)
  then show "fs_files s' p = fs_files s p"
  proof cases
    case prepare
    then show ?thesis using put_prepare_frame(1) by metis
  next
    case temp
    then show ?thesis
      using run_put_Inl(1) [OF assms(1-3), of p] put_prepare_frame(1) [OF temp(1)] by (cases "p = ?t") simp_all
  qed
qed

subsection \<open>The start-up probe\<close>

definition probe_path :: "string \<Rightarrow> string" where
  "probe_path root = path_join root probe_filename"

definition probe_temp :: "probe_env \<Rightarrow> string \<Rightarrow> string" where
  "probe_temp E root = path_join root (''.probe.'' @ pr_random E @ ''.tmp'')"

lemma probe_temp_neq: "probe_temp E root \<noteq> probe_path root"
  by (simp add: probe_temp_def probe_path_def path_join_def probe_filename_def)

lemma probe_write_Inr:
  assumes "probe_write E root s = (Inr u, s')"
  shows "fs_files s (probe_path root) = None"
    and "fs_files s' = (fs_files s)(probe_path root \<mapsto>
      \<lparr>ff_data = as_bytes ''probe'', ff_mode = mode_0600, ff_synced = True\<rparr>)"
    and "fs_dirs s' = fs_dirs s" and "fs_dirs s (probe_path root) = None"
proof -
  note defs = probe_write_def io_bind_def tempfile_in_def or_drop_def write_all_def sync_all_def
    persist_noclobber_def persist_def Let_def
  have neq: "path_join root (''.probe.'' @ pr_random E @ ''.tmp'') \<noteq> path_join root probe_filename"
    using probe_temp_neq [of E root] by (simp add: probe_temp_def probe_path_def)
  show "fs_files s (probe_path root) = None" "fs_dirs s' = fs_dirs s" "fs_dirs s (probe_path root) = None"
    using assms neq unfolding probe_path_def
    by (auto simp: defs split: prod.splits sum.splits option.splits if_splits)
  show "fs_files s' = (fs_files s)(probe_path root \<mapsto>
      \<lparr>ff_data = as_bytes ''probe'', ff_mode = mode_0600, ff_synced = True\<rparr>)"
    using assms neq unfolding probe_path_def
    by (auto simp: defs fun_eq_iff split: prod.splits sum.splits option.splits if_splits)
qed

lemma probe_write_Inl:
  assumes "probe_write E root s = (Inl e, s')"
  shows "fs_dirs s' = fs_dirs s" and "p \<noteq> probe_temp E root \<Longrightarrow> fs_files s' p = fs_files s p"
    and "pr_drop E \<Longrightarrow> fs_files s' = fs_files s"
proof -
  note defs = probe_write_def io_bind_def tempfile_in_def or_drop_def write_all_def sync_all_def
    persist_noclobber_def persist_def Let_def
  show "fs_dirs s' = fs_dirs s"
    using assms by (auto simp: defs split: prod.splits sum.splits option.splits if_splits)
  show "p \<noteq> probe_temp E root \<Longrightarrow> fs_files s' p = fs_files s p"
    using assms unfolding probe_temp_def
    by (auto simp: defs split: prod.splits sum.splits option.splits if_splits)
  show "pr_drop E \<Longrightarrow> fs_files s' = fs_files s"
    using assms
    by (auto simp: defs fun_eq_iff split: prod.splits sum.splits option.splits if_splits)
qed

lemma probe_write_calm:
  assumes "pr_temp E = None" and "pr_write E = None" and "pr_sync E = None" and "pr_persist E = None"
    and "fs_dirs s root \<noteq> None" and "fs_files s (probe_temp E root) = None" and "fs_dirs s (probe_temp E root) = None"
    and "fs_files s (probe_path root) = None" and "fs_dirs s (probe_path root) = None"
  shows "\<exists>s'. probe_write E root s = (Inr (), s')"
  using assms probe_temp_neq [of E root] unfolding probe_temp_def probe_path_def
  by (auto simp: probe_write_def io_bind_def tempfile_in_def or_drop_def write_all_def sync_all_def
    persist_noclobber_def persist_def Let_def)

subsection \<open>Properties\<close>

text \<open>An empty block root, an identifier and environments in which the system makes no fault.\<close>

definition demo_fs :: fs where
  "demo_fs = \<lparr>fs_dirs = [''/srv'' \<mapsto> 493], fs_files = Map.empty\<rparr>"

definition demo_id :: block_id where
  "demo_id = BlockId ''ABCDEFGHIJKLMNOPQRSTUVWXYZabcdefghijklmno-_''"

definition calm_put :: put_env where
  "calm_put = \<lparr>pe_mkdir = None, pe_chmod_top = None, pe_chmod_shard = None, pe_temp = None,
     pe_random = ''x7Qa'', pe_write = None, pe_sync = None, pe_persist = None, pe_drop = True\<rparr>"

definition calm_probe :: probe_env where
  "calm_probe = \<lparr>pr_metadata = None, pr_temp = None, pr_random = ''x7Qa'', pr_write = None,
     pr_sync = None, pr_persist = None, pr_remove = None, pr_drop = True\<rparr>"

lemma demo_id_ok: "block_id_ok demo_id"
  by (simp add: block_id_ok_def demo_id_def base64url_alphabet_def)

lemma demo_fs_ok: "local_ok ''/srv'' demo_fs"
  unfolding local_ok_def
proof (intro allI impI conjI ballI)
  fix i assume "block_id_ok i"
  then have "length (block_path ''/srv'' i) \<noteq> length ''/srv''" using block_path_long by simp
  then show "fs_dirs demo_fs (block_path ''/srv'' i) = None" by (auto simp: demo_fs_def)
qed (simp_all add: demo_fs_def)

lemma calm_put_ok: "put_env_ok calm_put" "put_env_calm calm_put"
  by (simp_all add: put_env_ok_def put_env_calm_def calm_put_def)

text \<open>
  C14. Atomicity of \<open>put\<close>, with the system free to fail any call, a write after any number of bytes and a
  recursive directory creation after any number of levels. If \<open>run_put\<close> returns \<open>Ok\<close>, the block reads
  back as the payload, its file has mode 0600 and is synced to disk, and no other file of the whole file
  system has changed. If it returns an error, every block reads as before, the error is not \<open>NotFound\<close>,
  and, when the unlink on drop goes through, no file at all has changed, so no temporary file is left.
\<close>

theorem put_atomic:
  assumes "local_ok root s" and "block_id_ok i" and "put_env_ok E" and "run_put E root i b s = (r, s')"
  shows "local_ok root s' \<and> (case r of
      Inr _ \<Rightarrow> fs_files s' = (fs_files s)(block_path root i \<mapsto>
                  \<lparr>ff_data = b, ff_mode = 384, ff_synced = True\<rparr>) \<and>
               (\<forall>j. block_id_ok j \<longrightarrow>
                  local_get root None j s' = (if j = i then Inr b else local_get root None j s))
    | Inl e \<Rightarrow> e \<noteq> StorageNotFound \<and>
               (\<forall>j. block_id_ok j \<longrightarrow> local_get root None j s' = local_get root None j s) \<and>
               (pe_drop E \<longrightarrow> fs_files s' = fs_files s))"
proof (cases r)
  case (Inl e)
  note put = assms(4) [unfolded Inl]
  have "CHR ''/'' \<notin> set (pe_random E)" using assms(3) by (simp add: put_env_ok_def)
  then have "pe_drop E \<longrightarrow> fs_files s' = fs_files s"
    using run_put_Inl_dropped [OF put assms(2)] by blast
  then show ?thesis
    using lfs.put_err [OF assms(1-3) put] lfs.get_after_failed_put [OF assms(1-3) put] Inl by auto
next
  case (Inr u)
  note put = assms(4) [unfolded Inr]
  have "CHR ''/'' \<notin> set (pe_random E)" using assms(3) by (simp add: put_env_ok_def)
  then have "fs_files s' = (fs_files s)(block_path root i \<mapsto> \<lparr>ff_data = b, ff_mode = 384, ff_synced = True\<rparr>)"
    using run_put_Inr(1) [OF put assms(2)] by (simp add: mode_0600_def)
  then show ?thesis
    using lfs.put_ok [OF assms(1-3) put] lfs.get_after_put [OF assms(1-3) put] Inr by auto
qed

definition full_disk_put :: put_env where
  "full_disk_put = calm_put\<lparr>pe_write := Some (2, IoStorageFull)\<rparr>"

lemma full_disk_put_run:
  "fst (run_put full_disk_put ''/srv'' demo_id [1, 2, 3] demo_fs) = Inl (StorageBackend DiskFull IoStorageFull)"
  by code_simp

lemma full_disk_put_ok: "put_env_ok full_disk_put" "pe_drop full_disk_put"
  by (simp_all add: full_disk_put_def put_env_ok_def calm_put_def)

text \<open>Witness: the disk is full after two of three bytes; nothing has changed.\<close>

theorem put_atomic_witness:
  "fst (run_put full_disk_put ''/srv'' demo_id [1, 2, 3] demo_fs) = Inl (StorageBackend DiskFull IoStorageFull) \<and>
   fs_files (snd (run_put full_disk_put ''/srv'' demo_id [1, 2, 3] demo_fs)) = fs_files demo_fs"
  using put_atomic [OF demo_fs_ok demo_id_ok full_disk_put_ok(1) prod.collapse [symmetric], of "[1, 2, 3]"]
    full_disk_put_run full_disk_put_ok(2)
  by simp

text \<open>
  C37. A \<open>put\<close> whose system calls all work, in a root that keeps the invariant, for a temporary name that is
  free, succeeds, whatever was stored under the identifier before; both shard directories then have mode
  0700, also when they existed before with another mode.
\<close>

theorem put_succeeds:
  assumes "local_ok root s" and "block_id_ok i" and "put_env_ok E" and "put_env_calm E"
    and "fs_files s (temp_path root i (pe_random E)) = None"
    and "fs_dirs s (temp_path root i (pe_random E)) = None"
  shows "\<exists>s'. run_put E root i b s = (Inr (), s') \<and> local_get root None i s' = Inr b \<and>
    fs_dirs s' (shard_dir root i) = Some 448 \<and> fs_dirs s' (path_join root (shard_top i)) = Some 448"
proof -
  obtain s' where s': "run_put E root i b s = (Inr (), s')" "fs_dirs s' (shard_dir root i) = Some mode_0700"
    "fs_dirs s' (path_join root (shard_top i)) = Some mode_0700"
    using run_put_calm [OF assms] by blast
  then show ?thesis
    using lfs.get_after_put [OF assms(1-3) s'(1) assms(2), of None] by (auto simp: mode_0700_def)
qed

text \<open>Witness: the first put into an empty root.\<close>

theorem put_succeeds_witness:
  "\<exists>s'. run_put calm_put ''/srv'' demo_id [1, 2, 3] demo_fs = (Inr (), s') \<and>
     local_get ''/srv'' None demo_id s' = Inr [1, 2, 3]"
proof -
  have "length (temp_path ''/srv'' demo_id (pe_random calm_put)) \<noteq> 4" by code_simp
  then have "fs_dirs demo_fs (temp_path ''/srv'' demo_id (pe_random calm_put)) = None"
    by (auto simp: demo_fs_def)
  then show ?thesis
    using put_succeeds [OF demo_fs_ok demo_id_ok calm_put_ok, of "[1, 2, 3]"] by (auto simp: demo_fs_def)
qed

text \<open>
  \<open>delete\<close> is idempotent: when the system calls work it returns \<open>Ok\<close> whether or not the block exists,
  after it the block is not found and every other block reads as before, and a second \<open>delete\<close> returns
  \<open>Ok\<close> and changes nothing. A failed \<open>delete\<close> changes nothing.
\<close>

theorem delete_idempotent:
  assumes "local_ok root s" and "block_id_ok i" and "block_id_ok j"
    and "local_delete root None i s = (r, s1)" and "local_delete root g i s = (Inl e, s2)"
  shows "r = Inr () \<and> local_ok root s1 \<and> local_delete root None i s1 = (Inr (), s1) \<and>
    local_get root None j s1 = (if j = i then Inl StorageNotFound else local_get root None j s) \<and> s2 = s"
proof (intro conjI)
  show "local_get root None j s1 = (if j = i then Inl StorageNotFound else local_get root None j s)" "r = Inr ()"
    using lfs.get_after_delete [OF assms(1-3) _ assms(4)] by auto
  show ok: "local_ok root s1" using lfs.delete_ok [OF assms(1,2) _ assms(4)] by simp
  have "fs_files s1 (block_path root i) = None"
    using lfs.delete_ok [OF assms(1,2) _ assms(4)] assms(2) by (auto simp: fs_view_def fun_eq_iff dest: spec [of _ i])
  then show "local_delete root None i s1 = (Inr (), s1)"
    using ok assms(2) by (simp add: local_delete_def remove_file_def local_ok_def)
  show "s2 = s" using lfs.delete_err [OF assms(1,2,5)] by simp
qed

text \<open>Witness: a block that does not exist, and a delete that the system refuses.\<close>

theorem delete_idempotent_witness:
  "local_delete ''/srv'' None demo_id (snd (local_delete ''/srv'' None demo_id demo_fs)) =
     (Inr (), snd (local_delete ''/srv'' None demo_id demo_fs)) \<and>
   snd (local_delete ''/srv'' (Some IoPermissionDenied) demo_id demo_fs) = demo_fs"
  using delete_idempotent [OF demo_fs_ok demo_id_ok demo_id_ok prod.collapse [symmetric],
    of "Some IoPermissionDenied" "StorageBackend PermissionDenied IoPermissionDenied" demo_fs]
  by (simp add: local_delete_def remove_file_def backend_error_def classify_def)

text \<open>
  C38. The start-up probe is safe. It changes no directory. If it succeeds, the root is a directory, no
  probe file was there before, and, when its final unlink works, every file is as before. If it fails, no
  file but its own temporary one has changed, in particular an existing \<open>.startup_probe\<close> has not been
  clobbered, and, when the unlink on drop works, nothing has changed. A root that is missing, that is a
  file, or that already has a \<open>.startup_probe\<close> is refused.
\<close>

theorem startup_probe_safe:
  assumes "run_init_probe E root s = (r, s')"
  shows "fs_dirs s' = fs_dirs s \<and> (case r of
      Inr _ \<Rightarrow> fs_dirs s root \<noteq> None \<and> fs_files s (path_join root ''.startup_probe'') = None \<and>
               (pr_remove E = None \<longrightarrow> fs_files s' = fs_files s)
    | Inl e \<Rightarrow> init_error_root_path e = root \<and> (\<forall>p. p \<noteq> probe_temp E root \<longrightarrow> fs_files s' p = fs_files s p) \<and>
               (pr_drop E \<longrightarrow> fs_files s' = fs_files s)) \<and>
    (fs_dirs s root = None \<or> fs_files s (path_join root ''.startup_probe'') \<noteq> None \<longrightarrow> (\<exists>e. r = Inl e))"
proof (cases "pr_metadata E = None \<and> fs_dirs s root \<noteq> None")
  case False
  then show ?thesis
    using assms by (auto simp: run_init_probe_def init_error_root_path_def split: option.splits if_splits io_error.splits)
next
  case True
  obtain w s1 where w: "probe_write E root s = (w, s1)" by fastforce
  show ?thesis
  proof (cases w)
    case (Inl e)
    then show ?thesis
      using assms True w probe_write_Inl [OF w [unfolded Inl]]
      by (auto simp: run_init_probe_def init_error_root_path_def)
  next
    case (Inr u)
    note eff = probe_write_Inr [OF w [unfolded Inr], unfolded probe_path_def]
    have "s' = snd (remove_file (pr_remove E) (path_join root probe_filename) s1)" "r = Inr ()"
      using assms True w Inr by (simp_all add: run_init_probe_def)
    then show ?thesis
      using True eff by (auto simp: remove_file_def fun_eq_iff probe_filename_def split: option.splits)
  qed
qed

text \<open>Witness: the probe of an empty root succeeds and leaves no file.\<close>

theorem startup_probe_safe_witness:
  "fst (run_init_probe calm_probe ''/srv'' demo_fs) = Inr () \<and>
   fs_files (snd (run_init_probe calm_probe ''/srv'' demo_fs)) = fs_files demo_fs"
proof -
  have "fst (run_init_probe calm_probe ''/srv'' demo_fs) = Inr ()" by code_simp
  then show ?thesis
    using startup_probe_safe [OF prod.collapse [symmetric], of calm_probe "''/srv''" demo_fs]
    by (simp add: calm_probe_def)
qed

end
