(* ===== verification/Blocks.thy ===== *)
theory Blocks
  imports Proxy Local_Fs
begin

section \<open>The block handlers (routes/api/blocks.rs)\<close>

text \<open>
  The handlers of \<open>/api/blocks/{id}\<close>. A \<^verbatim>\<open>dyn StorageProvider\<close> is a record of its operations, with the
  faults that one request meets already applied. \<^verbatim>\<open>axum::body::to_bytes\<close> is an argument; what is
  assumed of it, where it matters, is its documentation: it returns the body's data unless the data
  is longer than the limit or the stream fails. The lemmas about the handlers are proved from the contract of
  the storage interface alone.
\<close>

record 'fs storage_ops =
  so_put :: "block_id \<Rightarrow> bytes \<Rightarrow> 'fs \<Rightarrow> (storage_error + unit) \<times> 'fs"
  so_get :: "block_id \<Rightarrow> 'fs \<Rightarrow> storage_error + bytes"
  so_delete :: "block_id \<Rightarrow> 'fs \<Rightarrow> (storage_error + unit) \<times> 'fs"

type_synonym 'fs reply = "response \<times> log_event list \<times> 'fs"

subsection \<open>Response constructors\<close>

definition respond_block_200 :: "bytes \<Rightarrow> response" where
  [handler_defs]: "respond_block_200 payload = \<lparr>resp_status = 200,
     resp_headers = [(''content-type'', ''application/octet-stream''),
       (''content-length'', show_nat (length payload)), (''cache-control'', ''no-store'')],
     resp_body = payload\<rparr>"

definition respond_block_204 :: response where
  [handler_defs]: "respond_block_204 = \<lparr>resp_status = 204, resp_headers = [], resp_body = []\<rparr>"

definition respond_block_400 :: response where
  [handler_defs]: "respond_block_400 = \<lparr>resp_status = 400, resp_headers = [(''content-length'', ''0'')],
     resp_body = []\<rparr>"

definition respond_block_404 :: response where
  [handler_defs]: "respond_block_404 = \<lparr>resp_status = 404, resp_headers = [(''content-length'', ''0'')],
     resp_body = []\<rparr>"

definition retry_after_seconds :: string where
  "retry_after_seconds = ''5''"

definition respond_block_503 :: response where
  [handler_defs]: "respond_block_503 = \<lparr>resp_status = 503,
     resp_headers = [(''content-length'', ''0''), (''retry-after'', retry_after_seconds)], resp_body = []\<rparr>"

subsection \<open>Helpers\<close>

definition subject_from_request :: "'body request \<Rightarrow> string" where
  "subject_from_request r =
     (case ext_vault_subject r of Some v \<Rightarrow> vault_subject_into_string v | None \<Rightarrow> ''<unauthenticated>'')"

definition address_from_request :: "'body request \<Rightarrow> ip_addr" where
  "address_from_request r = (case ext_effective_address r of Some e \<Rightarrow> ea_addr e | None \<Rightarrow> localhost)"

definition content_length :: "'body request \<Rightarrow> u64 option" where
  "content_length r = Option.bind (header_str r ''content-length'') parse_u64"

subsection \<open>Handlers\<close>

definition handle_get :: "'fs storage_ops \<Rightarrow> block_id \<Rightarrow> string \<Rightarrow> ip_addr \<Rightarrow> 'fs \<Rightarrow> 'fs reply" where
  [handler_defs]: "handle_get ops i subject address s =
     (case so_get ops i s of
        Inr payload \<Rightarrow> (respond_block_200 payload, [BlockGetHit (block_id_as_str i) subject address], s)
      | Inl StorageNotFound \<Rightarrow> (respond_block_404, [BlockGetMiss (block_id_as_str i) subject address], s)
      | Inl (StorageBackend cause _) \<Rightarrow>
          (respond_block_503, [BlockGetBackendFailed (block_id_as_str i) subject address (cause_as_str cause)], s))"

definition handle_put ::
    "('body \<Rightarrow> nat \<Rightarrow> bytes option) \<Rightarrow> 'fs storage_ops \<Rightarrow> block_id \<Rightarrow> string \<Rightarrow> ip_addr \<Rightarrow> u64 \<Rightarrow>
     'body request \<Rightarrow> 'fs \<Rightarrow> 'fs reply" where
  [handler_defs]: "handle_put to_bytes ops i subject address block_size r s =
     (if content_length r \<noteq> None \<and> content_length r \<noteq> Some block_size then (respond_block_400, [], s)
      else
        (case checked_add block_size 1 of
           None \<Rightarrow> (respond_block_400, [], s)
         | Some limit \<Rightarrow>
        (case to_bytes (req_body r) (unat limit) of
           None \<Rightarrow> (respond_block_400, [], s)
         | Some bytes \<Rightarrow>
             if length bytes \<noteq> unat block_size then (respond_block_400, [], s)
             else
               (case so_put ops i bytes s of
                  (Inr _, s') \<Rightarrow>
                    (respond_block_204, [BlockPutOk (block_id_as_str i) subject address block_size], s')
                | (Inl (StorageBackend cause _), s') \<Rightarrow>
                    (respond_block_503,
                     [BlockPutBackendFailed (block_id_as_str i) subject address (cause_as_str cause)], s')
                | (Inl StorageNotFound, s') \<Rightarrow> (respond_block_503, [], s')))))"

definition handle_delete :: "'fs storage_ops \<Rightarrow> block_id \<Rightarrow> string \<Rightarrow> ip_addr \<Rightarrow> 'fs \<Rightarrow> 'fs reply" where
  [handler_defs]: "handle_delete ops i subject address s =
     (case so_delete ops i s of
        (Inr _, s') \<Rightarrow> (respond_block_204, [BlockDeleteOk (block_id_as_str i) subject address], s')
      | (Inl (StorageBackend cause _), s') \<Rightarrow>
          (respond_block_503,
           [BlockDeleteBackendFailed (block_id_as_str i) subject address (cause_as_str cause)], s')
      | (Inl StorageNotFound, s') \<Rightarrow>
          (respond_block_204, [BlockDeleteOk (block_id_as_str i) subject address], s'))"

definition handle_block ::
    "('body \<Rightarrow> nat \<Rightarrow> bytes option) \<Rightarrow> 'fs storage_ops \<Rightarrow> u64 \<Rightarrow> 'body request \<Rightarrow> 'fs \<Rightarrow> 'fs reply" where
  "handle_block to_bytes ops block_size r s =
     (let subject = subject_from_request r; address = address_from_request r;
          id_str = unwrap_or (strip_prefix ''/api/blocks/'' (req_path r)) [] in
      case block_id_parse id_str of
        None \<Rightarrow> (respond_block_404, [BlockGetMiss block_id_malformed subject address], s)
      | Some i \<Rightarrow>
          if req_method r = ''GET'' then handle_get ops i subject address s
          else if req_method r = ''PUT'' then handle_put to_bytes ops i subject address block_size r s
          else if req_method r = ''DELETE'' then handle_delete ops i subject address s
          else (respond_block_404, [BlockGetMiss (block_id_as_str i) subject address], s))"

text \<open>The local-filesystem provider as a trait object, with the faults of one request.\<close>

definition local_ops :: "string \<Rightarrow> put_env \<Rightarrow> io_error option \<Rightarrow> fs storage_ops" where
  "local_ops root E g =
     \<lparr>so_put = run_put E root, so_get = local_get root g, so_delete = local_delete root g\<rparr>"

subsection \<open>What the handlers do, from the contract of the storage interface\<close>

text \<open>The documentation of \<^verbatim>\<open>axum::body::to_bytes\<close>, for the data that a body carries.\<close>

definition to_bytes_documented :: "('body \<Rightarrow> nat \<Rightarrow> bytes option) \<Rightarrow> ('body \<Rightarrow> bytes option) \<Rightarrow> bool" where
  "to_bytes_documented to_bytes body_data \<longleftrightarrow>
     (\<forall>b limit. to_bytes b limit = (case body_data b of
        None \<Rightarrow> None | Some d \<Rightarrow> if length d \<le> limit then Some d else None))"

text \<open>The identifier that the path of a request names.\<close>

definition request_block_id :: "'body request \<Rightarrow> block_id option" where
  "request_block_id r = block_id_parse (unwrap_or (strip_prefix ''/api/blocks/'' (req_path r)) [])"

text \<open>A PUT body is accepted when it has exactly the configured size and no header contradicts that.\<close>

definition put_accepts :: "('body \<Rightarrow> bytes option) \<Rightarrow> u64 \<Rightarrow> 'body request \<Rightarrow> bytes \<Rightarrow> bool" where
  "put_accepts body_data n r b \<longleftrightarrow> body_data (req_body r) = Some b \<and> length b = unat n \<and>
     (content_length r = None \<or> content_length r = Some n) \<and> unat n + 1 < 2 ^ 64"

lemma request_block_id_ok: "request_block_id r = Some i \<Longrightarrow> block_id_ok i"
  using block_id_parse_ok by (auto simp: request_block_id_def)

lemma request_block_id_path:
  assumes "req_path r = ''/api/blocks/'' @ block_id_as_str i" and "block_id_ok i"
  shows "request_block_id r = Some i"
proof -
  have "strip_prefix ''/api/blocks/'' (req_path r) = Some (block_id_as_str i)"
    using assms(1) by (simp only: strip_prefix_Some_iff)
  then show ?thesis using assms(2) by (cases i) (simp add: request_block_id_def block_id_parse_iff block_id_ok_def)
qed

lemma handle_put_eq:
  assumes "to_bytes_documented tb body_data"
  shows "handle_put tb ops i sub addr n r s =
    (case body_data (req_body r) of
       Some b \<Rightarrow>
         if put_accepts body_data n r b then
           (case so_put ops i b s of
              (Inr _, s') \<Rightarrow> (respond_block_204, [BlockPutOk (block_id_as_str i) sub addr n], s')
            | (Inl (StorageBackend cause _), s') \<Rightarrow>
                (respond_block_503, [BlockPutBackendFailed (block_id_as_str i) sub addr (cause_as_str cause)], s')
            | (Inl StorageNotFound, s') \<Rightarrow> (respond_block_503, [], s'))
         else (respond_block_400, [], s)
     | None \<Rightarrow> (respond_block_400, [], s))"
proof (cases "unat n + 1 < 2 ^ 64")
  case True
  then have "checked_add n 1 = Some (n + 1)" "unat (n + 1) = unat n + 1"
    using unat_plus_no_overflow [of n 1] by (simp_all add: checked_add_def)
  then show ?thesis
    using assms True
    by (auto simp: handle_put_def to_bytes_documented_def put_accepts_def split: option.splits)
next
  case False
  then have "checked_add n 1 = None" by (simp add: checked_add_def)
  then show ?thesis using False by (simp add: handle_put_def put_accepts_def split: option.splits)
qed

lemma handle_block_dispatch:
  assumes "request_block_id r = Some i"
  shows "req_method r = ''GET'' \<Longrightarrow>
      handle_block tb ops n r s = handle_get ops i (subject_from_request r) (address_from_request r) s"
    and "req_method r = ''PUT'' \<Longrightarrow>
      handle_block tb ops n r s = handle_put tb ops i (subject_from_request r) (address_from_request r) n r s"
    and "req_method r = ''DELETE'' \<Longrightarrow>
      handle_block tb ops n r s = handle_delete ops i (subject_from_request r) (address_from_request r) s"
    and "req_method r \<notin> {''GET'', ''PUT'', ''DELETE''} \<Longrightarrow> handle_block tb ops n r s =
      (respond_block_404, [BlockGetMiss (block_id_as_str i) (subject_from_request r) (address_from_request r)], s)"
  using assms by (simp_all add: handle_block_def request_block_id_def Let_def)

lemma handle_block_malformed:
  assumes "request_block_id r = None"
  shows "handle_block tb ops n r s =
    (respond_block_404, [BlockGetMiss ''<malformed>'' (subject_from_request r) (address_from_request r)], s)"
  using assms by (simp add: handle_block_def request_block_id_def Let_def block_id_malformed_def)

context storage_provider
begin

lemma block_get:
  assumes "invar s" and "calm g" and "request_block_id r = Some i" and "req_method r = ''GET''" and "so_get ops = get g"
  shows "handle_block tb ops n r s = (case view s i of
      Some b \<Rightarrow> (respond_block_200 b,
        [BlockGetHit (block_id_as_str i) (subject_from_request r) (address_from_request r)], s)
    | None \<Rightarrow> (respond_block_404,
        [BlockGetMiss (block_id_as_str i) (subject_from_request r) (address_from_request r)], s))"
  using get_calm [OF assms(1) request_block_id_ok [OF assms(3)] assms(2)] assms(5)
  by (simp add: handle_block_dispatch(1) [OF assms(3,4)] handle_get_def split: option.splits)

lemma block_delete:
  assumes "invar s" and "calm g" and "request_block_id r = Some i" and "req_method r = ''DELETE''"
    and "so_delete ops = delete g"
  shows "\<exists>s'. handle_block tb ops n r s = (respond_block_204,
        [BlockDeleteOk (block_id_as_str i) (subject_from_request r) (address_from_request r)], s') \<and>
      invar s' \<and> view s' = (view s)(i := None)"
proof -
  obtain u s' where d: "delete g i s = (u, s')" by fastforce
  show ?thesis
    using delete_ok [OF assms(1) request_block_id_ok [OF assms(3)] assms(2) d] d assms(5)
    by (simp add: handle_block_dispatch(3) [OF assms(3,4)] handle_delete_def)
qed

lemma block_put:
  assumes "invar s" and "env_ok e" and "request_block_id r = Some i" and "req_method r = ''PUT''"
    and "so_put ops = put e" and "to_bytes_documented tb body_data"
    and "handle_block tb ops n r s = (resp, log, s')"
  shows "invar s'"
    and "(\<exists>b. put_accepts body_data n r b \<and> resp = respond_block_204 \<and> view s' = (view s)(i \<mapsto> b) \<and>
         log = [BlockPutOk (block_id_as_str i) (subject_from_request r) (address_from_request r) n]) \<or>
      (\<exists>b cause. put_accepts body_data n r b \<and> resp = respond_block_503 \<and> view s' = view s \<and>
         log = [BlockPutBackendFailed (block_id_as_str i) (subject_from_request r) (address_from_request r)
                 (cause_as_str cause)]) \<or>
      (\<nexists>b. put_accepts body_data n r b) \<and> resp = respond_block_400 \<and> s' = s \<and> log = []"
proof -
  note eq = assms(7) [unfolded handle_block_dispatch(2) [OF assms(3,4)] handle_put_eq [OF assms(6)] assms(5)]
  have only: "put_accepts body_data n r b \<Longrightarrow> body_data (req_body r) = Some b" for b
    by (simp add: put_accepts_def)
  have "invar s' \<and>
    ((\<exists>b. put_accepts body_data n r b \<and> resp = respond_block_204 \<and> view s' = (view s)(i \<mapsto> b) \<and>
         log = [BlockPutOk (block_id_as_str i) (subject_from_request r) (address_from_request r) n]) \<or>
      (\<exists>b cause. put_accepts body_data n r b \<and> resp = respond_block_503 \<and> view s' = view s \<and>
         log = [BlockPutBackendFailed (block_id_as_str i) (subject_from_request r) (address_from_request r)
                 (cause_as_str cause)]) \<or>
      (\<nexists>b. put_accepts body_data n r b) \<and> resp = respond_block_400 \<and> s' = s \<and> log = [])"
    (is "_ \<and> ?out")
  proof (cases "\<exists>b. put_accepts body_data n r b")
    case False
    then show ?thesis using eq assms(1) by (auto split: option.splits if_splits)
  next
    case True
    then obtain b where b: "put_accepts body_data n r b" by blast
    obtain res s1 where p: "put e i b s = (res, s1)" by fastforce
    note id = request_block_id_ok [OF assms(3)]
    show ?thesis
    proof (cases res)
      case (Inl err)
      then show ?thesis
        using eq p b only [OF b] put_err [OF assms(1) id assms(2) p [unfolded Inl]]
        by (cases err) auto
    next
      case (Inr u)
      then show ?thesis
        using eq p b only [OF b] put_ok [OF assms(1) id assms(2) p [unfolded Inr]] by auto
    qed
  qed
  then show "invar s'" and ?out by blast+
qed

end

subsection \<open>Properties\<close>

definition demo_block_request :: "string \<Rightarrow> bytes \<Rightarrow> bytes request" where
  "demo_block_request m body = \<lparr>req_method = m, req_headers = [(''content-length'', Some ''3'')],
     req_authority = None, req_path = ''/api/blocks/'' @ block_id_as_str demo_id,
     req_path_and_query = None, ext_connect_info = None, ext_effective_address = None,
     ext_vault_subject = Some (vault_subject_new ''u''), ext_admin_subject = None, req_body = body\<rparr>"

definition demo_to_bytes :: "bytes \<Rightarrow> nat \<Rightarrow> bytes option" where
  "demo_to_bytes b limit = (if length b \<le> limit then Some b else None)"

lemma demo_to_bytes_documented: "to_bytes_documented demo_to_bytes Some"
  by (simp add: to_bytes_documented_def demo_to_bytes_def)

lemma demo_block_request_id:
  "request_block_id (demo_block_request m b) = Some demo_id" "req_method (demo_block_request m b) = m"
proof -
  have "req_path (demo_block_request m b) = ''/api/blocks/'' @ block_id_as_str demo_id"
    by (simp add: demo_block_request_def)
  then show "request_block_id (demo_block_request m b) = Some demo_id"
    using request_block_id_path demo_id_ok by blast
qed (simp add: demo_block_request_def)

text \<open>
  C17. A \<open>PUT\<close> of a block, with the local-filesystem provider and any faults of the system. The block is
  written only when the body has exactly \<open>block_size_bytes\<close> bytes and no \<open>Content-Length\<close> header says
  otherwise. Then the answer is 204 with the payload stored under the identifier and no other block changed, or
  503 with all blocks as before. In every other case the answer is 400, nothing has changed and nothing
  is logged.
\<close>

theorem put_stores_exact_size:
  assumes "to_bytes_documented tb body_data" and "local_ok root s" and "put_env_ok E"
    and "req_method r = ''PUT''" and "request_block_id r = Some i"
    and "handle_block tb (local_ops root E g) n r s = (resp, log, s')"
  shows "local_ok root s' \<and>
    ((\<exists>b. put_accepts body_data n r b \<and>
        (resp = respond_block_204 \<and> fs_view root s' = (fs_view root s)(i \<mapsto> b) \<or>
         resp = respond_block_503 \<and> fs_view root s' = fs_view root s)) \<or>
     ((\<nexists>b. put_accepts body_data n r b) \<and> resp = respond_block_400 \<and> s' = s \<and> log = []))"
proof -
  have ops: "so_put (local_ops root E g) = run_put E root" by (simp add: local_ops_def)
  note put = lfs.block_put [OF assms(2,3,5,4) ops assms(1,6)]
  from put(2) have "(\<exists>b. put_accepts body_data n r b \<and>
        (resp = respond_block_204 \<and> fs_view root s' = (fs_view root s)(i \<mapsto> b) \<or>
         resp = respond_block_503 \<and> fs_view root s' = fs_view root s)) \<or>
     ((\<nexists>b. put_accepts body_data n r b) \<and> resp = respond_block_400 \<and> s' = s \<and> log = [])"
    by (elim disjE exE conjE) blast+
  with put(1) show ?thesis by (rule conjI)
qed

lemma demo_put_accepts: "put_accepts Some 3 (demo_block_request m [1, 2, 3]) [1, 2, 3]"
proof -
  have "parse_u64 ''3'' = Some 3" by (simp add: parse_u64_def digit_value_def Let_def)
  then show ?thesis by (simp add: put_accepts_def demo_block_request_def content_length_def header_str_def)
qed

lemma demo_put_run:
  "fst (handle_block demo_to_bytes (local_ops ''/srv'' calm_put None) 3 (demo_block_request ''PUT'' [1, 2, 3]) demo_fs) =
    respond_block_204"
proof -
  have "length (temp_path ''/srv'' demo_id (pe_random calm_put)) \<noteq> 4" by code_simp
  then have "fs_dirs demo_fs (temp_path ''/srv'' demo_id (pe_random calm_put)) = None" by (auto simp: demo_fs_def)
  then obtain s' where "run_put calm_put ''/srv'' demo_id [1, 2, 3] demo_fs = (Inr (), s')"
    using run_put_calm [OF demo_fs_ok demo_id_ok calm_put_ok, of "[1, 2, 3]"] by (auto simp: demo_fs_def)
  moreover have "req_body (demo_block_request ''PUT'' [1, 2, 3]) = [1, 2, 3]" by (simp add: demo_block_request_def)
  ultimately show ?thesis
    by (simp add: handle_block_dispatch(2) [OF demo_block_request_id] handle_put_eq [OF demo_to_bytes_documented]
        demo_put_accepts local_ops_def)
qed

text \<open>Witness: three bytes where three are configured.\<close>

theorem put_stores_exact_size_witness:
  "fs_view ''/srv'' (snd (snd (handle_block demo_to_bytes (local_ops ''/srv'' calm_put None) 3
     (demo_block_request ''PUT'' [1, 2, 3]) demo_fs))) demo_id = Some [1, 2, 3]"
proof -
  let ?out = "handle_block demo_to_bytes (local_ops ''/srv'' calm_put None) 3 (demo_block_request ''PUT'' [1, 2, 3]) demo_fs"
  have run: "?out = (respond_block_204, fst (snd ?out), snd (snd ?out))" using demo_put_run by (metis prod.collapse)
  have "respond_block_204 \<noteq> respond_block_400" "respond_block_204 \<noteq> respond_block_503"
    by (simp_all add: handler_defs)
  moreover have "req_body (demo_block_request ''PUT'' [1, 2, 3]) = [1, 2, 3]" by (simp add: demo_block_request_def)
  ultimately show ?thesis
    using put_stores_exact_size [OF demo_to_bytes_documented demo_fs_ok calm_put_ok(1) demo_block_request_id(2,1) run]
    by (auto simp: put_accepts_def)
qed

text \<open>
  C16. The block routes are a store: after a \<open>PUT\<close> of identifier \<open>i\<close> that was answered 204, a \<open>GET\<close> whose
  system calls work returns 200 with exactly the bytes of that \<open>PUT\<close>, not cacheable and with a
  \<open>Content-Length\<close> that reads back as their number; a \<open>DELETE\<close> returns 204 and after it the same \<open>GET\<close>
  returns the 404 of a block that never existed. A \<open>GET\<close> of another identifier is not affected by either.
\<close>

theorem blocks_put_get_delete:
  assumes "to_bytes_documented tb body_data" and "local_ok root s" and "put_env_ok E"
    and "req_method rp = ''PUT''" and "request_block_id rp = Some i"
    and "req_method rg = ''GET''" and "request_block_id rg = Some j"
    and "req_method rd = ''DELETE''" and "request_block_id rd = Some i"
    and "handle_block tb (local_ops root E g) n rp s = (respond_block_204, log1, s1)"
    and "handle_block tb (local_ops root E None) n rd s1 = (resp2, log2, s2)"
  shows "(i = j \<longrightarrow> (\<exists>b. body_data (req_body rp) = Some b \<and>
        fst (handle_block tb (local_ops root E None) n rg s1) = respond_block_200 b \<and>
        Option.bind (map_of (resp_headers (respond_block_200 b)) ''content-length'') parse_u64 = Some n)) \<and>
    resp2 = respond_block_204 \<and>
    (i = j \<longrightarrow> fst (handle_block tb (local_ops root E None) n rg s2) = respond_block_404) \<and>
    (i \<noteq> j \<longrightarrow> fst (handle_block tb (local_ops root E None) n rg s1) = fst (handle_block tb (local_ops root E None) n rg s) \<and>
       fst (handle_block tb (local_ops root E None) n rg s2) = fst (handle_block tb (local_ops root E None) n rg s))"
proof -
  have ops: "so_put (local_ops root E g) = run_put E root" "so_get (local_ops root E None) = local_get root None"
    "so_delete (local_ops root E None) = local_delete root None" by (simp_all add: local_ops_def)
  have ne: "respond_block_204 \<noteq> respond_block_400" "respond_block_204 \<noteq> respond_block_503"
    by (simp_all add: handler_defs)
  note put = lfs.block_put [OF assms(2,3,5,4) ops(1) assms(1,10)]
  obtain b where b: "put_accepts body_data n rp b" "fs_view root s1 = (fs_view root s)(i \<mapsto> b)"
    using put(2) ne by auto
  have del: "resp2 = respond_block_204" "local_ok root s2" "fs_view root s2 = (fs_view root s1)(i := None)"
    using lfs.block_delete [OF put(1) refl assms(9,8) ops(3), of tb n] unfolding assms(11) by (metis prod.inject)+
  note get = lfs.block_get [OF _ refl assms(7,6) ops(2)]
  have "parse_u64 (show_nat (length b)) = Some n"
    using b(1) parse_u64_show_nat [of "length b"] unsigned_less [of n] by (simp add: put_accepts_def)
  then have "Option.bind (map_of (resp_headers (respond_block_200 b)) ''content-length'') parse_u64 = Some n"
    by (simp add: respond_block_200_def)
  then show ?thesis
    using b del get [OF put(1)] get [OF del(2)] get [OF assms(2)]
    by (auto simp: put_accepts_def split: option.splits)
qed

text \<open>Witness: three bytes stored, read and deleted.\<close>

theorem blocks_put_get_delete_witness:
  "let s1 = snd (snd (handle_block demo_to_bytes (local_ops ''/srv'' calm_put None) 3
       (demo_block_request ''PUT'' [1, 2, 3]) demo_fs));
     s2 = snd (snd (handle_block demo_to_bytes (local_ops ''/srv'' calm_put None) 3 (demo_block_request ''DELETE'' []) s1))
   in fst (handle_block demo_to_bytes (local_ops ''/srv'' calm_put None) 3 (demo_block_request ''GET'' []) s1) =
        respond_block_200 [1, 2, 3] \<and>
      fst (handle_block demo_to_bytes (local_ops ''/srv'' calm_put None) 3 (demo_block_request ''GET'' []) s2) =
        respond_block_404"
proof -
  let ?ops = "local_ops ''/srv'' calm_put None"
  let ?out = "handle_block demo_to_bytes ?ops 3 (demo_block_request ''PUT'' [1, 2, 3]) demo_fs"
  let ?del = "handle_block demo_to_bytes ?ops 3 (demo_block_request ''DELETE'' []) (snd (snd ?out))"
  have run: "?out = (respond_block_204, fst (snd ?out), snd (snd ?out))" using demo_put_run by (metis prod.collapse)
  have "?del = (fst ?del, fst (snd ?del), snd (snd ?del))" by simp
  moreover have "req_body (demo_block_request ''PUT'' [1, 2, 3]) = [1, 2, 3]" by (simp add: demo_block_request_def)
  ultimately show ?thesis
    using blocks_put_get_delete [OF demo_to_bytes_documented demo_fs_ok calm_put_ok(1) demo_block_request_id(2,1)
        demo_block_request_id(2,1) demo_block_request_id(2,1) run]
    unfolding Let_def by fastforce
qed

text \<open>
  C40. One 404 for everything: a malformed identifier with any method, an absent block, and an unsupported
  method get the same response, whatever the storage provider; storage is not changed, and the one log
  entry never has the bytes of a malformed identifier.
\<close>

theorem block_404_uniform:
  assumes "request_block_id r = None \<or> req_method r \<notin> {''GET'', ''PUT'', ''DELETE''} \<or>
      (req_method r = ''GET'' \<and> (\<exists>i. request_block_id r = Some i \<and> so_get ops i s = Inl StorageNotFound))"
  shows "handle_block tb ops n r s = (\<lparr>resp_status = 404, resp_headers = [(''content-length'', ''0'')], resp_body = []\<rparr>,
    [BlockGetMiss (case request_block_id r of None \<Rightarrow> ''<malformed>'' | Some i \<Rightarrow> block_id_as_str i)
       (subject_from_request r) (address_from_request r)], s)"
proof (cases "request_block_id r")
  case None
  then show ?thesis by (simp add: handle_block_malformed respond_block_404_def)
next
  case (Some i)
  then consider "req_method r \<notin> {''GET'', ''PUT'', ''DELETE''}"
    | "req_method r = ''GET''" "so_get ops i s = Inl StorageNotFound"
    using assms by auto
  then show ?thesis
  proof cases
    case 1
    then show ?thesis using Some by (simp add: handle_block_dispatch(4) [OF Some 1] respond_block_404_def)
  next
    case 2
    then show ?thesis using Some
      by (simp add: handle_block_dispatch(1) [OF Some 2(1)] respond_block_404_def handle_get_def)
  qed
qed

text \<open>Witness: a path with a percent-encoded letter.\<close>

theorem block_404_uniform_witness:
  "fst (snd (handle_block demo_to_bytes (local_ops ''/srv'' calm_put None) 3
     ((demo_block_request ''PUT'' [1, 2, 3])\<lparr>req_path := ''/api/blocks/%41''\<rparr>) demo_fs)) =
   [BlockGetMiss ''<malformed>'' ''u'' (V4 [127, 0, 0, 1])]"
proof -
  let ?r = "(demo_block_request ''PUT'' [1, 2, 3])\<lparr>req_path := ''/api/blocks/%41''\<rparr>"
  have m: "request_block_id ?r = None" by code_simp
  then have "request_block_id ?r = None \<or> req_method ?r \<notin> {''GET'', ''PUT'', ''DELETE''} \<or>
      (req_method ?r = ''GET'' \<and> (\<exists>i. request_block_id ?r = Some i \<and>
         so_get (local_ops ''/srv'' calm_put None) i demo_fs = Inl StorageNotFound))"
    by blast
  from block_404_uniform [OF this, of demo_to_bytes 3] m show ?thesis
    by (simp add: subject_from_request_def address_from_request_def demo_block_request_def localhost_def)
qed

end
