(* ===== verification/Routes.thy ===== *)
theory Routes
  imports Blocks
begin

section \<open>Handlers and router (routes/)\<close>

text \<open>
  The remaining handlers and the assembly of the router. A router is a list of route patterns with
  their services; \<open>merge\<close> is concatenation and a layer is a function on services. What \<^verbatim>\<open>axum\<close> and
  \<^verbatim>\<open>serde_json\<close> contribute is the record \<open>web_ext\<close>: reading a body, choosing the registered pattern for a
  path, and printing a JSON body. Nothing is assumed of the choice of a pattern, so the theorems hold
  for any. What \<^verbatim>\<open>axum\<close> does to a finished response (a computed \<open>Content-Length\<close>, the empty body of
  an answer to \<open>HEAD\<close>) is outside the model.
\<close>

datatype json_body = HealthResponse bool | WhoamiResponse string

record 'body web_ext =
  web_to_bytes :: "'body \<Rightarrow> nat \<Rightarrow> bytes option"
  web_route :: "string list \<Rightarrow> string \<Rightarrow> string option"
  web_json :: "json_body \<Rightarrow> bytes"

definition json_response :: "'body web_ext \<Rightarrow> json_body \<Rightarrow> response" where
  [handler_defs]: "json_response W j = \<lparr>resp_status = 200, resp_headers = [(''content-type'', ''application/json'')],
     resp_body = web_json W j\<rparr>"

definition plain_404 :: response where
  [handler_defs]: "plain_404 = \<lparr>resp_status = 404, resp_headers = [], resp_body = []\<rparr>"

definition fallback_404 :: "('body, 'fs) service" where
  [handler_defs]: "fallback_404 r s =
     Returns (plain_404, [RequestRejected (req_method r) (req_path r) (effective_addr r)], s)"

definition reject_404 :: "('body, 'fs) service" where
  [handler_defs]: "reject_404 r s =
     Returns (plain_404, [RequestRejected (req_method r) (req_path r) (effective_addr r)], s)"

definition handle_health :: "'body web_ext \<Rightarrow> ('body, 'fs) service" where
  [handler_defs]: "handle_health W r s =
     (if req_method r = ''GET'' then Returns (json_response W (HealthResponse True), [], s)
      else reject_404 r s)"

definition method_mismatch_404 :: "('body, 'fs) service" where
  [handler_defs]: "method_mismatch_404 r s =
     Returns (plain_404, [RequestRejected (req_method r) (req_path r) (effective_addr r)], s)"

definition handle_whoami :: "'body web_ext \<Rightarrow> ('body, 'fs) service" where
  [handler_defs]: "handle_whoami W r s =
     (if req_method r \<noteq> ''GET'' then method_mismatch_404 r s
      else (case ext_vault_subject r of
              None \<Rightarrow> Returns (respond_401, [], s)
            | Some v \<Rightarrow> Returns (json_response W (WhoamiResponse (vault_subject_into_string v)), [], s)))"

definition handle_admin_whoami :: "'body web_ext \<Rightarrow> ('body, 'fs) service" where
  [handler_defs]: "handle_admin_whoami W r s =
     (if req_method r \<noteq> ''GET'' then method_mismatch_404 r s
      else (case ext_admin_subject r of
              None \<Rightarrow> Returns (respond_401, [], s)
            | Some v \<Rightarrow> Returns (json_response W (WhoamiResponse (admin_subject_into_string v)), [], s)))"

text \<open>The block handler as a service on the server state.\<close>

definition block_service :: "'body web_ext \<Rightarrow> 'fs storage_ops \<Rightarrow> u64 \<Rightarrow> ('body, 'fs) service" where
  "block_service W ops n r s =
     (let (resp, log, fs') = handle_block (web_to_bytes W) ops n r (ss_fs s) in
      Returns (resp, log, s\<lparr>ss_fs := fs'\<rparr>))"

subsection \<open>The router\<close>

type_synonym ('body, 'fs) routes = "(string \<times> ('body, 'fs) service) list"

definition block_methods :: "string list" where
  "block_methods = [''GET'', ''PUT'', ''DELETE'']"

definition block_routes ::
    "'dk ext \<Rightarrow> auth_env \<Rightarrow> 'body web_ext \<Rightarrow> u64 \<Rightarrow> nat \<times> oidc_context \<Rightarrow> 'fs storage_ops \<Rightarrow> ('body, 'fs) routes" where
  "block_routes X A W n vault ops =
     [(''/api/blocks/{id}'',
       vault_guard_layer X A (with_methods block_methods (vault_guard_new vault)) (block_service W ops n))]"

definition whoami_routes ::
    "'dk ext \<Rightarrow> auth_env \<Rightarrow> 'body web_ext \<Rightarrow> nat \<times> oidc_context \<Rightarrow> ('body, 'fs) routes" where
  "whoami_routes X A W vault =
     [(''/api/whoami'', vault_guard_layer X A (vault_guard_new vault) (handle_whoami W))]"

definition vault_routes ::
    "'dk ext \<Rightarrow> auth_env \<Rightarrow> 'body web_ext \<Rightarrow> u64 \<Rightarrow> nat \<times> oidc_context \<Rightarrow> 'fs storage_ops option \<Rightarrow>
     ('body, 'fs) routes" where
  "vault_routes X A W n vault storage =
     whoami_routes X A W vault @
     (case storage of Some ops \<Rightarrow> block_routes X A W n vault ops | None \<Rightarrow> [])"

definition admin_routes ::
    "'dk ext \<Rightarrow> auth_env \<Rightarrow> 'body web_ext \<Rightarrow> nat \<times> oidc_context \<Rightarrow> ('body, 'fs) routes" where
  "admin_routes X A W admin =
     [(''/admin/whoami'', admin_guard_layer X A (admin_guard_new admin) (handle_admin_whoami W))]"

definition dispatch :: "'body web_ext \<Rightarrow> ('body, 'fs) routes \<Rightarrow> ('body, 'fs) service \<Rightarrow> ('body, 'fs) service" where
  "dispatch W rs fallback r s =
     (case Option.bind (web_route W (map fst rs) (req_path r)) (map_of rs) of
        Some service \<Rightarrow> service r s
      | None \<Rightarrow> fallback r s)"

definition router_routes ::
    "'dk ext \<Rightarrow> auth_env \<Rightarrow> 'body web_ext \<Rightarrow> u64 \<Rightarrow> (nat \<times> oidc_context) option \<Rightarrow> (nat \<times> oidc_context) option \<Rightarrow>
     bool \<Rightarrow> 'fs storage_ops option \<Rightarrow> ('body, 'fs) routes" where
  "router_routes X A W n vault_ctx admin_ctx has_replay_store storage =
     [(''/health'', handle_health W)] @
     (case vault_ctx of
        Some vault \<Rightarrow> if has_replay_store then vault_routes X A W n vault storage else []
      | None \<Rightarrow> []) @
     (case admin_ctx of
        Some admin \<Rightarrow> if has_replay_store then admin_routes X A W admin else []
      | None \<Rightarrow> [])"

definition build_router ::
    "'dk ext \<Rightarrow> auth_env \<Rightarrow> 'body web_ext \<Rightarrow> ('net \<Rightarrow> ip_addr \<Rightarrow> bool) \<Rightarrow> 'net server_config \<Rightarrow>
     (nat \<times> oidc_context) option \<Rightarrow> (nat \<times> oidc_context) option \<Rightarrow> bool \<Rightarrow> 'fs storage_ops option \<Rightarrow>
     ('body, 'fs) service" where
  "build_router X A W net_contains cfg vault_ctx admin_ctx has_replay_store storage =
     proxy_middleware net_contains (trusted_proxies cfg)
       (dispatch W (router_routes X A W (block_size_bytes cfg) vault_ctx admin_ctx has_replay_store storage) fallback_404)"

subsection \<open>Which service answers\<close>

lemma dispatch_cases:
  assumes "dispatch W rs fallback r s = Returns out"
  obtains (fallback) "fallback r s = Returns out"
    | (route) p service where "(p, service) \<in> set rs" "service r s = Returns out"
  using assms by (auto simp: dispatch_def bind_eq_Some_conv dest: map_of_SomeD split: option.splits)

lemma build_router_cases:
  assumes "build_router X A W nc cfg vault_ctx admin_ctx rep storage r s = Returns out"
    and "r' = r\<lparr>ext_effective_address := Some (request_effective_address nc (trusted_proxies cfg) r)\<rparr>"
  obtains (fallback) "fallback_404 r' s = Returns out"
    | (health) "handle_health W r' s = Returns out"
    | (whoami) a ctx where "vault_ctx = Some (a, ctx)"
        "vault_guard_call [''GET''] X A a ctx (handle_whoami W) r' s = Returns out"
    | (block) a ctx ops where "vault_ctx = Some (a, ctx)" "storage = Some ops"
        "vault_guard_call block_methods X A a ctx (block_service W ops (block_size_bytes cfg)) r' s = Returns out"
    | (admin) a ctx where "admin_ctx = Some (a, ctx)"
        "admin_guard_call X A a ctx (handle_admin_whoami W) r' s = Returns out"
proof -
  have "dispatch W (router_routes X A W (block_size_bytes cfg) vault_ctx admin_ctx rep storage) fallback_404 r' s =
      Returns out"
    using assms by (simp add: build_router_def proxy_middleware_def)
  then show thesis
  proof (cases rule: dispatch_cases)
    case fallback
    then show thesis by (rule that(1))
  next
    case (route p service)
    from route(1) route(2) show thesis
      unfolding router_routes_def vault_routes_def whoami_routes_def block_routes_def admin_routes_def
      by (auto split: option.splits if_splits intro: that)
  qed
qed

lemma handle_whoami_get:
  "req_method r = ''GET'' \<Longrightarrow> ext_vault_subject r = Some (vault_subject_new sub) \<Longrightarrow>
    handle_whoami W r s = Returns (json_response W (WhoamiResponse sub), [], s)"
  by (simp add: handle_whoami_def)

lemma handle_admin_whoami_get:
  "req_method r = ''GET'' \<Longrightarrow> ext_admin_subject r = Some (admin_subject_new sub) \<Longrightarrow>
    handle_admin_whoami W r s = Returns (json_response W (WhoamiResponse sub), [], s)"
  by (simp add: handle_admin_whoami_def)

lemma failure_response_empty: "resp_body (failure_response f) = []"
  by (simp add: handler_defs)

text \<open>What each guarded service can answer: nothing, or something for an authenticated subject.\<close>

lemma whoami_guarded:
  assumes "subtle_decides_eq X" and "sha256_len32 X"
    and "vault_guard_call [''GET''] X A a ctx (handle_whoami W) r s = Returns (resp, log, s')"
  shows "ss_fs s' = ss_fs s \<and> (resp_body resp = [] \<or>
    (\<exists>sub. authenticated X A ctx (current_keys (ss_contexts s') a ctx) r sub \<and> resp = json_response W (WhoamiResponse sub)))"
  using assms(3) [unfolded vault_guard_call_def]
proof (cases rule: guard_call_cases)
  case bypass
  then show ?thesis by (auto simp: handle_whoami_def method_mismatch_404_def plain_404_def)
next
  case (passed sub h' st')
  have "authenticated X A ctx (current_keys h' a ctx) r sub" by (rule authenticate_common_Inr [OF assms(1,2) passed(2)])
  then show ?thesis using passed(1,3) by (auto simp: handle_whoami_get)
next
  case (failed f h')
  then show ?thesis by (simp add: failure_response_empty)
qed

lemma admin_guarded:
  assumes "subtle_decides_eq X" and "sha256_len32 X"
    and "admin_guard_call X A a ctx (handle_admin_whoami W) r s = Returns (resp, log, s')"
  shows "ss_fs s' = ss_fs s \<and> (resp_body resp = [] \<or>
    (\<exists>sub. authenticated X A ctx (current_keys (ss_contexts s') a ctx) r sub \<and> resp = json_response W (WhoamiResponse sub)))"
  using assms(3) [unfolded admin_guard_call_def]
proof (cases rule: guard_call_cases)
  case bypass
  then show ?thesis by (auto simp: handle_admin_whoami_def method_mismatch_404_def plain_404_def)
next
  case (passed sub h' st')
  have "authenticated X A ctx (current_keys h' a ctx) r sub" by (rule authenticate_common_Inr [OF assms(1,2) passed(2)])
  then show ?thesis using passed(1,3) by (auto simp: handle_admin_whoami_get)
next
  case (failed f h')
  then show ?thesis by (simp add: failure_response_empty)
qed

lemma block_unguarded:
  assumes "req_method r \<notin> set block_methods" and "block_service W ops n r s = Returns (resp, log, s')"
  shows "resp = respond_block_404" and "s' = s"
    and "\<exists>x. log = [BlockGetMiss x (subject_from_request r) (address_from_request r)]"
proof -
  have "handle_block (web_to_bytes W) ops n r (ss_fs s) = (respond_block_404,
      [BlockGetMiss (case request_block_id r of None \<Rightarrow> ''<malformed>'' | Some i \<Rightarrow> block_id_as_str i)
         (subject_from_request r) (address_from_request r)], ss_fs s)"
    using assms(1) by (cases "request_block_id r")
      (simp_all add: handle_block_malformed handle_block_dispatch(4) block_methods_def)
  then show "resp = respond_block_404" "s' = s"
    "\<exists>x. log = [BlockGetMiss x (subject_from_request r) (address_from_request r)]"
    using assms(2) by (auto simp: block_service_def)
qed

lemma block_guarded:
  assumes "subtle_decides_eq X" and "sha256_len32 X"
    and "vault_guard_call block_methods X A a ctx (block_service W ops n) r s = Returns (resp, log, s')"
  shows "(ss_fs s' = ss_fs s \<and> resp_body resp = []) \<or>
    (\<exists>sub. authenticated X A ctx (current_keys (ss_contexts s') a ctx) r sub \<and> req_method r \<in> set block_methods \<and>
       handle_block (web_to_bytes W) ops n (r\<lparr>ext_vault_subject := Some (vault_subject_new sub)\<rparr>) (ss_fs s) =
         (resp, log, ss_fs s'))"
  using assms(3) [unfolded vault_guard_call_def]
proof (cases rule: guard_call_cases)
  case bypass
  then show ?thesis using block_unguarded(1,2) [OF bypass] by (simp add: respond_block_404_def)
next
  case (passed sub h' st')
  have "authenticated X A ctx (current_keys h' a ctx) r sub" by (rule authenticate_common_Inr [OF assms(1,2) passed(2)])
  then show ?thesis using passed(1,3) by (auto simp: block_service_def split: prod.splits)
next
  case (failed f h')
  then show ?thesis by (simp add: failure_response_empty)
qed

text \<open>A response that does not show that a route exists.\<close>

definition hides_route :: "response \<Rightarrow> bool" where
  "hides_route resp \<longleftrightarrow> resp_status resp = 404 \<and> resp_body resp = [] \<and>
     (\<forall>(name, v) \<in> set (resp_headers resp). name = ''content-length'' \<and> v = ''0'')"

lemma hides_route_404: "hides_route plain_404" "hides_route respond_block_404"
  by (simp_all add: hides_route_def handler_defs)

lemma routes_hidden:
  assumes "req_method r \<notin> set block_methods"
    and "(p, service) \<in> set (router_routes X A W n vault_ctx admin_ctx rep storage)"
  shows "\<exists>resp ev. service r s = Returns (resp, [ev], s) \<and> hides_route resp"
proof -
  have m: "req_method r \<noteq> ''GET''" using assms(1) by (auto simp: block_methods_def)
  have block: "\<exists>resp ev. block_service W ops n r s = Returns (resp, [ev], s) \<and> hides_route resp" for ops
  proof -
    obtain resp log s' where b: "block_service W ops n r s = Returns (resp, log, s')"
      by (cases "handle_block (web_to_bytes W) ops n r (ss_fs s)") (auto simp: block_service_def)
    show ?thesis using block_unguarded [OF assms(1) b] b hides_route_404(2) by auto
  qed
  show ?thesis
    using assms m block hides_route_404(1)
    by (auto simp: router_routes_def vault_routes_def whoami_routes_def block_routes_def admin_routes_def
        vault_guard_call_def admin_guard_call_def guard_call_def handle_health_def reject_404_def handle_whoami_def
        handle_admin_whoami_def method_mismatch_404_def split: option.splits if_splits)
qed

subsection \<open>Properties\<close>

definition demo_web :: "unit web_ext" where
  "demo_web = \<lparr>web_to_bytes = (\<lambda>_ _. None), web_route = (\<lambda>_ p. if p = ''/x'' then Some ''/api/whoami'' else None),
     web_json = (\<lambda>j. case j of HealthResponse _ \<Rightarrow> as_bytes ''alive'' | WhoamiResponse sub \<Rightarrow> as_bytes sub)\<rparr>"

definition demo_server_config :: "unit server_config" where
  "demo_server_config = \<lparr>bind_address = SocketV4 [127, 0, 0, 1] 80, block_size_bytes = 3, backend = BackendNone,
     trusted_proxies = [], vault_oidc = \<lparr>oc_issuer_url = demo_url ''v'', oc_audience = ''v''\<rparr>,
     admin_oidc = \<lparr>oc_issuer_url = demo_url ''a'', oc_audience = ''a''\<rparr>, drain_timeout = 30,
     auth = auth_config_default\<rparr>"

text \<open>Plain http from the direct peer is what a request without an effective address is taken to have.\<close>

lemma authenticate_common_plain:
  assumes "ext_effective_address r = None" and "ea_scheme e = SchemeHttp"
  shows "authenticate_common X A a ctx (r\<lparr>ext_effective_address := Some e\<rparr>) h st = authenticate_common X A a ctx r h st"
proof -
  let ?r = "r\<lparr>ext_effective_address := Some e\<rparr>"
  have same: "extract_token ?r = extract_token r" "extract_proof ?r = extract_proof r" "req_method ?r = req_method r"
    by (simp_all add: extract_token_def extract_proof_def header_str_def)
  have "build_effective_uri X ?r = build_effective_uri X r"
    using assms by (simp add: build_effective_uri_def header_str_def)
  then show ?thesis unfolding authenticate_common_def same by (simp only:)
qed

lemma demo_router_run:
  "build_router (demo_auth_ext 100) demo_auth_env demo_web (\<lambda>_ _. False) demo_server_config
     (Some (vault_addr, demo_vault_context)) None True None (demo_request ''GET'' ''/x'') demo_state =
   Returns (json_response demo_web (WhoamiResponse ''u''), [],
     demo_state\<lparr>ss_replay := snd (try_insert (replay_store_new auth_config_default) demo_key (90 * nanos_per_sec))\<rparr>)"
proof -
  let ?r = "demo_request ''GET'' ''/x''"
  obtain e where e: "request_effective_address (\<lambda>_ _. False) (trusted_proxies demo_server_config) ?r = e" "ea_scheme e = SchemeHttp"
    by (simp add: request_effective_address_def resolve_effective_address_def Let_def demo_server_config_def)
  have r: "ext_effective_address ?r = None" "req_path ?r = ''/x''" "req_method ?r = ''GET''"
    by (simp_all add: demo_request_def)
  have "authenticate_common (demo_auth_ext 100) demo_auth_env vault_addr demo_vault_context
      (?r\<lparr>ext_effective_address := Some e\<rparr>) demo_ctx_heap (replay_store_new auth_config_default) =
     Returns (Inr ''u'', demo_ctx_heap, snd (try_insert (replay_store_new auth_config_default) demo_key (90 * nanos_per_sec)))"
    unfolding authenticate_common_plain [OF r(1) e(2)] by (rule demo_authenticate)
  then show ?thesis
    by (simp add: build_router_def proxy_middleware_def e(1) dispatch_def router_routes_def vault_routes_def
        whoami_routes_def demo_web_def vault_guard_call_def guard_call_def r demo_state_def Let_def handle_whoami_def)
qed

text \<open>
  C10. Nothing without authentication. Whatever the request, the routing and the faults: if the whole
  server answers with a body or changes the stored blocks, then the request was \<open>GET /health\<close>'s constant
  answer, or the vault context accepted its token and proof and the answer is that subject's own name or
  what the block handler does for that subject, or the admin context accepted them and the answer is
  that subject's name with the stored blocks unchanged.
\<close>

theorem storage_needs_authentication:
  assumes "subtle_decides_eq X" and "sha256_len32 X"
    and "build_router X A W nc cfg vault_ctx admin_ctx rep storage r s = Returns (resp, log, s')"
    and "resp_body resp \<noteq> [] \<or> ss_fs s' \<noteq> ss_fs s"
    and "r' = r\<lparr>ext_effective_address := Some (request_effective_address nc (trusted_proxies cfg) r)\<rparr>"
  shows "(req_method r = ''GET'' \<and> resp = json_response W (HealthResponse True) \<and> s' = s) \<or>
    (\<exists>a ctx sub. vault_ctx = Some (a, ctx) \<and> authenticated X A ctx (current_keys (ss_contexts s') a ctx) r' sub \<and>
       ((resp = json_response W (WhoamiResponse sub) \<and> ss_fs s' = ss_fs s) \<or>
        (\<exists>ops. storage = Some ops \<and> req_method r \<in> {''GET'', ''PUT'', ''DELETE''} \<and>
           handle_block (web_to_bytes W) ops (block_size_bytes cfg)
             (r'\<lparr>ext_vault_subject := Some (vault_subject_new sub)\<rparr>) (ss_fs s) = (resp, log, ss_fs s')))) \<or>
    (\<exists>a ctx sub. admin_ctx = Some (a, ctx) \<and> authenticated X A ctx (current_keys (ss_contexts s') a ctx) r' sub \<and>
       resp = json_response W (WhoamiResponse sub) \<and> ss_fs s' = ss_fs s)"
  using assms(3,5)
proof (cases rule: build_router_cases)
  case fallback
  then show ?thesis using assms(4) by (auto simp: fallback_404_def plain_404_def)
next
  case health
  then show ?thesis
    using assms(4,5) by (auto simp: handle_health_def reject_404_def plain_404_def split: if_splits)
next
  case (whoami a ctx)
  then show ?thesis using whoami_guarded [OF assms(1,2) whoami(2)] assms(4) by blast
next
  case (block a ctx ops)
  have "req_method r' = req_method r" using assms(5) by simp
  then have "req_method r' \<in> set block_methods \<longleftrightarrow> req_method r \<in> {''GET'', ''PUT'', ''DELETE''}"
    by (simp add: block_methods_def)
  then show ?thesis using block_guarded [OF assms(1,2) block(3)] block(1,2) assms(4) by blast
next
  case (admin a ctx)
  then show ?thesis using admin_guarded [OF assms(1,2) admin(2)] assms(4) by blast
qed

text \<open>Witness: \<open>GET /api/whoami\<close> with a token and a proof.\<close>

theorem storage_needs_authentication_witness:
  "\<exists>keys sub. authenticated (demo_auth_ext 100) demo_auth_env demo_vault_context keys
     ((demo_request ''GET'' ''/x'')\<lparr>ext_effective_address :=
        Some (request_effective_address (\<lambda>_ _. False) (trusted_proxies demo_server_config) (demo_request ''GET'' ''/x''))\<rparr>) sub \<and>
     json_response demo_web (WhoamiResponse ''u'') = json_response demo_web (WhoamiResponse sub)"
proof -
  have b: "resp_body (json_response demo_web (WhoamiResponse ''u'')) \<noteq> []"
    by (simp add: json_response_def demo_web_def as_bytes_def)
  have ne: "json_response demo_web (WhoamiResponse ''u'') \<noteq> json_response demo_web (HealthResponse True)"
    by (simp add: json_response_def demo_web_def)
  show ?thesis
    using storage_needs_authentication [OF demo_auth_ext_laws demo_router_run disjI1 [OF b] refl] ne by auto
qed

text \<open>
  C15. Other methods reveal nothing. A request whose method is not \<open>GET\<close>, \<open>PUT\<close> or \<open>DELETE\<close>, to any path,
  with or without credentials, is always answered: 404, empty, with no header but possibly a
  \<open>Content-Length\<close> of 0 (so neither \<open>Allow\<close> nor \<open>WWW-Authenticate\<close>); it leaves the whole server state
  as it was and writes one log entry.
\<close>

theorem other_methods_hidden:
  assumes "req_method r \<notin> {''GET'', ''PUT'', ''DELETE''}"
  shows "\<exists>resp ev. build_router X A W nc cfg vault_ctx admin_ctx rep storage r s = Returns (resp, [ev], s) \<and>
    resp_status resp = 404 \<and> resp_body resp = [] \<and>
    set (resp_headers resp) \<subseteq> {(''content-length'', ''0'')}"
proof -
  let ?r = "r\<lparr>ext_effective_address := Some (request_effective_address nc (trusted_proxies cfg) r)\<rparr>"
  let ?rs = "router_routes X A W (block_size_bytes cfg) vault_ctx admin_ctx rep storage"
  have m: "req_method ?r \<notin> set block_methods" using assms by (simp add: block_methods_def)
  have "\<exists>resp ev. dispatch W ?rs fallback_404 ?r s = Returns (resp, [ev], s) \<and> hides_route resp"
  proof (cases "Option.bind (web_route W (map fst ?rs) (req_path ?r)) (map_of ?rs)")
    case None
    then show ?thesis using hides_route_404(1) by (simp add: dispatch_def fallback_404_def)
  next
    case (Some service)
    then obtain p where "(p, service) \<in> set ?rs" by (auto simp: bind_eq_Some_conv dest: map_of_SomeD)
    then show ?thesis using routes_hidden [OF m] Some by (simp add: dispatch_def)
  qed
  then show ?thesis by (fastforce simp: build_router_def proxy_middleware_def hides_route_def)
qed

text \<open>Witness: a \<open>POST\<close> with valid credentials.\<close>

theorem other_methods_hidden_witness:
  "\<exists>resp ev. build_router (demo_auth_ext 100) demo_auth_env demo_web (\<lambda>_ _. False) demo_server_config
      (Some (vault_addr, demo_vault_context)) None True None (demo_request ''POST'' ''/x'') demo_state =
      Returns (resp, [ev], demo_state) \<and> resp_status resp = 404"
  using other_methods_hidden [of "demo_request ''POST'' ''/x''"] by (fastforce simp: demo_request_def)

end
