(* ===== verification/Lifecycle.thy ===== *)
theory Lifecycle
  imports Tasks Routes
begin

section \<open>Start-up, serving and shutdown (app.rs, shutdown/mod.rs, main.rs, cli/mod.rs)\<close>

text \<open>
  \<open>run\<close> is modelled in two halves. The bootstrap goes through its steps in order and stops at the
  first that fails; every step's answer from outside (environment, files, network, sockets, signal
  handlers) is part of its environment. Serving is modelled in time: when, if ever, the future of
  \<^verbatim>\<open>axum::serve\<close> completes and with what, and when, if ever, a signal arrives; the drain timer is
  armed when the shutdown future resolves. Instants are in nanoseconds. \<^term>\<open>None\<close> is a server that
  runs for ever. The background tasks, spawned just before serving, are those of the previous theory.
\<close>

subsection \<open>The command line and log levels\<close>

datatype log_level = LevelTrace | LevelDebug | LevelInfo | LevelWarn | LevelError

datatype tracing_level = TRACE | DEBUG | INFO | WARN | ERROR

definition as_tracing_level :: "log_level \<Rightarrow> tracing_level" where
  "as_tracing_level l = (case l of
      LevelTrace \<Rightarrow> TRACE | LevelDebug \<Rightarrow> DEBUG | LevelInfo \<Rightarrow> INFO | LevelWarn \<Rightarrow> WARN | LevelError \<Rightarrow> ERROR)"

subsection \<open>Signals\<close>

datatype shutdown_signal = SIGINT | SIGTERM | SIGHUP

definition signal_name :: "shutdown_signal \<Rightarrow> string" where
  "signal_name s = (case s of SIGINT \<Rightarrow> ''SIGINT'' | SIGTERM \<Rightarrow> ''SIGTERM'' | SIGHUP \<Rightarrow> ''SIGHUP'')"

text \<open>The handlers are installed in turn; the first that the system refuses ends it.\<close>

definition install_signals :: "io_error option \<Rightarrow> io_error option \<Rightarrow> io_error option \<Rightarrow> io_error + unit" where
  "install_signals sigint sigterm sighup =
     (case sigint of Some e \<Rightarrow> Inl e | None \<Rightarrow>
     (case sigterm of Some e \<Rightarrow> Inl e | None \<Rightarrow>
     (case sighup of Some e \<Rightarrow> Inl e | None \<Rightarrow> Inr ())))"

definition wait_for_signal :: "shutdown_signal \<Rightarrow> u64 \<Rightarrow> log_event list" where
  "wait_for_signal s timeout = [ServerShutdownInitiated (signal_name s) timeout]"

text \<open>
  The shutdown future of \<open>shutdown_coordinator\<close>: it logs and turns the watch from false to true, which is
  what the background tasks' receivers see.
\<close>

definition shutdown_future :: "shutdown_signal \<Rightarrow> u64 \<Rightarrow> bool \<Rightarrow> log_event list \<times> bool" where
  "shutdown_future s timeout watch = (wait_for_signal s timeout, True)"

subsection \<open>Errors\<close>

text \<open>The text of \<^verbatim>\<open>AppError::Auth\<close> is kept as the error it was formatted from.\<close>

datatype auth_start_error =
    ExtraCaRead string string
  | ExtraCaParse string string
  | ClientBuild string
  | ContextInit context_init_error

datatype app_error =
    AppConfig config_error
  | AppBind socket_addr io_error
  | AppSignalSetup io_error
  | AppServe io_error
  | AppAuth auth_start_error
  | AppStorage storage_init_error

subsection \<open>Bootstrap\<close>

record 'net boot_env =
  be_vars :: "(string \<times> string) list"
  be_parse_net :: "string \<Rightarrow> string + 'net"
  be_read_to_string :: "string \<Rightarrow> string + string"
  be_toml_from_str :: "string \<Rightarrow> string + partial_config"
  be_read_pem :: "string \<Rightarrow> string + bytes"
  be_from_pem :: "bytes \<Rightarrow> string + unit"
  be_client_build :: "string + unit"
  be_http :: "nat \<Rightarrow> string \<Rightarrow> http_reply"
  be_probe :: probe_env
  be_bind :: "io_error + unit"
  be_local_addr :: "io_error + socket_addr"
  be_sigint :: "io_error option"
  be_sigterm :: "io_error option"
  be_sighup :: "io_error option"

record 'net booted =
  bd_config :: "'net server_config"
  bd_contexts :: ctx_heap
  bd_replay :: jti_replay_store
  bd_storage :: "string option"
  bd_addr :: socket_addr

definition load_extra_ca :: "'net boot_env \<Rightarrow> auth_start_error + unit" where
  "load_extra_ca B =
     bind_result (map_err (\<lambda>e. case e of ExtraCaErrorRead path source \<Rightarrow> ExtraCaRead path source) (load_optional_pem (be_read_pem B) (map_of (be_vars B) ''APOK_EXTRA_CA_CERT_FILE''))) (\<lambda>ca.
     case ca of
       None \<Rightarrow> Inr ()
     | Some (path, pem) \<Rightarrow> map_err (ExtraCaParse path) (be_from_pem B pem))"

text \<open>From the storage provider on: log, bind, signals, ready.\<close>

definition boot_listener ::
    "'net boot_env \<Rightarrow> 'net server_config \<Rightarrow> ctx_heap \<Rightarrow> string option \<Rightarrow> app_error + 'net booted" where
  "boot_listener B cfg contexts storage =
     bind_result (map_err (AppBind (bind_address cfg)) (be_bind B)) (\<lambda>_.
     bind_result (map_err (AppBind (bind_address cfg)) (be_local_addr B)) (\<lambda>local_addr.
     bind_result (map_err AppSignalSetup (install_signals (be_sigint B) (be_sigterm B) (be_sighup B))) (\<lambda>_.
     Inr \<lparr>bd_config = cfg, bd_contexts = contexts, bd_replay = replay_store_new (auth cfg),
          bd_storage = storage, bd_addr = local_addr\<rparr>)))"

definition storage_ready_log :: "'net server_config \<Rightarrow> log_event list" where
  "storage_ready_log cfg = (case backend cfg of
      BackendLocalFs root \<Rightarrow> [StorageStartupReady root] | BackendNone \<Rightarrow> [])"

definition boot_storage ::
    "'net boot_env \<Rightarrow> 'net server_config \<Rightarrow> ctx_heap \<Rightarrow> fs \<Rightarrow>
     (app_error + 'net booted) \<times> log_event list \<times> fs" where
  "boot_storage B cfg contexts s =
     (case init_from_config (be_probe B) cfg s of
        (Inl e, s') \<Rightarrow>
          (Inl (AppStorage e),
           [StorageStartupFailed (init_error_root_path e) (init_error_step e) (init_error_cause e)], s')
      | (Inr storage, s') \<Rightarrow>
          (case boot_listener B cfg contexts storage of
             Inl e \<Rightarrow> (Inl e, storage_ready_log cfg, s')
           | Inr b \<Rightarrow> (Inr b, storage_ready_log cfg @ [ServerStarted (bd_addr b)], s')))"

definition bootstrap ::
    "'dk ext \<Rightarrow> 'net boot_env \<Rightarrow> fs \<Rightarrow> ((app_error + 'net booted) \<times> log_event list \<times> fs) outcome" where
  "bootstrap X B s =
     (case load X (be_parse_net B) (be_read_to_string B) (be_toml_from_str B) (be_vars B) of
        Inl e \<Rightarrow> Returns (Inl (AppConfig e), [], s)
      | Inr cfg \<Rightarrow>
     (case load_extra_ca B of
        Inl e \<Rightarrow> Returns (Inl (AppAuth e), [], s)
      | Inr _ \<Rightarrow>
     (case be_client_build B of
        Inl e \<Rightarrow> Returns (Inl (AppAuth (ClientBuild e)), [], s)
      | Inr _ \<Rightarrow>
     bind_outcome (init_contexts X (be_http B) cfg) (\<lambda>r. Returns
     (case r of
        Inl e \<Rightarrow> (Inl (AppAuth (ContextInit e)), [], s)
      | Inr contexts \<Rightarrow> boot_storage B cfg contexts s)))))"

subsection \<open>Serving\<close>

record serve_env =
  sv_done :: "(nat \<times> (io_error + unit)) option"
  sv_signal :: "(nat \<times> shutdown_signal) option"
  sv_serve_first :: bool

definition serve_result :: "io_error + unit \<Rightarrow> (app_error + unit) \<times> log_event list" where
  "serve_result r = (case r of
      Inr _ \<Rightarrow> (Inr (), [ServerShutdownCompleted True])
    | Inl e \<Rightarrow> (Inl (AppServe e), [ServerShutdownCompleted False]))"

text \<open>Phase 2: the timer runs from the moment the shutdown future resolved.\<close>

definition drain_phase ::
    "u64 \<Rightarrow> nat \<Rightarrow> (nat \<times> (io_error + unit)) option \<Rightarrow> nat \<times> (app_error + unit) \<times> log_event list" where
  "drain_phase timeout start served =
     (let deadline = start + unat timeout * nanos_per_sec in
      case served of
        Some (t, r) \<Rightarrow>
          if t \<le> deadline then (max start t, serve_result r)
          else (deadline, Inr (), [ServerShutdownCompleted False])
      | None \<Rightarrow> (deadline, Inr (), [ServerShutdownCompleted False]))"

text \<open>
  Phase 1 selects between the serve future and the notification that the shutdown future has
  resolved; when both are ready the choice is the runtime's.
\<close>

definition serve_with_shutdown_inner ::
    "u64 \<Rightarrow> serve_env \<Rightarrow> (nat \<times> (app_error + unit) \<times> log_event list) option" where
  "serve_with_shutdown_inner timeout V =
     (case sv_signal V of
        None \<Rightarrow> map_option (\<lambda>(t, r). (t, serve_result r)) (sv_done V)
      | Some (ts, sig) \<Rightarrow>
          (let initiated = fst (shutdown_future sig timeout False);
               drained = (let (t, r, log) = drain_phase timeout ts (sv_done V) in (t, r, initiated @ log)) in
           case sv_done V of
             None \<Rightarrow> Some drained
           | Some (t, r) \<Rightarrow>
               if t < ts then Some (t, serve_result r)
               else if t = ts \<and> sv_serve_first V
               then (let (q, log) = serve_result r in Some (t, q, initiated @ log))
               else Some drained))"

definition run ::
    "'dk ext \<Rightarrow> 'net boot_env \<Rightarrow> serve_env \<Rightarrow> fs \<Rightarrow> ((app_error + unit) \<times> log_event list) option outcome" where
  "run X B V s =
     bind_outcome (bootstrap X B s) (\<lambda>(res, log, _). Returns
       (case res of
          Inl e \<Rightarrow> Some (Inl e, log)
        | Inr b \<Rightarrow> map_option (\<lambda>(_, r, log'). (r, log @ log'))
                     (serve_with_shutdown_inner (drain_timeout (bd_config b)) V)))"

text \<open>The exit code of the process, given whether the runtime could be built.\<close>

definition main_exit :: "bool \<Rightarrow> 'dk ext \<Rightarrow> 'net boot_env \<Rightarrow> serve_env \<Rightarrow> fs \<Rightarrow> nat option outcome" where
  "main_exit runtime_built X B V s =
     (if \<not> runtime_built then Returns (Some 1)
      else bind_outcome (run X B V s) (\<lambda>out. Returns
             (map_option (\<lambda>(r, _). case r of Inr _ \<Rightarrow> 0 | Inl _ \<Rightarrow> 1) out)))"

subsection \<open>Serving ends once, in time and for a reason\<close>

definition is_completed :: "log_event \<Rightarrow> bool" where
  "is_completed e = (case e of ServerShutdownCompleted _ \<Rightarrow> True | _ \<Rightarrow> False)"

lemma is_completed_simps [simp]:
  "is_completed (ServerShutdownCompleted c)"
  "\<not> is_completed (ServerShutdownInitiated n t)"
  "\<not> is_completed (ServerStarted a)"
  "\<not> is_completed (StorageStartupReady p)"
  by (simp_all add: is_completed_def)

lemmas serving_defs = serve_with_shutdown_inner_def drain_phase_def serve_result_def
  shutdown_future_def wait_for_signal_def Let_def

lemma serve_choice_irrelevant:
  "serve_with_shutdown_inner T (V\<lparr>sv_serve_first := c\<rparr>) = serve_with_shutdown_inner T V"
  by (auto simp: serving_defs split: option.splits sum.splits)

lemma serve_without_signal:
  "sv_signal V = None \<Longrightarrow> serve_with_shutdown_inner T V = map_option (\<lambda>(t, r). (t, serve_result r)) (sv_done V)"
  by (simp add: serve_with_shutdown_inner_def)

lemma serve_before_signal:
  "sv_signal V = Some (ts, sig) \<Longrightarrow> sv_done V = Some (t, r) \<Longrightarrow> t < ts
   \<Longrightarrow> serve_with_shutdown_inner T V = Some (t, serve_result r)"
  by (simp add: serve_with_shutdown_inner_def Let_def)

lemma serve_in_drain:
  "sv_signal V = Some (ts, sig) \<Longrightarrow> sv_done V = Some (t, r) \<Longrightarrow> ts \<le> t \<Longrightarrow> t \<le> ts + unat T * nanos_per_sec
   \<Longrightarrow> serve_with_shutdown_inner T V
       = Some (t, fst (serve_result r), ServerShutdownInitiated (signal_name sig) T # snd (serve_result r))"
  by (auto simp: serving_defs split: sum.splits)

lemma serve_forced:
  assumes "sv_signal V = Some (ts, sig)"
    and "\<And>t r. sv_done V = Some (t, r) \<Longrightarrow> ts + unat T * nanos_per_sec < t"
  shows "serve_with_shutdown_inner T V
       = Some (ts + unat T * nanos_per_sec, Inr (), [ServerShutdownInitiated (signal_name sig) T, ServerShutdownCompleted False])"
  using assms by (auto simp: serving_defs split: option.splits sum.splits; force)

text \<open>The ways in which serving can go, one per disjunct.\<close>

lemma serve_cases:
  obtains (for_ever) "sv_signal V = None" "sv_done V = None" "serve_with_shutdown_inner T V = None"
  | (unsignalled) t r where "sv_done V = Some (t, r)" "\<And>ts sig. sv_signal V = Some (ts, sig) \<Longrightarrow> t < ts"
      "serve_with_shutdown_inner T V = Some (t, serve_result r)"
  | (drained) ts sig t r where "sv_signal V = Some (ts, sig)" "sv_done V = Some (t, r)"
      "ts \<le> t" "t \<le> ts + unat T * nanos_per_sec"
      "serve_with_shutdown_inner T V
       = Some (t, fst (serve_result r), ServerShutdownInitiated (signal_name sig) T # snd (serve_result r))"
  | (forced) ts sig where "sv_signal V = Some (ts, sig)"
      "\<And>t r. sv_done V = Some (t, r) \<Longrightarrow> ts + unat T * nanos_per_sec < t"
      "serve_with_shutdown_inner T V
       = Some (ts + unat T * nanos_per_sec, Inr (), [ServerShutdownInitiated (signal_name sig) T, ServerShutdownCompleted False])"
proof (cases "sv_signal V")
  case None
  then show thesis
    using for_ever unsignalled by (cases "sv_done V") (auto simp: serve_without_signal)
next
  case (Some a)
  obtain ts sig where sg: "sv_signal V = Some (ts, sig)" using Some by (cases a) simp
  show thesis
  proof (cases "\<exists>t r. sv_done V = Some (t, r) \<and> t \<le> ts + unat T * nanos_per_sec")
    case True
    then obtain t r where d: "sv_done V = Some (t, r)" "t \<le> ts + unat T * nanos_per_sec" by blast
    show thesis
    proof (cases "t < ts")
      case True
      show thesis by (rule unsignalled [OF d(1)]) (use sg d True in \<open>auto simp: serve_before_signal\<close>)
    next
      case False
      show thesis by (rule drained [OF sg d(1)]) (use sg d False in \<open>auto simp: serve_in_drain\<close>)
    qed
  next
    case False
    have late: "\<And>t r. sv_done V = Some (t, r) \<Longrightarrow> ts + unat T * nanos_per_sec < t" using False by force
    show thesis by (rule forced [OF sg late serve_forced [OF sg late]])
  qed
qed

text \<open>
  C19. Serving ends by a signal plus the drain timeout at the latest, and never by the timer alone:
  it runs for ever exactly when there is neither a signal nor an end of the serve future. On every
  way out exactly one \<^term>\<open>ServerShutdownCompleted\<close> is logged, as the last event; it says clean
  exactly when the serve future ended well in time. The shutdown is announced exactly when a signal
  had arrived. An error comes only from the serve future, so a forced close is not one; and which
  future the runtime looks at first when both are ready makes no difference.
\<close>
theorem serving_ends_once_and_in_time:
  "(case serve_with_shutdown_inner T V of
      None \<Rightarrow> sv_signal V = None \<and> sv_done V = None
    | Some (t, r, log) \<Rightarrow>
        (\<forall>ts sig. sv_signal V = Some (ts, sig) \<longrightarrow> t \<le> ts + unat T * nanos_per_sec)
        \<and> ((\<exists>q. sv_done V = Some (t, q)) \<or> (\<exists>ts sig. sv_signal V = Some (ts, sig) \<and> t = ts + unat T * nanos_per_sec))
        \<and> filter is_completed log = [ServerShutdownCompleted (sv_done V = Some (t, Inr ()))]
        \<and> is_completed (last log)
        \<and> (\<forall>name T'. ServerShutdownInitiated name T' \<in> set log
              \<longleftrightarrow> T' = T \<and> (\<exists>ts sig. sv_signal V = Some (ts, sig) \<and> ts \<le> t \<and> name = signal_name sig))
        \<and> (case r of Inl e \<Rightarrow> (\<exists>io. e = AppServe io \<and> sv_done V = Some (t, Inl io)) | Inr _ \<Rightarrow> True))
   \<and> serve_with_shutdown_inner T (V\<lparr>sv_serve_first := c\<rparr>) = serve_with_shutdown_inner T V"
proof (cases rule: serve_cases [of V T])
  case for_ever
  then show ?thesis by (simp add: serve_choice_irrelevant)
next
  case (unsignalled t r)
  then show ?thesis by (auto simp: serve_choice_irrelevant serve_result_def split: sum.splits dest!: leD)
next
  case (drained ts sig t r)
  then show ?thesis by (auto simp: serve_choice_irrelevant serve_result_def split: sum.splits)
next
  case (forced ts sig)
  then show ?thesis by (auto simp: serve_choice_irrelevant)
qed

text \<open>Witness: a signal after five seconds and a request that never ends; the server closes by force at second eight.\<close>

definition stuck_serve :: serve_env where
  "stuck_serve = \<lparr>sv_done = None, sv_signal = Some (5 * nanos_per_sec, SIGTERM), sv_serve_first = True\<rparr>"

theorem serving_ends_once_and_in_time_witness:
  "\<exists>r log. serve_with_shutdown_inner 3 stuck_serve = Some (8 * nanos_per_sec, r, log) \<and>
     filter is_completed log = [ServerShutdownCompleted False] \<and> r = Inr ()"
proof -
  have run: "serve_with_shutdown_inner 3 stuck_serve = Some (8 * nanos_per_sec, Inr (),
      [ServerShutdownInitiated ''SIGTERM'' 3, ServerShutdownCompleted False])"
    by (simp add: serving_defs stuck_serve_def signal_name_def)
  show ?thesis
    using serving_ends_once_and_in_time [where T = 3 and V = stuck_serve and c = True] unfolding run
    by (simp add: stuck_serve_def)
qed

subsection \<open>The probe and the blocks\<close>

text \<open>A file directly under the root whose name is longer than a shard's is neither a block nor in the way of one.\<close>

lemma root_file_not_block:
  assumes "CHR ''/'' \<notin> set n" and "5 < length n" and "block_id_ok i"
  shows "path_join root n \<noteq> block_path root i" and "path_join root n \<notin> set (path_prefixes [] (shard_dir root i))"
proof -
  have n: "path_join root n = with_slash root @ n" using assms(1,2) by (intro path_join_clean) auto
  show "path_join root n \<noteq> block_path root i"
    using assms(1) by (auto simp: n block_path_eq [OF assms(3)])
  show "path_join root n \<notin> set (path_prefixes [] (shard_dir root i))"
    using shard_prefix_short [OF assms(3)] assms(2) n by fastforce
qed

definition probe_env_ok :: "probe_env \<Rightarrow> bool" where
  "probe_env_ok E \<longleftrightarrow> CHR ''/'' \<notin> set (pr_random E)"

lemma run_init_probe_frame:
  assumes "run_init_probe E root s = (r, s')"
  shows "fs_dirs s' = fs_dirs s"
    and "p \<noteq> probe_temp E root \<Longrightarrow> p \<noteq> probe_path root \<Longrightarrow> fs_files s' p = fs_files s p"
proof -
  obtain w s1 where w: "probe_write E root s = (w, s1)" by fastforce
  have s': "s' = s \<or> s' = s1 \<or> s' = snd (remove_file (pr_remove E) (probe_path root) s1)"
    using assms w by (auto simp: run_init_probe_def probe_path_def split: option.splits sum.splits if_splits io_error.splits)
  have "fs_dirs s1 = fs_dirs s \<and> (\<forall>q. q \<noteq> probe_temp E root \<longrightarrow> q \<noteq> probe_path root \<longrightarrow> fs_files s1 q = fs_files s q)"
  proof (cases w)
    case (Inl e)
    then show ?thesis using probe_write_Inl [OF w [unfolded Inl]] by blast
  next
    case (Inr u)
    then show ?thesis using probe_write_Inr [OF w [unfolded Inr]] by simp
  qed
  with s' show "fs_dirs s' = fs_dirs s"
    "p \<noteq> probe_temp E root \<Longrightarrow> p \<noteq> probe_path root \<Longrightarrow> fs_files s' p = fs_files s p"
    by (auto simp: remove_file_def split: option.splits)
qed

lemma run_init_probe_keeps_blocks:
  assumes "run_init_probe E root s = (r, s')" and "probe_env_ok E"
  shows "local_ok root s \<Longrightarrow> local_ok root s'" and "fs_view root s' = fs_view root s"
proof -
  have t: "CHR ''/'' \<notin> set (''.probe.'' @ pr_random E @ ''.tmp'')" "5 < length (''.probe.'' @ pr_random E @ ''.tmp'')"
    and f: "CHR ''/'' \<notin> set probe_filename" "5 < length probe_filename"
    using assms(2) by (simp_all add: probe_env_ok_def probe_filename_def)
  note nb = root_file_not_block [OF t, of _ root, folded probe_temp_def]
    root_file_not_block [OF f, of _ root, folded probe_path_def]
  have blk: "fs_files s' (block_path root i) = fs_files s (block_path root i)" if "block_id_ok i" for i
    using run_init_probe_frame(2) [OF assms(1), of "block_path root i"] nb(1,3) [OF that] by metis
  have pre: "fs_files s' q = fs_files s q" if "block_id_ok i" "q \<in> set (path_prefixes [] (shard_dir root i))" for i q
    using run_init_probe_frame(2) [OF assms(1), of q] nb(2,4) [OF that(1)] that(2) by metis
  show "local_ok root s \<Longrightarrow> local_ok root s'"
    using run_init_probe_frame(1) [OF assms(1)] blk pre by (simp add: local_ok_def)
  show "fs_view root s' = fs_view root s" using blk by (auto simp: fs_view_def fun_eq_iff)
qed

subsection \<open>What a started server can rely on\<close>

lemma load_server_config_ok: "load X pn rd toml vars = Inr c \<Longrightarrow> server_config_ok c"
  by (auto simp: load_def Let_def result_simps intro: validate_ok)

lemma init_contexts_fine:
  assumes "init_contexts X http cfg = Returns (Inr h)"
  shows "contexts_fine X h"
proof -
  from assms obtain v a where
    v: "init_single_context X http 0 Vault (vault_oidc cfg) (auth cfg) = Returns (Inr v)" and
    a: "init_single_context X http 2 Admin (admin_oidc cfg) (auth cfg) = Returns (Inr a)" and
    dis: "jwks_disjoint (ctx_jwks v) (ctx_jwks a)" and
    h: "h = [vault_addr \<mapsto> v\<lparr>other := Some admin_addr\<rparr>, admin_addr \<mapsto> a\<lparr>other := Some vault_addr\<rparr>]"
    by (rule init_contexts_Inr)
  show ?thesis
    using init_single_context_Inr [OF v] init_single_context_Inr [OF a] dis
    by (auto simp: contexts_fine_def contexts_ok_def contexts_https_def h split: if_splits)
qed

text \<open>The steps of a start-up that succeeds, in order.\<close>

lemma bootstrap_cases:
  assumes "bootstrap X B s = Returns (res, log, s')"
  obtains (early) e where "res = Inl e" "log = []" "s' = s" "(\<exists>x. e = AppConfig x) \<or> (\<exists>x. e = AppAuth x)"
  | (storage) cfg e where "load X (be_parse_net B) (be_read_to_string B) (be_toml_from_str B) (be_vars B) = Inr cfg"
      "init_from_config (be_probe B) cfg s = (Inl e, s')" "res = Inl (AppStorage e)"
      "log = [StorageStartupFailed (init_error_root_path e) (init_error_step e) (init_error_cause e)]"
  | (listener) cfg st e where "load X (be_parse_net B) (be_read_to_string B) (be_toml_from_str B) (be_vars B) = Inr cfg"
      "init_from_config (be_probe B) cfg s = (Inr st, s')" "res = Inl e" "(\<exists>a x. e = AppBind a x) \<or> (\<exists>x. e = AppSignalSetup x)" "log = storage_ready_log cfg"
  | (started) cfg h st addr where "load X (be_parse_net B) (be_read_to_string B) (be_toml_from_str B) (be_vars B) = Inr cfg"
      "init_contexts X (be_http B) cfg = Returns (Inr h)" "init_from_config (be_probe B) cfg s = (Inr st, s')"
      "be_sigint B = None" "be_sigterm B = None" "be_sighup B = None" "be_local_addr B = Inr addr"
      "res = Inr \<lparr>bd_config = cfg, bd_contexts = h, bd_replay = replay_store_new (auth cfg), bd_storage = st, bd_addr = addr\<rparr>"
      "log = storage_ready_log cfg @ [ServerStarted addr]"
proof (cases "load X (be_parse_net B) (be_read_to_string B) (be_toml_from_str B) (be_vars B)")
  case (Inl e)
  then show thesis using assms early [of "AppConfig e"] by (simp add: bootstrap_def)
next
  case (Inr cfg)
  note cfg = Inr
  consider (no) e where "res = Inl e" "log = []" "s' = s" "(\<exists>x. e = AppConfig x) \<or> (\<exists>x. e = AppAuth x)"
    | (go) h where "init_contexts X (be_http B) cfg = Returns (Inr h)" "boot_storage B cfg h s = (res, log, s')"
    using assms cfg
    by (auto simp: bootstrap_def bind_outcome_def split: sum.splits outcome.splits)
  then show thesis
  proof cases
    case no
    then show thesis by (rule early)
  next
    case (go h)
    obtain r s1 where i: "init_from_config (be_probe B) cfg s = (r, s1)" by fastforce
    show thesis
    proof (cases r)
      case (Inl e)
      then show thesis using go i cfg storage by (simp add: boot_storage_def)
    next
      case (Inr st)
      show thesis
      proof (cases "boot_listener B cfg h st")
        case (Inl e)
        have "(\<exists>a x. e = AppBind a x) \<or> (\<exists>x. e = AppSignalSetup x)"
          using Inl by (auto simp: boot_listener_def result_simps install_signals_def split: option.splits)
        then show thesis using go i cfg Inr Inl listener [OF cfg, of st e] by (simp add: boot_storage_def)
      next
        case b: (Inr b)
        have "\<exists>addr. be_local_addr B = Inr addr \<and> be_sigint B = None \<and> be_sigterm B = None \<and> be_sighup B = None \<and>
            b = \<lparr>bd_config = cfg, bd_contexts = h, bd_replay = replay_store_new (auth cfg), bd_storage = st, bd_addr = addr\<rparr>"
          using b by (auto simp: boot_listener_def result_simps install_signals_def split: option.splits)
        then show thesis using go i cfg Inr b started by (auto simp: boot_storage_def)
      qed
    qed
  qed
qed

lemma init_from_config_Inr:
  assumes "init_from_config E cfg s = (Inr st, s')"
  shows "st = (case backend cfg of BackendNone \<Rightarrow> None | BackendLocalFs root \<Rightarrow> Some root)"
  using assms by (auto simp: init_from_config_def local_fs_init_def split: storage_backend.splits prod.splits sum.splits)

lemma init_from_config_blocks:
  assumes "init_from_config E cfg s = (r, s')" and "probe_env_ok E" and "backend cfg = BackendLocalFs root"
  shows "(local_ok root s \<longrightarrow> local_ok root s') \<and> fs_view root s' = fs_view root s"
proof -
  obtain q where "run_init_probe E root s = (q, s')"
    using assms(1,3) by (auto simp: init_from_config_def local_fs_init_def split: prod.splits sum.splits)
  then show ?thesis using run_init_probe_keeps_blocks [OF _ assms(2)] by blast
qed

text \<open>
  The steps that come before anything on disk or on the network of the server itself: the configuration,
  the extra certificate, the client, and the two contexts.
\<close>

definition contexts_started :: "'dk ext \<Rightarrow> 'net boot_env \<Rightarrow> 'net server_config \<Rightarrow> ctx_heap \<Rightarrow> bool" where
  "contexts_started X B cfg h \<longleftrightarrow>
     load X (be_parse_net B) (be_read_to_string B) (be_toml_from_str B) (be_vars B) = Inr cfg \<and>
     load_extra_ca B = Inr () \<and> be_client_build B = Inr () \<and> init_contexts X (be_http B) cfg = Returns (Inr h)"

text \<open>What an error of the start-up says: which step failed, with what, and that the steps before it worked.\<close>

definition step_failed :: "'dk ext \<Rightarrow> 'net boot_env \<Rightarrow> fs \<Rightarrow> fs \<Rightarrow> app_error \<Rightarrow> bool" where
  "step_failed X B s s' err = (case err of
      AppConfig x \<Rightarrow> load X (be_parse_net B) (be_read_to_string B) (be_toml_from_str B) (be_vars B) = Inl x
    | AppAuth x \<Rightarrow> (\<exists>cfg. load X (be_parse_net B) (be_read_to_string B) (be_toml_from_str B) (be_vars B) = Inr cfg \<and>
        (load_extra_ca B = Inl x \<or> load_extra_ca B = Inr () \<and>
          ((\<exists>y. be_client_build B = Inl y \<and> x = ClientBuild y) \<or> be_client_build B = Inr () \<and>
            (\<exists>y. init_contexts X (be_http B) cfg = Returns (Inl y) \<and> x = ContextInit y))))
    | AppStorage x \<Rightarrow> (\<exists>cfg h. contexts_started X B cfg h \<and> init_from_config (be_probe B) cfg s = (Inl x, s'))
    | AppBind a x \<Rightarrow> (\<exists>cfg h st. contexts_started X B cfg h \<and> init_from_config (be_probe B) cfg s = (Inr st, s') \<and>
        a = bind_address cfg \<and> (be_bind B = Inl x \<or> be_bind B = Inr () \<and> be_local_addr B = Inl x))
    | AppSignalSetup x \<Rightarrow> (\<exists>cfg h st addr. contexts_started X B cfg h \<and> init_from_config (be_probe B) cfg s = (Inr st, s') \<and>
        be_bind B = Inr () \<and> be_local_addr B = Inr addr \<and>
        (be_sigint B = Some x \<or> be_sigint B = None \<and>
          (be_sigterm B = Some x \<or> be_sigterm B = None \<and> be_sighup B = Some x)))
    | AppServe x \<Rightarrow> False)"

lemma boot_listener_Inr:
  "boot_listener B cfg h st = Inr b \<longleftrightarrow> be_bind B = Inr () \<and> be_sigint B = None \<and> be_sigterm B = None \<and> be_sighup B = None \<and>
     be_local_addr B = Inr (bd_addr b) \<and>
     b = \<lparr>bd_config = cfg, bd_contexts = h, bd_replay = replay_store_new (auth cfg), bd_storage = st, bd_addr = bd_addr b\<rparr>"
  by (auto simp: boot_listener_def result_simps install_signals_def split: option.splits)

lemma boot_listener_Inl:
  assumes "boot_listener B cfg h st = Inl e" and started: "contexts_started X B cfg h"
    and st: "init_from_config (be_probe B) cfg s = (Inr st, s')"
  shows "step_failed X B s s' e"
proof -
  have bind: "step_failed X B s s' (AppBind (bind_address cfg) x)"
    if "be_bind B = Inl x \<or> be_bind B = Inr () \<and> be_local_addr B = Inl x" for x
    using started st that by (auto simp: step_failed_def)
  have sig: "step_failed X B s s' (AppSignalSetup x)"
    if "be_bind B = Inr ()" "be_local_addr B = Inr addr" "be_sigint B = Some x \<or> be_sigint B = None \<and>
      (be_sigterm B = Some x \<or> be_sigterm B = None \<and> be_sighup B = Some x)" for x addr
    using started st that by (auto simp: step_failed_def)
  consider x where "be_bind B = Inl x" | x where "be_bind B = Inr ()" "be_local_addr B = Inl x"
    | addr where "be_bind B = Inr ()" "be_local_addr B = Inr addr"
    by (metis (full_types) old.unit.exhaust sum.exhaust)
  then show ?thesis
  proof cases
    case 3
    then show ?thesis
      using assms(1) sig by (auto simp: boot_listener_def result_simps install_signals_def split: option.splits)
  qed (use assms(1) bind in \<open>auto simp: boot_listener_def\<close>)
qed

lemma bootstrap_steps:
  assumes "bootstrap X B s = Returns (res, log, s')"
  shows "case res of
      Inl e \<Rightarrow> step_failed X B s s' e
    | Inr b \<Rightarrow> contexts_started X B (bd_config b) (bd_contexts b) \<and>
        init_from_config (be_probe B) (bd_config b) s = (Inr (bd_storage b), s') \<and>
        be_bind B = Inr () \<and> be_local_addr B = Inr (bd_addr b) \<and>
        be_sigint B = None \<and> be_sigterm B = None \<and> be_sighup B = None \<and>
        bd_replay b = replay_store_new (auth (bd_config b))"
proof -
  consider (no) e where "res = Inl e" "s' = s" "step_failed X B s s e"
    | (go) cfg h where "contexts_started X B cfg h" "boot_storage B cfg h s = (res, log, s')"
    using assms
    by (auto simp: bootstrap_def bind_outcome_def contexts_started_def step_failed_def split: sum.splits outcome.splits)
  then show ?thesis
  proof cases
    case (go cfg h)
    obtain r s1 where i: "init_from_config (be_probe B) cfg s = (r, s1)" by fastforce
    show ?thesis
    proof (cases r)
      case (Inl e)
      then have "res = Inl (AppStorage e)" "s1 = s'" using go i by (auto simp: boot_storage_def)
      then show ?thesis using go(1) i Inl by (auto simp: step_failed_def)
    next
      case st: (Inr st)
      show ?thesis
      proof (cases "boot_listener B cfg h st")
        case (Inl e)
        have "step_failed X B s s1 e" by (rule boot_listener_Inl [OF Inl go(1)]) (use i st in simp)
        moreover have "Inl e = res \<and> s1 = s'" using go(2) i st Inl by (simp add: boot_storage_def)
        ultimately show ?thesis by (cases res) simp_all
      next
        case b: (Inr b)
        have "bd_config b = cfg \<and> bd_contexts b = h \<and> bd_storage b = st \<and> bd_replay b = replay_store_new (auth cfg)"
          using b unfolding boot_listener_Inr by (metis booted.select_convs(1-4))
        moreover have "Inr b = res \<and> s1 = s'" using go(2) i st b by (simp add: boot_storage_def)
        ultimately show ?thesis using go(1) i st b [unfolded boot_listener_Inr] by (cases res) simp_all
      qed
    qed
  qed simp
qed

lemma load_extra_ca_Inr:
  assumes "load_extra_ca B = Inr ()" and "map_of (be_vars B) ''APOK_EXTRA_CA_CERT_FILE'' = Some path" and "path \<noteq> []"
  shows "\<exists>pem. be_read_pem B path = Inr pem \<and> be_from_pem B pem = Inr ()"
  using assms by (auto simp: load_extra_ca_def load_optional_pem_def result_simps)

text \<open>
  C20. Start-up is all or nothing. If it returns an error, the error names the first step that failed and
  what it failed with: the configuration, the extra certificate, the client, the contexts, the storage,
  binding or the address of the socket, or one of the three signal handlers. Then readiness has not been
  announced, and the failure of the storage is announced exactly when it is the reason; a failure before the storage step has
  touched no file. If it succeeds, every one of these steps has worked; the configuration is the validated one, both contexts
  are in order, the replay store is empty and in order, storage is what was configured, and the log is the
  storage's readiness followed by the server's, with the address of the listener. Stored blocks survive
  either way.
\<close>

theorem bootstrap_all_or_nothing:
  assumes "bootstrap X B s = Returns (res, log, s')" and "probe_env_ok (be_probe B)"
  shows "(case res of
      Inl e \<Rightarrow> step_failed X B s s' e \<and> (\<forall>addr. ServerStarted addr \<notin> set log) \<and>
               ((\<exists>p st c. StorageStartupFailed p st c \<in> set log) \<longleftrightarrow> (\<exists>se. e = AppStorage se)) \<and>
               ((\<exists>x. e = AppConfig x) \<or> (\<exists>x. e = AppAuth x) \<longrightarrow> log = [] \<and> s' = s)
    | Inr b \<Rightarrow> load X (be_parse_net B) (be_read_to_string B) (be_toml_from_str B) (be_vars B) = Inr (bd_config b) \<and>
               (\<forall>path. map_of (be_vars B) ''APOK_EXTRA_CA_CERT_FILE'' = Some path \<longrightarrow> path \<noteq> [] \<longrightarrow>
                  (\<exists>pem. be_read_pem B path = Inr pem \<and> be_from_pem B pem = Inr ())) \<and>
               be_client_build B = Inr () \<and> init_contexts X (be_http B) (bd_config b) = Returns (Inr (bd_contexts b)) \<and>
               init_from_config (be_probe B) (bd_config b) s = (Inr (bd_storage b), s') \<and>
               be_bind B = Inr () \<and> be_local_addr B = Inr (bd_addr b) \<and>
               be_sigint B = None \<and> be_sigterm B = None \<and> be_sighup B = None \<and>
               server_config_ok (bd_config b) \<and> contexts_fine X (bd_contexts b) \<and>
               bd_replay b = replay_store_new (auth (bd_config b)) \<and>
               replay_inv (bd_replay b) \<and> store_is_empty (bd_replay b) \<and>
               bd_storage b = (case backend (bd_config b) of BackendNone \<Rightarrow> None | BackendLocalFs root \<Rightarrow> Some root) \<and>
               log = storage_ready_log (bd_config b) @ [ServerStarted (bd_addr b)]) \<and>
    (\<forall>cfg root. load X (be_parse_net B) (be_read_to_string B) (be_toml_from_str B) (be_vars B) = Inr cfg \<longrightarrow>
       backend cfg = BackendLocalFs root \<longrightarrow>
       (local_ok root s \<longrightarrow> local_ok root s') \<and> fs_view root s' = fs_view root s)"
  using assms(1)
proof (cases rule: bootstrap_cases)
  case (early e)
  then show ?thesis using bootstrap_steps [OF assms(1)] by auto
next
  case (storage cfg e)
  then show ?thesis
    using init_from_config_blocks [OF storage(2) assms(2)] bootstrap_steps [OF assms(1)] by auto
next
  case (listener cfg st e)
  then show ?thesis
    using init_from_config_blocks [OF listener(2) assms(2)] bootstrap_steps [OF assms(1)]
    by (auto simp: storage_ready_log_def init_from_config_def local_fs_init_def split: storage_backend.splits)
next
  case (started cfg h st addr)
  then show ?thesis
    using init_from_config_blocks [OF started(3) assms(2)] load_server_config_ok [OF started(1)]
      init_contexts_fine [OF started(2)] replay_inv_new [of "auth cfg"] init_from_config_Inr [OF started(3)]
      bootstrap_steps [OF assms(1)] load_extra_ca_Inr [of B]
    by (auto simp: store_is_empty_def store_len_def replay_store_new_def contexts_started_def)
qed

text \<open>Witness: a start-up in which every step works, on an empty storage root.\<close>

definition demo_boot :: "unit boot_env" where
  "demo_boot = \<lparr>be_vars = demo_vars, be_parse_net = (\<lambda>_. Inl ''cidr''), be_read_to_string = (\<lambda>_. Inl ''io''),
     be_toml_from_str = (\<lambda>_. Inl ''toml''), be_read_pem = (\<lambda>_. Inl ''io''), be_from_pem = (\<lambda>_. Inl ''pem''),
     be_client_build = Inr (), be_http = demo_http, be_probe = calm_probe, be_bind = Inr (),
     be_local_addr = Inr (SocketV4 [0, 0, 0, 0] 80), be_sigint = None, be_sigterm = None, be_sighup = None\<rparr>"

definition demo_disk :: fs where
  "demo_disk = \<lparr>fs_dirs = [''/data'' \<mapsto> 493], fs_files = Map.empty\<rparr>"

lemma demo_boot_load:
  "load demo_init_ext (be_parse_net demo_boot) (be_read_to_string demo_boot) (be_toml_from_str demo_boot)
     (be_vars demo_boot) = Inr demo_config"
proof -
  have "load demo_init_ext pn rd toml vars = load demo_ext pn rd toml vars" for pn :: "string \<Rightarrow> string + unit" and rd toml vars
    by (simp add: load_def Let_def validate_def parse_oidc_def oidc_audience_config_new_def demo_init_ext_def)
  then show ?thesis using demo_load by (simp add: demo_boot_def)
qed

lemma demo_boot_probe:
  "\<exists>s'. init_from_config calm_probe demo_config demo_disk = (Inr (Some ''/data''), s')"
proof -
  have "fst (run_init_probe calm_probe ''/data'' demo_disk) = Inr ()" by code_simp
  then show ?thesis
    by (cases "run_init_probe calm_probe ''/data'' demo_disk") (simp add: init_from_config_def local_fs_init_def demo_config_def)
qed

lemma demo_boot_run:
  "\<exists>h s'. bootstrap demo_init_ext demo_boot demo_disk = Returns (Inr \<lparr>bd_config = demo_config, bd_contexts = h,
       bd_replay = replay_store_new auth_config_default, bd_storage = Some ''/data'', bd_addr = SocketV4 [0, 0, 0, 0] 80\<rparr>,
     [StorageStartupReady ''/data'', ServerStarted (SocketV4 [0, 0, 0, 0] 80)], s')"
proof -
  obtain h where h: "init_contexts demo_init_ext demo_http demo_config = Returns (Inr h)" using demo_init by blast
  obtain s' where s': "init_from_config calm_probe demo_config demo_disk = (Inr (Some ''/data''), s')"
    using demo_boot_probe by blast
  have v: "map_of demo_vars ''APOK_EXTRA_CA_CERT_FILE'' = None" by (simp add: demo_vars_def)
  have b: "be_vars demo_boot = demo_vars" "be_http demo_boot = demo_http" "be_probe demo_boot = calm_probe"
    "be_client_build demo_boot = Inr ()" "be_bind demo_boot = Inr ()" "be_local_addr demo_boot = Inr (SocketV4 [0, 0, 0, 0] 80)"
    "be_sigint demo_boot = None" "be_sigterm demo_boot = None" "be_sighup demo_boot = None"
    by (simp_all add: demo_boot_def)
  have c: "auth demo_config = auth_config_default" "backend demo_config = BackendLocalFs ''/data''"
    by (simp_all add: demo_config_def)
  show ?thesis
    unfolding bootstrap_def demo_boot_load
    by (simp add: b v h s' c load_extra_ca_def load_optional_pem_def boot_storage_def boot_listener_def
        install_signals_def storage_ready_log_def)
qed

theorem bootstrap_all_or_nothing_witness:
  "\<exists>b log s'. bootstrap demo_init_ext demo_boot demo_disk = Returns (Inr b, log, s') \<and>
     server_config_ok (bd_config b) \<and> contexts_fine demo_init_ext (bd_contexts b)"
proof -
  obtain b log s' where r: "bootstrap demo_init_ext demo_boot demo_disk = Returns (Inr b, log, s')"
    using demo_boot_run by blast
  have "probe_env_ok (be_probe demo_boot)" by (simp add: probe_env_ok_def demo_boot_def calm_probe_def)
  from bootstrap_all_or_nothing [OF r this] r show ?thesis by auto
qed

definition lifecycle_event :: "log_event \<Rightarrow> bool" where
  "lifecycle_event e = (case e of ServerStarted _ \<Rightarrow> True | ServerShutdownInitiated _ _ \<Rightarrow> True
     | ServerShutdownCompleted _ \<Rightarrow> True | _ \<Rightarrow> False)"

lemma serve_with_shutdown_shape:
  assumes "serve_with_shutdown_inner T V = Some (t, r, log)"
  shows "\<exists>ini c. log = ini @ [ServerShutdownCompleted c] \<and>
     (ini = [] \<or> (\<exists>sig. ini = [ServerShutdownInitiated (signal_name sig) T])) \<and>
     (\<forall>e. r = Inl e \<longrightarrow> (\<exists>io. e = AppServe io) \<and> \<not> c)"
proof (cases rule: serve_cases [of V T])
  case (unsignalled t' r')
  then show ?thesis using assms by (cases r') (auto simp: serve_result_def)
next
  case (drained ts sig t' r')
  then show ?thesis using assms by (cases r') (auto simp: serve_result_def)
qed (use assms in auto)

text \<open>
  C21. The process as a whole. Given a signal, it ends (unless start-up panics). When it ends, its exit code
  is 0 exactly when \<open>run\<close> returned without an error, and either start-up failed, no event of the
  server's life has been logged and the code is 1, or the events are, in this order and once each: started, at most one
  announcement of a shutdown, completed; a run that reports a clean completion exits with 0.
\<close>

theorem process_exit_and_log:
  "(sv_signal V \<noteq> None \<longrightarrow> run X B V s \<noteq> Returns None) \<and>
   (\<forall>r log. run X B V s = Returns (Some (r, log)) \<longrightarrow>
      main_exit True X B V s = Returns (Some (if r = Inr () then 0 else 1)) \<and>
      ((\<exists>e. r = Inl e \<and> (\<exists>s'. bootstrap X B s = Returns (Inl e, log, s')) \<and> filter lifecycle_event log = []) \<or>
       (\<exists>addr ini c. filter lifecycle_event log = ServerStarted addr # ini @ [ServerShutdownCompleted c] \<and>
          (ini = [] \<or> (\<exists>sig T. ini = [ServerShutdownInitiated (signal_name sig) T])) \<and>
          (c \<longrightarrow> main_exit True X B V s = Returns (Some 0)))))"
proof (intro conjI impI allI)
  assume sg: "sv_signal V \<noteq> None"
  then have "serve_with_shutdown_inner T V \<noteq> None" for T by (cases rule: serve_cases [of V T]) auto
  then show "run X B V s \<noteq> Returns None"
    by (simp add: run_def bind_outcome_def split: outcome.splits sum.splits prod.splits) blast
next
  fix r log assume run: "run X B V s = Returns (Some (r, log))"
  show exit: "main_exit True X B V s = Returns (Some (if r = Inr () then 0 else 1))"
    using run by (cases r) (auto simp: main_exit_def)
  obtain res log0 s' where b: "bootstrap X B s = Returns (res, log0, s')"
    using run by (auto simp: run_def bind_outcome_def split: outcome.splits)
  from b show "(\<exists>e. r = Inl e \<and> (\<exists>s'. bootstrap X B s = Returns (Inl e, log, s')) \<and> filter lifecycle_event log = []) \<or>
       (\<exists>addr ini c. filter lifecycle_event log = ServerStarted addr # ini @ [ServerShutdownCompleted c] \<and>
          (ini = [] \<or> (\<exists>sig T. ini = [ServerShutdownInitiated (signal_name sig) T])) \<and>
          (c \<longrightarrow> main_exit True X B V s = Returns (Some 0)))"
  proof (cases rule: bootstrap_cases)
    case (early e)
    then show ?thesis using run b by (auto simp: run_def)
  next
    case (storage cfg e)
    then show ?thesis using run b by (auto simp: run_def lifecycle_event_def)
  next
    case (listener cfg st e)
    then show ?thesis
      using run b by (auto simp: run_def lifecycle_event_def storage_ready_log_def split: storage_backend.splits)
  next
    case (started cfg h st addr)
    obtain t log1 where v: "serve_with_shutdown_inner (drain_timeout cfg) V = Some (t, r, log1)" "log = log0 @ log1"
      using run b started(8) by (auto simp: run_def)
    have l0: "filter lifecycle_event log0 = [ServerStarted addr]"
      by (simp add: started(9) storage_ready_log_def lifecycle_event_def split: storage_backend.splits)
    show ?thesis
      using serve_with_shutdown_shape [OF v(1)] v(2) l0 exit
      by (cases r) (fastforce simp: lifecycle_event_def)+
  qed
qed

text \<open>Witness: the start-up above, then the stuck request and the signal.\<close>

theorem process_exit_and_log_witness:
  "\<exists>log. run demo_init_ext demo_boot stuck_serve demo_disk = Returns (Some (Inr (), log)) \<and>
     main_exit True demo_init_ext demo_boot stuck_serve demo_disk = Returns (Some 0)"
proof -
  have v: "serve_with_shutdown_inner 30 stuck_serve = Some (35 * nanos_per_sec, Inr (),
      [ServerShutdownInitiated ''SIGTERM'' 30, ServerShutdownCompleted False])"
    by (simp add: serving_defs stuck_serve_def signal_name_def)
  obtain log where r: "run demo_init_ext demo_boot stuck_serve demo_disk = Returns (Some (Inr (), log))"
    using demo_boot_run v by (fastforce simp: run_def demo_config_def)
  then show ?thesis
    using process_exit_and_log [of stuck_serve demo_init_ext demo_boot demo_disk] by simp
qed

end
