(* ===== verification/Put_Interleaving.thy ===== *)
theory Put_Interleaving
  imports Local_Fs
begin

section \<open>Concurrent puts and deletes (storage/local_fs.rs under spawn blocking)\<close>

text \<open>
  Every \<open>put\<close> runs on a blocking thread of its own, so the system calls of several puts, and the
  deletes, interleave. Here \<open>run_put\<close> is cut at its system calls: a task holds its program counter,
  one call of one task is a step, and a payload may be written in any number of pieces. The steps
  are the operations of the sequential model. Whatever the interleaving, the stored blocks change
  only at the rename of a put, to its whole payload, and at a delete.
\<close>

datatype put_pc =
    PcDirs "string list"
  | PcChmodTop
  | PcChmodShard
  | PcTemp
  | PcWrite string bytes
  | PcSync string
  | PcPersist string
  | PcDrop string io_error
  | PcDone "storage_error + unit"

text \<open>What the environment decides about one call.\<close>

record call_env =
  ce_fault :: "io_error option"
  ce_random :: string
  ce_len :: nat
  ce_unlink :: bool

definition on_io :: "(io_error + 'a) \<times> fs \<Rightarrow> (io_error \<Rightarrow> put_pc) \<Rightarrow> ('a \<Rightarrow> put_pc) \<Rightarrow> put_pc \<times> fs" where
  "on_io m failed ok = (case m of (Inl e, s') \<Rightarrow> (failed e, s') | (Inr x, s') \<Rightarrow> (ok x, s'))"

definition put_failed :: "io_error \<Rightarrow> put_pc" where
  "put_failed e = PcDone (Inl (backend_error e))"

definition put_call :: "string \<Rightarrow> block_id \<Rightarrow> bytes \<Rightarrow> call_env \<Rightarrow> put_pc \<Rightarrow> fs \<Rightarrow> put_pc \<times> fs" where
  "put_call root i payload C pc s =
     (let shard = shard_dir root i; top = path_join root (shard_top i); dst = block_path root i;
          fault = ce_fault C in
      case pc of
        PcDirs [] \<Rightarrow> (PcChmodTop, s)
      | PcDirs (p # ps) \<Rightarrow>
          on_io (case fault of Some e \<Rightarrow> (Inl e, s) | None \<Rightarrow> mkdirs mode_0700 [p] s)
            put_failed (\<lambda>_. PcDirs ps)
      | PcChmodTop \<Rightarrow> on_io (set_permissions fault top mode_0700 s) put_failed (\<lambda>_. PcChmodShard)
      | PcChmodShard \<Rightarrow> on_io (set_permissions fault shard mode_0700 s) put_failed (\<lambda>_. PcTemp)
      | PcTemp \<Rightarrow> on_io (tempfile_in fault ''.put.'' (ce_random C) ''.tmp'' mode_0600 shard s)
            put_failed (\<lambda>temp. PcWrite temp payload)
      | PcWrite temp [] \<Rightarrow> (PcSync temp, s)
      | PcWrite temp rest \<Rightarrow>
          (let n = max 1 (ce_len C) in
           on_io (case fault of Some e \<Rightarrow> (Inl e, s) | None \<Rightarrow> write_all None temp (take n rest) s)
             (PcDrop temp) (\<lambda>_. PcWrite temp (drop n rest)))
      | PcSync temp \<Rightarrow> on_io (sync_all fault temp s) (PcDrop temp) (\<lambda>_. PcPersist temp)
      | PcPersist temp \<Rightarrow> on_io (persist fault temp dst s) (PcDrop temp) (\<lambda>_. PcDone (Inr ()))
      | PcDrop temp e \<Rightarrow>
          (put_failed e, if ce_unlink C then s\<lparr>fs_files := (fs_files s)(temp := None)\<rparr> else s)
      | PcDone r \<Rightarrow> (PcDone r, s))"

record put_task =
  pt_id :: block_id
  pt_payload :: bytes
  pt_pc :: put_pc

record put_machine =
  pm_fs :: fs
  pm_tasks :: "nat \<rightharpoonup> put_task"

inductive put_machine_step :: "string \<Rightarrow> put_machine \<Rightarrow> put_machine \<Rightarrow> bool" for root where
  pm_start: "pm_tasks S k = None \<Longrightarrow> block_id_ok i \<Longrightarrow>
    put_machine_step root S (S\<lparr>pm_tasks := (pm_tasks S)(k \<mapsto>
      \<lparr>pt_id = i, pt_payload = b, pt_pc = PcDirs (path_prefixes [] (shard_dir root i))\<rparr>)\<rparr>)"
| pm_call: "pm_tasks S k = Some T \<Longrightarrow> CHR ''/'' \<notin> set (ce_random C) \<Longrightarrow>
    put_call root (pt_id T) (pt_payload T) C (pt_pc T) (pm_fs S) = (pc', s') \<Longrightarrow>
    put_machine_step root S \<lparr>pm_fs = s', pm_tasks = (pm_tasks S)(k \<mapsto> T\<lparr>pt_pc := pc'\<rparr>)\<rparr>"
| pm_delete: "block_id_ok i \<Longrightarrow> local_delete root g i (pm_fs S) = (r, s') \<Longrightarrow>
    put_machine_step root S (S\<lparr>pm_fs := s'\<rparr>)"

inductive put_machine_reach :: "string \<Rightarrow> fs \<Rightarrow> put_machine \<Rightarrow> bool" for root s0 where
  pm_init: "put_machine_reach root s0 \<lparr>pm_fs = s0, pm_tasks = Map.empty\<rparr>"
| pm_next: "put_machine_reach root s0 S \<Longrightarrow> put_machine_step root S S' \<Longrightarrow> put_machine_reach root s0 S'"

subsection \<open>The invariant\<close>

fun pc_temp :: "put_pc \<Rightarrow> string option" where
  "pc_temp (PcWrite t _) = Some t"
| "pc_temp (PcSync t) = Some t"
| "pc_temp (PcPersist t) = Some t"
| "pc_temp (PcDrop t _) = Some t"
| "pc_temp _ = None"

fun pc_file_ok :: "put_pc \<Rightarrow> bytes \<Rightarrow> fs_file \<Rightarrow> bool" where
  "pc_file_ok (PcWrite _ rest) b f \<longleftrightarrow> ff_data f @ rest = b"
| "pc_file_ok (PcSync _) b f \<longleftrightarrow> ff_data f = b"
| "pc_file_ok (PcPersist _) b f \<longleftrightarrow> ff_data f = b \<and> ff_synced f"
| "pc_file_ok _ b f \<longleftrightarrow> True"

fun pc_dirs_ok :: "string \<Rightarrow> block_id \<Rightarrow> put_pc \<Rightarrow> bool" where
  "pc_dirs_ok root i (PcDirs ps) \<longleftrightarrow> set ps \<subseteq> set (path_prefixes [] (shard_dir root i))"
| "pc_dirs_ok root i _ \<longleftrightarrow> True"

definition task_ok :: "string \<Rightarrow> fs \<Rightarrow> put_task \<Rightarrow> bool" where
  "task_ok root s T \<longleftrightarrow> block_id_ok (pt_id T) \<and> pc_dirs_ok root (pt_id T) (pt_pc T) \<and>
     (\<forall>t. pc_temp (pt_pc T) = Some t \<longrightarrow>
        (\<exists>random. CHR ''/'' \<notin> set random \<and> t = temp_path root (pt_id T) random) \<and>
        (\<exists>f. fs_files s t = Some f \<and> pc_file_ok (pt_pc T) (pt_payload T) f))"

definition put_machine_ok :: "string \<Rightarrow> put_machine \<Rightarrow> bool" where
  "put_machine_ok root S \<longleftrightarrow> local_ok root (pm_fs S) \<and>
     (\<forall>k T. pm_tasks S k = Some T \<longrightarrow> task_ok root (pm_fs S) T) \<and>
     (\<forall>k l T U t. pm_tasks S k = Some T \<longrightarrow> pm_tasks S l = Some U \<longrightarrow> k \<noteq> l \<longrightarrow>
        pc_temp (pt_pc T) = Some t \<longrightarrow> pc_temp (pt_pc U) \<noteq> Some t)"

lemmas put_call_defs = put_call_def on_io_def put_failed_def Let_def

lemma put_call_dirs:
  assumes "put_call root i b C pc s = (pc', s')" and "pc_dirs_ok root i pc"
    and "q \<notin> set (path_prefixes [] (shard_dir root i))" and "fs_dirs s q = None"
  shows "fs_dirs s' q = None"
  using assms shard_dirs_on_path
  by (auto simp: put_call_defs set_permissions_def tempfile_in_def write_all_def sync_all_def persist_def
      split: put_pc.splits list.splits option.splits if_splits sum.splits prod.splits)

lemma put_call_files:
  assumes "put_call root i b C pc s = (pc', s')"
    and "q \<noteq> block_path root i" and "pc_temp pc \<noteq> Some q" and "pc_temp pc' \<noteq> Some q"
  shows "fs_files s' q = fs_files s q"
  using assms
  by (auto simp: put_call_defs set_permissions_def tempfile_in_def write_all_def sync_all_def persist_def
      split: put_pc.splits list.splits option.splits if_splits sum.splits prod.splits)

lemma put_call_temp:
  assumes "put_call root i b C pc s = (pc', s')" and "pc_temp pc' = Some t"
  shows "pc_temp pc = Some t \<or> (pc_temp pc = None \<and> t = temp_path root i (ce_random C) \<and> fs_files s t = None)"
  using assms
  by (auto simp: put_call_defs tempfile_in_def temp_path_def
      split: put_pc.splits list.splits option.splits if_splits sum.splits prod.splits)

lemma put_call_own_file:
  assumes "put_call root i b C pc s = (pc', s')" and "pc_temp pc' = Some t"
    and "\<And>u. pc_temp pc = Some u \<Longrightarrow> \<exists>f. fs_files s u = Some f \<and> pc_file_ok pc b f"
  shows "\<exists>f. fs_files s' t = Some f \<and> pc_file_ok pc' b f"
proof (cases "pc_temp pc")
  case None
  then show ?thesis
    using assms(1,2)
    by (auto simp: put_call_defs tempfile_in_def
        split: put_pc.splits list.splits option.splits if_splits sum.splits prod.splits)
next
  case (Some u)
  then obtain f where "fs_files s u = Some f" "pc_file_ok pc b f" using assms(3) by blast
  then show ?thesis
    using assms(1,2) Some
    by (auto simp: put_call_defs write_all_def sync_all_def persist_def
        split: put_pc.splits list.splits option.splits if_splits sum.splits prod.splits)
qed

lemma put_call_dirs_ok:
  "put_call root i b C pc s = (pc', s') \<Longrightarrow> pc_dirs_ok root i pc \<Longrightarrow> pc_dirs_ok root i pc'"
  by (auto simp: put_call_defs
      split: put_pc.splits list.splits option.splits if_splits sum.splits prod.splits)

text \<open>The only call of a put that changes a block is its rename.\<close>

lemma put_call_block:
  assumes "put_call root i b C pc s = (pc', s')" and "pc_temp pc \<noteq> Some (block_path root i)"
    and "pc_temp pc' \<noteq> Some (block_path root i)"
  shows "fs_files s' (block_path root i) = fs_files s (block_path root i) \<or>
    (\<exists>t. pc = PcPersist t \<and> pc' = PcDone (Inr ()) \<and> fs_files s' (block_path root i) = fs_files s t \<and> fs_files s t \<noteq> None)"
  using assms
  by (auto simp: put_call_defs set_permissions_def tempfile_in_def write_all_def sync_all_def persist_def
      split: put_pc.splits list.splits option.splits if_splits sum.splits prod.splits)

lemma task_temp_not_block:
  assumes "task_ok root s T" and "pc_temp (pt_pc T) = Some t" and "block_id_ok j"
  shows "t \<noteq> block_path root j" and "t \<notin> set (path_prefixes [] (shard_dir root j))"
  using assms temp_path_facts [of "pt_id T" j] unfolding task_ok_def by metis+

lemma put_call_keeps_task:
  assumes "put_call root (pt_id T) (pt_payload T) C (pt_pc T) s = (pc', s')" and "task_ok root s T"
    and "CHR ''/'' \<notin> set (ce_random C)"
  shows "task_ok root s' (T\<lparr>pt_pc := pc'\<rparr>)"
  using assms put_call_temp [OF assms(1)] put_call_own_file [OF assms(1)] put_call_dirs_ok [OF assms(1)]
  unfolding task_ok_def by simp metis

text \<open>A call of one task leaves the temporary file of every other task alone.\<close>

lemma put_call_other_temp:
  assumes "put_call root (pt_id T) (pt_payload T) C (pt_pc T) s = (pc', s')" and "task_ok root s T"
    and "task_ok root s U" and "pc_temp (pt_pc U) = Some u" and "pc_temp (pt_pc T) \<noteq> Some u"
  shows "fs_files s' u = fs_files s u" and "pc_temp pc' \<noteq> Some u"
proof -
  have used: "fs_files s u \<noteq> None" using assms(3,4) by (auto simp: task_ok_def)
  have ok: "block_id_ok (pt_id T)" using assms(2) by (simp add: task_ok_def)
  show new: "pc_temp pc' \<noteq> Some u" using put_call_temp [OF assms(1), of u] used assms(5) by auto
  show "fs_files s' u = fs_files s u"
    using put_call_files [OF assms(1) _ assms(5) new] task_temp_not_block(1) [OF assms(3,4) ok] by simp
qed

lemma put_call_view:
  assumes "put_call root (pt_id T) (pt_payload T) C (pt_pc T) s = (pc', s')" and "task_ok root s T"
    and "CHR ''/'' \<notin> set (ce_random C)"
  shows "fs_view root s' = fs_view root s \<or>
    (\<exists>t. pt_pc T = PcPersist t \<and> pc' = PcDone (Inr ()) \<and> fs_view root s' = (fs_view root s)(pt_id T \<mapsto> pt_payload T))"
proof -
  let ?p = "block_path root (pt_id T)"
  note ok' = put_call_keeps_task [OF assms]
  have id: "block_id_ok (pt_id T)" using assms(2) by (simp add: task_ok_def)
  have t: "pc_temp (pt_pc T) \<noteq> Some (block_path root j)" "pc_temp pc' \<noteq> Some (block_path root j)"
    if "block_id_ok j" for j
    using task_temp_not_block(1) [OF assms(2) _ that] task_temp_not_block(1) [OF ok' _ that] by auto
  have other: "fs_files s' (block_path root j) = fs_files s (block_path root j)"
    if "block_id_ok j" "j \<noteq> pt_id T" for j
    using put_call_files [OF assms(1) _ t [OF that(1)]] block_path_inject [OF that(1) id] that(2) by metis
  from put_call_block [OF assms(1) t [OF id]] show ?thesis
  proof (elim disjE exE conjE)
    assume "fs_files s' ?p = fs_files s ?p"
    then have "fs_view root s' = fs_view root s" using other by (fastforce simp: fs_view_def fun_eq_iff)
    then show ?thesis ..
  next
    fix u assume u: "pt_pc T = PcPersist u" "pc' = PcDone (Inr ())" "fs_files s' ?p = fs_files s u"
    then have "map_option ff_data (fs_files s' ?p) = Some (pt_payload T)"
      using assms(2) by (auto simp: task_ok_def)
    then have "fs_view root s' = (fs_view root s)(pt_id T \<mapsto> pt_payload T)"
      using other id by (auto simp: fs_view_def fun_eq_iff)
    then show ?thesis using u by blast
  qed
qed

lemma put_call_local_ok:
  assumes "put_call root (pt_id T) (pt_payload T) C (pt_pc T) s = (pc', s')" and "task_ok root s T"
    and "CHR ''/'' \<notin> set (ce_random C)" and "local_ok root s"
  shows "local_ok root s'"
proof -
  note ok' = put_call_keeps_task [OF assms(1-3)]
  have id: "block_id_ok (pt_id T)" and dirs: "pc_dirs_ok root (pt_id T) (pt_pc T)"
    using assms(2) by (simp_all add: task_ok_def)
  have t: "pc_temp (pt_pc T) \<noteq> Some (block_path root j)" "pc_temp pc' \<noteq> Some (block_path root j)"
    if "block_id_ok j" for j
    using task_temp_not_block(1) [OF assms(2) _ that] task_temp_not_block(1) [OF ok' _ that] by auto
  show ?thesis
  proof (rule local_ok_frame [OF assms(4) id put_call_dirs [OF assms(1) dirs]])
    fix j assume j: "block_id_ok j"
    show "fs_files s' (block_path root j) = fs_files s (block_path root j) \<or>
        (\<exists>f. fs_files s' (block_path root j) = Some f \<and> ff_synced f)"
    proof (cases "j = pt_id T")
      case True
      with put_call_block [OF assms(1) t [OF id]] assms(2) show ?thesis by (auto simp: task_ok_def)
    next
      case False
      then have "block_path root j \<noteq> block_path root (pt_id T)" using block_path_inject [OF j id] by blast
      then show ?thesis using put_call_files [OF assms(1) _ t [OF j]] by blast
    qed
    fix q assume q: "q \<in> set (path_prefixes [] (shard_dir root j))"
    have "q \<noteq> block_path root (pt_id T)" using block_path_not_shard_prefix [OF id j] q by blast
    moreover have "pc_temp (pt_pc T) \<noteq> Some q" "pc_temp pc' \<noteq> Some q"
      using task_temp_not_block(2) [OF assms(2) _ j] task_temp_not_block(2) [OF ok' _ j] q by auto
    ultimately show "fs_files s' q = fs_files s q" by (rule put_call_files [OF assms(1)])
  qed
qed

lemma delete_frame:
  assumes "local_delete root g i s = (r, s')"
  shows "fs_dirs s' = fs_dirs s" and "fs_files s' = fs_files s \<or> fs_files s' = (fs_files s)(block_path root i := None)"
  using assms
  by (auto simp: local_delete_def remove_file_def split: option.splits io_error.splits if_splits)

lemma put_machine_step_ok:
  assumes "put_machine_step root S S'" and "put_machine_ok root S"
  shows "put_machine_ok root S'"
  using assms(1)
proof cases
  case (pm_start k i b)
  then show ?thesis using assms(2) by (auto simp: put_machine_ok_def task_ok_def)
next
  case (pm_call k T C pc' s')
  have T: "task_ok root (pm_fs S) T" using assms(2) pm_call(2) by (auto simp: put_machine_ok_def)
  have U: "task_ok root (pm_fs S) U" "pc_temp (pt_pc U) = Some u \<Longrightarrow> pc_temp (pt_pc T) \<noteq> Some u"
    if "pm_tasks S l = Some U" "l \<noteq> k" for l U u
    using assms(2) pm_call(2) that by (auto simp: put_machine_ok_def)
  note other = put_call_other_temp [OF pm_call(4) T]
  have "task_ok root s' U" if "pm_tasks S l = Some U" "l \<noteq> k" for l U
    using U [OF that] other(1) [OF U(1) [OF that]] by (auto simp: task_ok_def)
  then have tasks: "task_ok root (pm_fs S') U" if "pm_tasks S' l = Some U" for l U
    using that pm_call(1) put_call_keeps_task [OF pm_call(4) T pm_call(3)] by (cases "l = k") auto
  have apart: "pc_temp pc' \<noteq> Some u" if "pm_tasks S l = Some U" "l \<noteq> k" "pc_temp (pt_pc U) = Some u" for l U u
    using other(2) [OF U(1) [OF that(1,2)] that(3) U(2) [OF that]] .
  have "pc_temp (pt_pc V) \<noteq> Some t"
    if "pm_tasks S' j = Some U" "pm_tasks S' l = Some V" "j \<noteq> l" "pc_temp (pt_pc U) = Some t" for j l U V t
  proof (cases "j = k \<or> l = k")
    case True
    then show ?thesis using that pm_call(1) apart by auto
  next
    case False
    then show ?thesis using that pm_call(1) assms(2) by (auto simp: put_machine_ok_def)
  qed
  with tasks show ?thesis
    using pm_call(1) put_call_local_ok [OF pm_call(4) T pm_call(3)] assms(2)
    unfolding put_machine_ok_def by auto
next
  case (pm_delete i g r s')
  note frame = delete_frame [OF pm_delete(3)]
  have ok: "local_ok root (pm_fs S)" using assms(2) by (simp add: put_machine_ok_def)
  have "local_ok root s'"
    using ok frame by (auto simp: local_ok_def split: if_splits)
  moreover have "task_ok root s' T" if "pm_tasks S k = Some T" for k T
  proof -
    have T: "task_ok root (pm_fs S) T" using assms(2) that by (auto simp: put_machine_ok_def)
    then show ?thesis
      using task_temp_not_block(1) [OF T _ pm_delete(2)] frame(2) by (auto simp: task_ok_def)
  qed
  ultimately show ?thesis using assms(2) pm_delete(1) by (auto simp: put_machine_ok_def)
qed

lemma put_machine_reach_ok:
  assumes "put_machine_reach root s0 S" and "local_ok root s0"
  shows "put_machine_ok root S"
  using assms
proof (induction rule: put_machine_reach.induct)
  case pm_init
  then show ?case by (simp add: put_machine_ok_def)
next
  case (pm_next S S')
  then show ?case using put_machine_step_ok by blast
qed

lemma put_machine_step_view:
  assumes "put_machine_step root S S'" and "put_machine_ok root S"
  shows "fs_view root (pm_fs S') = fs_view root (pm_fs S) \<or>
    (\<exists>k T t. pm_tasks S k = Some T \<and> pt_pc T = PcPersist t \<and>
       pm_tasks S' = (pm_tasks S)(k \<mapsto> T\<lparr>pt_pc := PcDone (Inr ())\<rparr>) \<and>
       fs_view root (pm_fs S') = (fs_view root (pm_fs S))(pt_id T \<mapsto> pt_payload T)) \<or>
    (\<exists>i. block_id_ok i \<and> pm_tasks S' = pm_tasks S \<and>
       fs_view root (pm_fs S') = (fs_view root (pm_fs S))(i := None))"
  using assms(1)
proof cases
  case (pm_call k T C pc' s')
  have T: "task_ok root (pm_fs S) T" using assms(2) pm_call(2) by (auto simp: put_machine_ok_def)
  show ?thesis using put_call_view [OF pm_call(4) T pm_call(3)] pm_call(1,2) by auto
next
  case (pm_delete i g r s')
  have "fs_view root s' = fs_view root (pm_fs S) \<or> fs_view root s' = (fs_view root (pm_fs S))(i := None)"
    using delete_frame(2) [OF pm_delete(3)] block_path_inject [OF _ pm_delete(2)] pm_delete(2)
    by (auto simp: fs_view_def fun_eq_iff)
  then show ?thesis using pm_delete(1,2) by auto
qed simp

subsection \<open>Executing a schedule\<close>

datatype put_event = EvStart nat block_id bytes | EvCall nat call_env | EvDelete "io_error option" block_id

definition exec_event :: "string \<Rightarrow> put_event \<Rightarrow> put_machine \<Rightarrow> put_machine option" where
  "exec_event root ev S = (case ev of
      EvStart k i b \<Rightarrow>
        if pm_tasks S k = None \<and> block_id_ok i
        then Some (S\<lparr>pm_tasks := (pm_tasks S)(k \<mapsto>
          \<lparr>pt_id = i, pt_payload = b, pt_pc = PcDirs (path_prefixes [] (shard_dir root i))\<rparr>)\<rparr>)
        else None
    | EvCall k C \<Rightarrow>
        (case pm_tasks S k of
           None \<Rightarrow> None
         | Some T \<Rightarrow>
             if CHR ''/'' \<in> set (ce_random C) then None
             else (let (pc', s') = put_call root (pt_id T) (pt_payload T) C (pt_pc T) (pm_fs S) in
                   Some \<lparr>pm_fs = s', pm_tasks = (pm_tasks S)(k \<mapsto> T\<lparr>pt_pc := pc'\<rparr>)\<rparr>))
    | EvDelete g i \<Rightarrow>
        if block_id_ok i then Some (S\<lparr>pm_fs := snd (local_delete root g i (pm_fs S))\<rparr>) else None)"

fun exec_schedule :: "string \<Rightarrow> put_event list \<Rightarrow> put_machine \<Rightarrow> put_machine option" where
  "exec_schedule root [] S = Some S"
| "exec_schedule root (ev # evs) S =
     (case exec_event root ev S of None \<Rightarrow> None | Some S' \<Rightarrow> exec_schedule root evs S')"

lemma exec_event_step: "exec_event root ev S = Some S' \<Longrightarrow> put_machine_step root S S'"
  by (cases ev) (auto simp: exec_event_def Let_def prod.case_eq_if split: if_splits option.splits
      intro: pm_start pm_call pm_delete [OF _ prod.collapse [symmetric]])

lemma exec_schedule_reach:
  "exec_schedule root evs S = Some S' \<Longrightarrow> put_machine_reach root s0 S \<Longrightarrow> put_machine_reach root s0 S'"
  by (induction evs arbitrary: S) (auto split: option.splits dest: exec_event_step intro: pm_next)

definition put_blocks_from :: "string \<Rightarrow> fs \<Rightarrow> put_machine \<Rightarrow> bool" where
  "put_blocks_from root s0 S \<longleftrightarrow> (\<forall>i b. fs_view root (pm_fs S) i = Some b \<longrightarrow> fs_view root s0 i = Some b \<or>
     (\<exists>k T. pm_tasks S k = Some T \<and> pt_id T = i \<and> pt_payload T = b \<and> pt_pc T = PcDone (Inr ())))"

lemma put_call_done: "put_call root i b C (PcDone r) s = (PcDone r, s)"
  by (simp add: put_call_def Let_def)

lemma put_machine_step_done:
  assumes "put_machine_step root S S'" and "pm_tasks S k = Some T" and "pt_pc T = PcDone r"
  shows "pm_tasks S' k = Some T"
  using assms by cases (auto simp: put_call_done)

lemma put_machine_reach_blocks:
  assumes "put_machine_reach root s0 S" and "local_ok root s0"
  shows "put_blocks_from root s0 S"
  using assms
proof (induction rule: put_machine_reach.induct)
  case pm_init
  then show ?case by (simp add: put_blocks_from_def)
next
  case (pm_next S S')
  note kept = put_machine_step_done [OF pm_next.hyps(2)]
  have old: "put_blocks_from root s0 S" using pm_next by blast
  from put_machine_step_view [OF pm_next.hyps(2) put_machine_reach_ok [OF pm_next.hyps(1) pm_next.prems]]
  show ?case
  proof (elim disjE exE conjE)
    fix k T t
    assume T: "pm_tasks S' = (pm_tasks S)(k \<mapsto> T\<lparr>pt_pc := PcDone (Inr ())\<rparr>)"
      "fs_view root (pm_fs S') = (fs_view root (pm_fs S))(pt_id T \<mapsto> pt_payload T)"
    have "pm_tasks S' k = Some (T\<lparr>pt_pc := PcDone (Inr ())\<rparr>)" using T(1) by simp
    then show ?thesis
      using old kept T(2) unfolding put_blocks_from_def by (auto split: if_splits) (metis put_task.select_convs put_task.update_convs put_task.surjective, metis+)
  qed (use old kept in \<open>auto simp: put_blocks_from_def split: if_splits, metis+\<close>)
qed

subsection \<open>Properties\<close>

text \<open>A system call that works, writes at most two bytes and names a temporary file \<open>r\<close>.\<close>

definition calm_call :: "string \<Rightarrow> call_env" where
  "calm_call r = \<lparr>ce_fault = None, ce_random = r, ce_len = 2, ce_unlink = True\<rparr>"

definition demo_start :: put_machine where
  "demo_start = \<lparr>pm_fs = demo_fs, pm_tasks = Map.empty\<rparr>"

text \<open>Two puts of the same block: the second starts and renames while the first is half-way through its write.\<close>

definition demo_schedule :: "put_event list" where
  "demo_schedule = EvStart 0 demo_id [1, 2, 3] # EvStart 1 demo_id [7, 8, 9, 10] #
     replicate 8 (EvCall 0 (calm_call ''a'')) @ replicate 11 (EvCall 1 (calm_call ''b''))"

definition demo_machine :: put_machine where
  "demo_machine = the (exec_schedule ''/srv'' demo_schedule demo_start)"

lemma demo_schedule_runs: "exec_schedule ''/srv'' demo_schedule demo_start \<noteq> None"
  by code_simp

lemma demo_machine_reach: "put_machine_reach ''/srv'' demo_fs demo_machine"
proof -
  have "exec_schedule ''/srv'' demo_schedule demo_start = Some demo_machine"
    using demo_schedule_runs by (simp add: demo_machine_def)
  then show ?thesis using exec_schedule_reach [OF _ pm_init, of "''/srv''" demo_schedule demo_fs]
    by (simp add: demo_start_def)
qed

definition demo_next :: put_machine where
  "demo_next = the (exec_event ''/srv'' (EvCall 1 (calm_call ''b'')) demo_machine)"

lemma demo_next_runs: "exec_event ''/srv'' (EvCall 1 (calm_call ''b'')) demo_machine \<noteq> None"
  by code_simp

lemma demo_next_step: "put_machine_step ''/srv'' demo_machine demo_next"
  using demo_next_runs by (intro exec_event_step) (simp add: demo_next_def)

lemma demo_next_reads: "local_get ''/srv'' None demo_id (pm_fs demo_next) = Inr [7, 8, 9, 10]"
  by code_simp

lemma demo_first_mid_write:
  "(case pm_tasks demo_next 0 of Some T \<Rightarrow> (case pt_pc T of PcWrite _ r \<Rightarrow> r = [3] | _ \<Rightarrow> False) | None \<Rightarrow> False)"
  by code_simp

text \<open>
  Puts and deletes are linearisable. For any number of concurrent puts, with their system calls, the
  pieces of their writes and the deletes interleaved in any order and any call free to fail: every step
  either leaves the stored blocks as they are, or is the rename of one put, which stores that put's
  whole payload under its identifier and returns \<open>Ok\<close>, or removes one block by a delete.
\<close>

theorem put_linearisable:
  assumes "local_ok root s0" and "put_machine_reach root s0 S" and "put_machine_step root S S'"
  shows "fs_view root (pm_fs S') = fs_view root (pm_fs S) \<or>
    (\<exists>k T t. pm_tasks S k = Some T \<and> pt_pc T = PcPersist t \<and>
       pm_tasks S' = (pm_tasks S)(k \<mapsto> T\<lparr>pt_pc := PcDone (Inr ())\<rparr>) \<and>
       fs_view root (pm_fs S') = (fs_view root (pm_fs S))(pt_id T \<mapsto> pt_payload T)) \<or>
    (\<exists>i. block_id_ok i \<and> pm_tasks S' = pm_tasks S \<and>
       fs_view root (pm_fs S') = (fs_view root (pm_fs S))(i := None))"
  by (rule put_machine_step_view [OF assms(3) put_machine_reach_ok [OF assms(2,1)]])

text \<open>Witness: the rename of the second put while the first one has written two of its three bytes.\<close>

theorem put_linearisable_witness:
  "local_get ''/srv'' None demo_id (pm_fs demo_next) = Inr [7, 8, 9, 10] \<and>
   (fs_view ''/srv'' (pm_fs demo_next) = fs_view ''/srv'' (pm_fs demo_machine) \<or>
    (\<exists>k T t. pm_tasks demo_machine k = Some T \<and> pt_pc T = PcPersist t \<and>
       pm_tasks demo_next = (pm_tasks demo_machine)(k \<mapsto> T\<lparr>pt_pc := PcDone (Inr ())\<rparr>) \<and>
       fs_view ''/srv'' (pm_fs demo_next) = (fs_view ''/srv'' (pm_fs demo_machine))(pt_id T \<mapsto> pt_payload T)) \<or>
    (\<exists>i. block_id_ok i \<and> pm_tasks demo_next = pm_tasks demo_machine \<and>
       fs_view ''/srv'' (pm_fs demo_next) = (fs_view ''/srv'' (pm_fs demo_machine))(i := None)))"
  using put_linearisable [OF demo_fs_ok demo_machine_reach demo_next_step] demo_next_reads by blast

text \<open>
  No torn reads: in every state that concurrent puts and deletes can reach, also with puts half-way
  through their writes and with writes that failed, a \<open>get\<close> that returns bytes returns either what was
  stored at the start or the whole payload of a put of that identifier that has returned \<open>Ok\<close>, and the
  file it read is synced to disk.
\<close>

theorem no_torn_reads:
  assumes "local_ok root s0" and "put_machine_reach root s0 S" and "block_id_ok i"
    and "local_get root g i (pm_fs S) = Inr b"
  shows "(fs_view root s0 i = Some b \<or>
      (\<exists>k T. pm_tasks S k = Some T \<and> pt_id T = i \<and> pt_payload T = b \<and> pt_pc T = PcDone (Inr ()))) \<and>
    (\<exists>f. fs_files (pm_fs S) (block_path root i) = Some f \<and> ff_data f = b \<and> ff_synced f)"
proof -
  have ok: "local_ok root (pm_fs S)"
    using put_machine_reach_ok [OF assms(2,1)] by (simp add: put_machine_ok_def)
  have v: "fs_view root (pm_fs S) i = Some b" by (rule lfs.get_ok [OF ok assms(3,4)])
  then have "\<exists>f. fs_files (pm_fs S) (block_path root i) = Some f \<and> ff_data f = b \<and> ff_synced f"
    using ok assms(3) by (auto simp: fs_view_def local_ok_def)
  then show ?thesis
    using v put_machine_reach_blocks [OF assms(2,1)] unfolding put_blocks_from_def by blast
qed

text \<open>Witness: the read after the second put's rename, with the first put still writing.\<close>

theorem no_torn_reads_witness:
  "(case pm_tasks demo_next 0 of Some T \<Rightarrow> (case pt_pc T of PcWrite _ r \<Rightarrow> r = [3] | _ \<Rightarrow> False) | None \<Rightarrow> False) \<and>
   (\<exists>k T. pm_tasks demo_next k = Some T \<and> pt_id T = demo_id \<and> pt_payload T = [7, 8, 9, 10] \<and>
      pt_pc T = PcDone (Inr ()))"
proof -
  have "put_machine_reach ''/srv'' demo_fs demo_next" by (rule pm_next [OF demo_machine_reach demo_next_step])
  moreover have "fs_view ''/srv'' demo_fs demo_id = None" by (simp add: fs_view_def demo_fs_def)
  ultimately show ?thesis
    using no_torn_reads [OF demo_fs_ok _ demo_id_ok demo_next_reads] demo_first_mid_write by simp
qed

end
