(* ===== verification/System.thy ===== *)
theory System
  imports Lifecycle Put_Interleaving
begin

section \<open>The running server (app.rs)\<close>

text \<open>
  After start-up the server's state changes by the requests that its router answers and by the ticks of
  its background tasks. An action carries what its environment does to it: clocks, the issuer's replies,
  faults of the file system, and what other tasks do to the contexts while it is suspended. A run is a sequence of
  actions with the responses that the clients got; an action that panics is not a step of a run.
\<close>

subsection \<open>Actions and runs\<close>

datatype 'body action =
    HandleRequest auth_env put_env "io_error option" "'body request"
  | RefreshKeys nat refresh_env
  | RefreshDiscovery nat refresh_env
  | CleanUp instant

text \<open>The router as \<open>run\<close> builds it: both contexts, the replay store, the configured storage.\<close>

definition server_router ::
    "'dk ext \<Rightarrow> 'body web_ext \<Rightarrow> ('net \<Rightarrow> ip_addr \<Rightarrow> bool) \<Rightarrow> 'net booted \<Rightarrow> auth_env \<Rightarrow> put_env \<Rightarrow> io_error option \<Rightarrow>
     ('body, fs) service" where
  "server_router X W nc b A E g =
     build_router X A W nc (bd_config b)
       (map_option (Pair vault_addr) (bd_contexts b vault_addr))
       (map_option (Pair admin_addr) (bd_contexts b admin_addr))
       True
       (map_option (\<lambda>root. local_ops root E g) (bd_storage b))"

definition perform ::
    "'dk ext \<Rightarrow> 'body web_ext \<Rightarrow> ('net \<Rightarrow> ip_addr \<Rightarrow> bool) \<Rightarrow> 'net booted \<Rightarrow> 'body action \<Rightarrow> fs server_state \<Rightarrow>
     (response option \<times> fs server_state) outcome" where
  "perform X W nc b act s = (case act of
      HandleRequest A E g r \<Rightarrow>
        bind_outcome (server_router X W nc b A E g r s) (\<lambda>(resp, _, s'). Returns (Some resp, s'))
    | RefreshKeys a E \<Rightarrow>
        bind_outcome (do_scheduled_refresh X E (ss_contexts s) a) (\<lambda>h. Returns (None, s\<lparr>ss_contexts := h\<rparr>))
    | RefreshDiscovery a E \<Rightarrow>
        bind_outcome (do_discovery_refresh X E (ss_contexts s) a) (\<lambda>h. Returns (None, s\<lparr>ss_contexts := h\<rparr>))
    | CleanUp now \<Rightarrow> Returns (None, s\<lparr>ss_replay := maintenance_tick (ss_replay s) now\<rparr>))"

text \<open>
  What is taken for granted of an action's environment: the other tasks keep the contexts in order, a
  random file name has no slash, and the system does not report a file that exists as not found.
\<close>

definition action_ok :: "'dk ext \<Rightarrow> 'body action \<Rightarrow> bool" where
  "action_ok X act = (case act of
      HandleRequest A E g _ \<Rightarrow> env_fine X (ae_refresh A) \<and> put_env_ok E \<and> g \<noteq> Some IoNotFound
    | RefreshKeys a E \<Rightarrow> env_fine X E \<and> (a = vault_addr \<or> a = admin_addr)
    | RefreshDiscovery _ E \<Rightarrow> env_fine X E
    | CleanUp _ \<Rightarrow> True)"

definition booted_state :: "'net booted \<Rightarrow> fs \<Rightarrow> fs server_state" where
  "booted_state b s = \<lparr>ss_contexts = bd_contexts b, ss_replay = bd_replay b, ss_fs = s\<rparr>"

inductive server_run ::
    "'dk ext \<Rightarrow> 'body web_ext \<Rightarrow> ('net \<Rightarrow> ip_addr \<Rightarrow> bool) \<Rightarrow> 'net booted \<Rightarrow>
     fs server_state \<Rightarrow> ('body action \<times> response option) list \<Rightarrow> fs server_state \<Rightarrow> bool"
  for X W nc b where
  run_nil: "server_run X W nc b s [] s"
| run_step: "action_ok X act \<Longrightarrow> perform X W nc b act s = Returns (resp, s1) \<Longrightarrow> server_run X W nc b s1 tr s'
    \<Longrightarrow> server_run X W nc b s ((act, resp) # tr) s'"

inductive_simps server_run_nil_iff: "server_run X W nc b s [] s'"
inductive_simps server_run_cons_iff: "server_run X W nc b s ((act, resp) # tr) s'"

lemma server_run_append:
  "server_run X W nc b s (tr @ tr') s' \<longleftrightarrow> (\<exists>s1. server_run X W nc b s tr s1 \<and> server_run X W nc b s1 tr' s')"
  by (induction tr arbitrary: s) (simp add: server_run_nil_iff, clarsimp simp: server_run_cons_iff, blast)

subsection \<open>What an action keeps\<close>

definition server_ok :: "'dk ext \<Rightarrow> 'net booted \<Rightarrow> fs server_state \<Rightarrow> bool" where
  "server_ok X b s \<longleftrightarrow> contexts_fine X (ss_contexts s) \<and> replay_inv (ss_replay s) \<and>
     rs_config (ss_replay s) = auth (bd_config b) \<and> (\<forall>root. bd_storage b = Some root \<longrightarrow> local_ok root (ss_fs s))"

lemma on_demand_refresh_fine:
  assumes "contexts_fine X h" and "env_fine X E" and "a = vault_addr \<or> a = admin_addr"
    and "on_demand_refresh X E h a = Returns (q, h')"
  shows "contexts_fine X h'"
proof -
  have ok: "contexts_ok X h" "contexts_https h" "env_keeps X E"
    using assms(1,2) by (simp_all add: contexts_fine_def env_fine_def)
  have wait: "contexts_https g \<Longrightarrow> contexts_https (snd (wait_for_completion E g a p))" for g p
    using assms(2) by (auto simp: wait_for_completion_def env_fine_def Let_def split: option.splits)
  have cas: "contexts_https (snd (claim_cas (re_before_cas E h) a p now))" for p now
  proof -
    have "contexts_https (re_before_cas E h)" using ok(2) assms(2) by (simp add: env_fine_def)
    then show ?thesis by (auto simp: claim_cas_def contexts_https_def split: option.splits)
  qed
  have done_store: "contexts_https g \<Longrightarrow> contexts_https (completed_store g a now)" for g now
    by (auto simp: completed_store_def contexts_https_def split: option.splits)
  obtain c where c: "h a = Some c" using ok(1) assms(3) by (auto simp: contexts_ok_def)
  obtain claimed h1 where cl: "claim_cas (re_before_cas E h) a (last_on_demand_refresh c)
      (unwrap_or (re_now E) 0) = (claimed, h1)" by force
  then have h1: "contexts_https h1" using cas by (metis snd_conv)
  consider "(q, h') = wait_for_completion E h a (last_on_demand_refresh c)"
    | "(q, h') = wait_for_completion E h1 a (last_on_demand_refresh c)"
    | h2 where "fetch_and_install X E h1 a = Returns (q, h2)" "h' = completed_store h2 a (unwrap_or (re_now E) 0)"
    using assms(4) c cl by (auto simp: on_demand_refresh_def Let_def result_simps split: if_splits)
  then have "contexts_https h'"
  proof cases
    case 1
    then show ?thesis using wait [OF ok(2)] by (metis snd_conv)
  next
    case 2
    then show ?thesis using wait [OF h1] by (metis snd_conv)
  next
    case 3
    then show ?thesis using fetch_and_install_https [OF h1 assms(2)] done_store by blast
  qed
  then show ?thesis
    using contexts_ok_on_demand_refresh [OF ok(1,3) assms(3,4)] by (simp add: contexts_fine_def)
qed

lemma authenticate_common_keeps:
  assumes "authenticate_common X A a ctx r h st = Returns (res, h', st')"
    and "env_fine X (ae_refresh A)" and "a = vault_addr \<or> a = admin_addr" and "contexts_fine X h"
  shows "contexts_fine X h'" and "st' = st \<or> (\<exists>k d. st' = run_op (OpInsert k d) st)"
proof -
  have "h' = h \<or> (\<exists>raw r'. validate_token X (ae_refresh A) (ae_token_clock A) h a ctx raw = Returns (r', h'))"
    using assms(1)
    by (auto simp: authenticate_common_def bind_outcome_def split: sum.splits outcome.splits prod.splits)
  then show "contexts_fine X h'"
  proof
    assume "\<exists>raw r'. validate_token X (ae_refresh A) (ae_token_clock A) h a ctx raw = Returns (r', h')"
    then obtain raw r' where "validate_token X (ae_refresh A) (ae_token_clock A) h a ctx raw = Returns (r', h')" by blast
    then show ?thesis
      by (cases rule: validate_token_cases) (use assms(2-4) on_demand_refresh_fine in blast)+
  qed (use assms(4) in simp)
  show "st' = st \<or> (\<exists>k d. st' = run_op (OpInsert k d) st)"
  proof (cases res)
    case (Inl e)
    then show ?thesis using authenticate_common_Inl assms(1) by blast
  next
    case (Inr sub)
    obtain raw_token raw_proof uri at p where
      p: "validate_proof X (ae_proof_clock A) (ae_instant A) ctx st raw_proof (req_method r) uri at raw_token = (Inr p, st')"
      by (rule authenticate_common_parts [OF assms(1) [unfolded Inr]])
    from validate_proof_Inr(2) [OF p] show ?thesis
      by (intro disjI2) (metis run_op_def snd_conv store_op.simps(5))
  qed
qed

text \<open>A guarded service changes the contexts and the replay store only by authenticating.\<close>

definition frames :: "('body, 'fs) service \<Rightarrow> bool" where
  "frames inner \<longleftrightarrow> (\<forall>r s resp log s'. inner r s = Returns (resp, log, s') \<longrightarrow>
     ss_contexts s' = ss_contexts s \<and> ss_replay s' = ss_replay s)"

lemma frames_handlers:
  "frames fallback_404" "frames (handle_health W)" "frames (handle_whoami W)" "frames (handle_admin_whoami W)"
  "frames (block_service W ops n)"
  by (auto simp: frames_def handler_defs block_service_def split: if_splits option.splits prod.splits)

lemma guard_call_keeps:
  assumes "guard_call ins am X A a ctx inner r s = Returns (resp, log, s')" and "frames inner"
    and "env_fine X (ae_refresh A)" and "a = vault_addr \<or> a = admin_addr" and "contexts_fine X (ss_contexts s)"
  shows "contexts_fine X (ss_contexts s') \<and>
    (ss_replay s' = ss_replay s \<or> (\<exists>k d. ss_replay s' = run_op (OpInsert k d) (ss_replay s)))"
  using assms(1)
proof (cases rule: guard_call_cases)
  case bypass
  then show ?thesis using assms(2,5) by (auto simp: frames_def)
next
  case (passed sub h' st')
  have "ss_contexts s' = h'" "ss_replay s' = st'" using passed(3) assms(2) by (auto simp: frames_def)
  then show ?thesis using authenticate_common_keeps [OF passed(2) assms(3-5)] by simp
next
  case (failed f h')
  then show ?thesis using authenticate_common_keeps [OF failed(2) assms(3-5)] by simp
qed

lemma server_router_keeps:
  assumes "server_router X W nc b A E g r s = Returns (resp, log, s')"
    and "env_fine X (ae_refresh A)" and "contexts_fine X (ss_contexts s)"
  shows "contexts_fine X (ss_contexts s') \<and>
    (ss_replay s' = ss_replay s \<or> (\<exists>k d. ss_replay s' = run_op (OpInsert k d) (ss_replay s)))"
  using assms(1) [unfolded server_router_def] refl
proof (cases rule: build_router_cases)
  case fallback
  then show ?thesis using frames_handlers(1) assms(3) unfolding frames_def by metis
next
  case health
  then show ?thesis using frames_handlers(2) assms(3) unfolding frames_def by metis
next
  case (whoami a ctx)
  have "a = vault_addr \<or> a = admin_addr" using whoami(1) by auto
  from guard_call_keeps [OF whoami(2) [unfolded vault_guard_call_def] frames_handlers(3) assms(2) this assms(3)]
  show ?thesis .
next
  case (block a ctx ops)
  have "a = vault_addr \<or> a = admin_addr" using block(1) by auto
  from guard_call_keeps [OF block(3) [unfolded vault_guard_call_def] frames_handlers(5) assms(2) this assms(3)]
  show ?thesis .
next
  case (admin a ctx)
  have "a = vault_addr \<or> a = admin_addr" using admin(1) by auto
  from guard_call_keeps [OF admin(2) [unfolded admin_guard_call_def] frames_handlers(4) assms(2) this assms(3)]
  show ?thesis .
qed

subsection \<open>The blocks, seen through requests and responses\<close>

text \<open>
  The abstract server is a map from identifiers to payloads: a \<open>PUT\<close> that was answered with 204 sets its
  block, a \<open>DELETE\<close> that was answered with 204 removes it, and nothing else changes anything.
\<close>

definition request_effect ::
    "('body \<Rightarrow> bytes option) \<Rightarrow> 'body request \<Rightarrow> response \<Rightarrow> (block_id \<rightharpoonup> bytes) \<Rightarrow> (block_id \<rightharpoonup> bytes)" where
  "request_effect body_data r resp m =
     (case request_block_id r of
        None \<Rightarrow> m
      | Some i \<Rightarrow>
          if resp_status resp = 204 \<and> req_method r = ''PUT'' then m(i := body_data (req_body r))
          else if resp_status resp = 204 \<and> req_method r = ''DELETE'' then m(i := None)
          else m)"

definition block_effect ::
    "('body \<Rightarrow> bytes option) \<Rightarrow> 'body action \<times> response option \<Rightarrow> (block_id \<rightharpoonup> bytes) \<Rightarrow> (block_id \<rightharpoonup> bytes)" where
  "block_effect body_data x m =
     (case x of (HandleRequest _ _ _ r, Some resp) \<Rightarrow> request_effect body_data r resp m | _ \<Rightarrow> m)"

lemma local_delete_effect:
  assumes "local_ok root s" and "block_id_ok i" and "g \<noteq> Some IoNotFound" and "local_delete root g i s = (q, s')"
  shows "local_ok root s' \<and> fs_view root s' = (if q = Inr () then (fs_view root s)(i := None) else fs_view root s)"
proof (cases g)
  case None
  then show ?thesis using local_delete_calm [OF assms(1,2)] assms(4) by simp
next
  case (Some e)
  then have "q \<noteq> Inr ()" "s' = s"
    using assms(3,4) by (auto simp: local_delete_def remove_file_def split: io_error.splits)
  then show ?thesis using assms(1) by simp
qed

lemma handle_block_effect:
  assumes "local_ok root s" and "put_env_ok E" and "g \<noteq> Some IoNotFound" and "to_bytes_documented tb body_data"
    and "handle_block tb (local_ops root E g) n r s = (resp, log, s')"
  shows "local_ok root s' \<and> fs_view root s' = request_effect body_data r resp (fs_view root s)"
proof (cases "request_block_id r")
  case None
  then show ?thesis using assms(1,5) by (simp add: handle_block_malformed request_effect_def)
next
  case (Some i)
  note id = request_block_id_ok [OF Some]
  consider "req_method r = ''PUT''" | "req_method r = ''DELETE''" | "req_method r = ''GET''"
    | "req_method r \<notin> {''GET'', ''PUT'', ''DELETE''}" by blast
  then show ?thesis
  proof cases
    case 1
    have "so_put (local_ops root E g) = run_put E root" by (simp add: local_ops_def)
    from lfs.block_put [OF assms(1,2) Some 1 this assms(4,5)] Some 1 show ?thesis
      by (auto simp: request_effect_def handler_defs put_accepts_def)
  next
    case 2
    obtain q s1 where d: "local_delete root g i s = (q, s1)" by fastforce
    have "q \<noteq> Inl StorageNotFound"
      using d by (auto simp: local_delete_def backend_error_def split: prod.splits sum.splits io_error.splits)
    then show ?thesis
      using assms(5) local_delete_effect [OF assms(1) id assms(3) d] d 2 Some
      by (auto simp: handle_block_dispatch(3) handle_delete_def local_ops_def request_effect_def
          handler_defs split: sum.splits storage_error.splits)
  next
    case 3
    then show ?thesis
      using assms(1,5) Some
      by (auto simp: handle_block_dispatch(1) handle_get_def request_effect_def split: sum.splits storage_error.splits)
  next
    case 4
    then show ?thesis using assms(1,5) Some by (simp add: handle_block_dispatch(4) request_effect_def)
  qed
qed

text \<open>The services other than the block handler.\<close>

definition quiet :: "('body, 'fs) service \<Rightarrow> bool" where
  "quiet inner \<longleftrightarrow> (\<forall>r s resp log s'. inner r s = Returns (resp, log, s') \<longrightarrow>
     ss_fs s' = ss_fs s \<and> resp_status resp \<noteq> 204)"

lemma quiet_handlers:
  "quiet fallback_404" "quiet (handle_health W)" "quiet (handle_whoami W)" "quiet (handle_admin_whoami W)"
  by (auto simp: quiet_def handler_defs split: if_splits option.splits)

lemma failure_not_204: "resp_status (failure_response f) \<noteq> 204"
  by (simp add: handler_defs)

lemma guard_call_quiet:
  assumes "guard_call ins am X A a ctx inner r s = Returns (resp, log, s')" and "quiet inner"
  shows "ss_fs s' = ss_fs s \<and> resp_status resp \<noteq> 204"
  using assms(1)
proof (cases rule: guard_call_cases)
  case bypass
  then show ?thesis using assms(2) unfolding quiet_def by blast
next
  case (passed sub h' st')
  then have "ss_fs s' = ss_fs (s\<lparr>ss_contexts := h', ss_replay := st'\<rparr>) \<and> resp_status resp \<noteq> 204"
    using assms(2) unfolding quiet_def by blast
  then show ?thesis by simp
next
  case (failed f h')
  then show ?thesis using failure_not_204 by simp
qed

text \<open>
  A response either comes without a change of the file system and is not 204, or the vault context has
  authenticated the request and the block handler has answered.
\<close>

lemma server_router_cases:
  assumes "server_router X W nc b A E g r s = Returns (resp, log, s')"
    and "r' = r\<lparr>ext_effective_address := Some (request_effective_address nc (trusted_proxies (bd_config b)) r)\<rparr>"
  obtains (other) "ss_fs s' = ss_fs s" "resp_status resp \<noteq> 204"
  | (block) ctx root sub h' where "bd_contexts b vault_addr = Some ctx" "bd_storage b = Some root"
      "authenticate_common X A vault_addr ctx r' (ss_contexts s) (ss_replay s) = Returns (Inr sub, h', ss_replay s')"
      "ss_contexts s' = h'"
      "handle_block (web_to_bytes W) (local_ops root E g) (block_size_bytes (bd_config b))
         (r'\<lparr>ext_vault_subject := Some (vault_subject_new sub)\<rparr>) (ss_fs s) = (resp, log, ss_fs s')"
  using assms(1) [unfolded server_router_def] assms(2)
proof (cases rule: build_router_cases)
  case fallback
  then show thesis using quiet_handlers(1) other unfolding quiet_def by blast
next
  case health
  then show thesis using quiet_handlers(2) other unfolding quiet_def by blast
next
  case (whoami a ctx)
  then show thesis using guard_call_quiet [OF _ quiet_handlers(3)] other unfolding vault_guard_call_def by blast
next
  case (admin a ctx)
  then show thesis using guard_call_quiet [OF _ quiet_handlers(4)] other unfolding admin_guard_call_def by blast
next
  case (block a ctx ops)
  obtain root where root: "bd_storage b = Some root" "ops = local_ops root E g" using block(2) by auto
  have a: "a = vault_addr" "bd_contexts b vault_addr = Some ctx" using block(1) by auto
  show thesis
    using block(3) [unfolded vault_guard_call_def]
  proof (cases rule: guard_call_cases)
    case bypass
    then show thesis using block_unguarded(1,2) [OF bypass] other by (simp add: respond_block_404_def)
  next
    case (passed sub h' st')
    have res: "ss_contexts s' = h'" "ss_replay s' = st'"
      "handle_block (web_to_bytes W) ops (block_size_bytes (bd_config b))
         (r'\<lparr>ext_vault_subject := Some (vault_subject_new sub)\<rparr>) (ss_fs s) = (resp, log, ss_fs s')"
      using passed(3) by (auto simp: block_service_def split: prod.splits)
    show thesis by (rule that(2) [OF a(2) root(1)]) (use passed(2) res root(2) a(1) in simp_all)
  next
    case (failed f h')
    then show thesis using failure_not_204 other by simp
  qed
qed

lemma request_effect_no_204: "resp_status resp \<noteq> 204 \<Longrightarrow> request_effect body_data r resp m = m"
  by (simp add: request_effect_def split: option.splits)

lemma request_effect_ext:
  "request_effect body_data (r\<lparr>ext_effective_address := e, ext_vault_subject := v\<rparr>) resp m = request_effect body_data r resp m"
  by (auto simp: request_effect_def request_block_id_def split: option.splits)

lemma perform_effect:
  assumes "perform X W nc b act s = Returns (o1, s')" and "server_ok X b s" and "action_ok X act"
    and "bd_storage b = Some root" and "to_bytes_documented (web_to_bytes W) body_data"
  shows "local_ok root (ss_fs s') \<and> fs_view root (ss_fs s') = block_effect body_data (act, o1) (fs_view root (ss_fs s))"
proof (cases act)
  case (HandleRequest A E g r)
  have ok: "local_ok root (ss_fs s)" using assms(2,4) by (simp add: server_ok_def)
  obtain resp log where r: "server_router X W nc b A E g r s = Returns (resp, log, s')" "o1 = Some resp"
    using assms(1) HandleRequest by (auto simp: perform_def bind_outcome_def split: outcome.splits)
  from r(1) refl show ?thesis
  proof (cases rule: server_router_cases)
    case other
    then show ?thesis using ok r(2) HandleRequest by (simp add: block_effect_def request_effect_no_204)
  next
    case (block ctx root' sub h')
    have "put_env_ok E" "g \<noteq> Some IoNotFound" using assms(3) HandleRequest by (simp_all add: action_ok_def)
    from handle_block_effect [OF ok this assms(5)] block(2,5) assms(4) r(2) HandleRequest
    show ?thesis by (auto simp: block_effect_def request_effect_ext)
  qed
next
  case (CleanUp now)
  then show ?thesis using assms by (auto simp: perform_def server_ok_def block_effect_def)
qed (use assms in \<open>auto simp: perform_def server_ok_def block_effect_def bind_outcome_def split: outcome.splits\<close>)

definition action_ticks :: "'body action \<Rightarrow> instant set" where
  "action_ticks act = (case act of CleanUp now \<Rightarrow> {now} | _ \<Rightarrow> {})"

lemma perform_replay:
  assumes "perform X W nc b act s = Returns (o1, s')" and "server_ok X b s" and "action_ok X act"
  shows "\<exists>ops. ss_replay s' = fold run_op ops (ss_replay s) \<and> (\<forall>now. OpTick now \<in> set ops \<longrightarrow> now \<in> action_ticks act)"
proof (cases act)
  case (HandleRequest A E g r)
  obtain resp log where r: "server_router X W nc b A E g r s = Returns (resp, log, s')"
    using assms(1) HandleRequest by (auto simp: perform_def bind_outcome_def split: outcome.splits)
  have "env_fine X (ae_refresh A)" "contexts_fine X (ss_contexts s)"
    using assms(2,3) HandleRequest by (simp_all add: action_ok_def server_ok_def)
  from server_router_keeps [OF r this] show ?thesis
  proof (elim conjE disjE exE)
    assume "ss_replay s' = ss_replay s"
    then show ?thesis by (intro exI [of _ "[]"]) simp
  next
    fix k d assume "ss_replay s' = run_op (OpInsert k d) (ss_replay s)"
    then show ?thesis by (intro exI [of _ "[OpInsert k d]"]) simp
  qed
next
  case (CleanUp now)
  then show ?thesis
    using assms(1) by (intro exI [of _ "[OpTick now]"]) (auto simp: perform_def run_op_def action_ticks_def)
qed (use assms(1) in \<open>intro exI [of _ "[]"], auto simp: perform_def bind_outcome_def split: outcome.splits\<close>)+

lemma run_op_config: "rs_config (run_op x st) = rs_config st"
  by (cases x) (auto simp: run_op_def try_insert_config maintenance_tick_def tick_drain_def tick_remove_def Let_def
      split: prod.splits if_splits)

lemma run_ops_keep: "replay_inv st \<Longrightarrow> replay_inv (fold run_op ops st) \<and> rs_config (fold run_op ops st) = rs_config st"
  by (induction ops arbitrary: st) (simp_all add: run_op_inv run_op_config)

text \<open>The file system of a server without storage does not matter; with storage its root stays in order.\<close>

lemma perform_ok:
  assumes "perform X W nc b act s = Returns (o1, s')" and "server_ok X b s" and "action_ok X act"
    and "to_bytes_documented (web_to_bytes W) body_data"
  shows "server_ok X b s'"
proof -
  have c: "contexts_fine X (ss_contexts s)" using assms(2) by (simp add: server_ok_def)
  have "contexts_fine X (ss_contexts s')"
  proof (cases act)
    case (HandleRequest A E g r)
    then show ?thesis
      using assms(1,3) server_router_keeps [OF _ _ c]
      by (fastforce simp: perform_def bind_outcome_def action_ok_def split: outcome.splits)
  next
    case (RefreshKeys a E)
    then show ?thesis
      using assms(1,3) scheduled_refresh_fine [OF c, of E a]
      by (auto simp: perform_def bind_outcome_def action_ok_def split: outcome.splits)
  next
    case (RefreshDiscovery a E)
    then show ?thesis
      using assms(1,3) discovery_refresh_fine [OF c]
      by (auto simp: perform_def bind_outcome_def action_ok_def split: outcome.splits)
  next
    case (CleanUp now)
    then show ?thesis using assms(1) c by (auto simp: perform_def)
  qed
  moreover have "replay_inv (ss_replay s') \<and> rs_config (ss_replay s') = auth (bd_config b)"
    using perform_replay [OF assms(1-3)] run_ops_keep assms(2) by (auto simp: server_ok_def)
  moreover have "local_ok root (ss_fs s')" if "bd_storage b = Some root" for root
    using perform_effect [OF assms(1-3) that assms(4)] by blast
  ultimately show ?thesis by (simp add: server_ok_def)
qed

lemma server_run_ok:
  assumes "server_run X W nc b s tr s'" and "server_ok X b s" and "to_bytes_documented (web_to_bytes W) body_data"
  shows "server_ok X b s'"
  using assms by (induction rule: server_run.induct) (auto intro: perform_ok)

lemma server_run_effect:
  assumes "server_run X W nc b s tr s'" and "server_ok X b s" and "bd_storage b = Some root"
    and "to_bytes_documented (web_to_bytes W) body_data"
  shows "fs_view root (ss_fs s') = fold (block_effect body_data) tr (fs_view root (ss_fs s))"
  using assms
proof (induction rule: server_run.induct)
  case (run_step act s resp s1 tr s')
  have "server_ok X b s1" using perform_ok run_step.hyps(1,2) run_step.prems(1,3) by blast
  then show ?case
    using run_step.IH run_step.prems(2,3) perform_effect [OF run_step.hyps(2) run_step.prems(1) run_step.hyps(1) run_step.prems(2,3)]
    by simp
qed simp

lemma server_run_replay:
  assumes "server_run X W nc b s tr s'" and "server_ok X b s" and "to_bytes_documented (web_to_bytes W) body_data"
  shows "\<exists>ops. ss_replay s' = fold run_op ops (ss_replay s) \<and>
    (\<forall>now. OpTick now \<in> set ops \<longrightarrow> (\<exists>x \<in> set tr. now \<in> action_ticks (fst x)))"
  using assms
proof (induction rule: server_run.induct)
  case (run_nil s)
  show ?case by (intro exI [of _ "[]"]) simp
next
  case (run_step act s resp s1 tr s')
  have "server_ok X b s1" using perform_ok run_step.hyps(1,2) run_step.prems by blast
  then obtain ops where ops: "ss_replay s' = fold run_op ops (ss_replay s1)"
      "\<forall>now. OpTick now \<in> set ops \<longrightarrow> (\<exists>x \<in> set tr. now \<in> action_ticks (fst x))"
    using run_step.IH run_step.prems(2) by blast
  obtain ops1 where ops1: "ss_replay s1 = fold run_op ops1 (ss_replay s)"
      "\<forall>now. OpTick now \<in> set ops1 \<longrightarrow> now \<in> action_ticks act"
    using perform_replay [OF run_step.hyps(2) run_step.prems(1) run_step.hyps(1)] by blast
  show ?case by (intro exI [of _ "ops1 @ ops"]) (use ops ops1 in auto)
qed

lemma bootstrap_server_ok:
  assumes "bootstrap X B s = Returns (Inr b, log, s')" and "probe_env_ok (be_probe B)"
    and "\<And>root. bd_storage b = Some root \<Longrightarrow> local_ok root s"
  shows "server_ok X b (booted_state b s')"
  using assms(1)
proof (cases rule: bootstrap_cases)
  case (started cfg h st addr)
  have "local_ok root s'" if "bd_storage b = Some root" for root
  proof -
    have "st = Some root" using started(8) that by simp
    then have "backend cfg = BackendLocalFs root"
      using init_from_config_Inr [OF started(3)] by (simp split: storage_backend.splits)
    then show ?thesis using init_from_config_blocks [OF started(3) assms(2)] assms(3) [OF that] by blast
  qed
  then show ?thesis
    using started(8) init_contexts_fine [OF started(2)] replay_inv_new [of "auth cfg"]
    by (simp add: server_ok_def booted_state_def replay_store_new_def)
qed simp_all

subsection \<open>An example\<close>

text \<open>A started server with a block size of three bytes and a wide replay window, and a client that writes a block.\<close>

definition demo_block_url :: string where
  "demo_block_url = ''/api/blocks/'' @ block_id_as_str demo_id"

definition demo_write_claims :: dpop_claims where
  "demo_write_claims = (demo_proof_claims 100)\<lparr>dc_htm := Some ''PUT'', dc_htu := Some (''http://h'' @ demo_block_url)\<rparr>"

definition demo_write_ext :: "unit ext" where
  "demo_write_ext = (demo_auth_ext 100)\<lparr>jwt_decode_proof := (\<lambda>_ _ _. Inr demo_write_claims)\<rparr>"

definition demo_write_context :: oidc_context where
  "demo_write_context = demo_vault_context\<lparr>ctx_auth_config := demo_wide_config\<rparr>"

definition demo_write_boot :: "unit booted" where
  "demo_write_boot = \<lparr>bd_config = demo_server_config\<lparr>backend := BackendLocalFs ''/srv'', auth := demo_wide_config\<rparr>,
     bd_contexts = [vault_addr \<mapsto> demo_write_context, admin_addr \<mapsto> demo_admin_context],
     bd_replay = replay_store_new demo_wide_config, bd_storage = Some ''/srv'', bd_addr = SocketV4 [127, 0, 0, 1] 80\<rparr>"

definition demo_block_web :: "bytes web_ext" where
  "demo_block_web = \<lparr>web_to_bytes = demo_to_bytes, web_route = (\<lambda>_ _. Some ''/api/blocks/{id}''), web_json = (\<lambda>_. [])\<rparr>"

definition demo_write_request :: "bytes request" where
  "demo_write_request = (demo_block_request ''PUT'' [1, 2, 3])\<lparr>req_headers :=
     [(''content-length'', Some ''3''), (''host'', Some ''h''), (''authorization'', Some ''DPoP tok''), (''dpop'', Some ''prf'')],
     req_path_and_query := Some demo_block_url, ext_vault_subject := None\<rparr>"

definition demo_write :: "bytes action" where
  "demo_write = HandleRequest demo_auth_env calm_put None demo_write_request"

definition demo_write_proof :: dpop_proof where
  "demo_write_proof = (demo_proof 100)\<lparr>dp_htm := ''PUT'', dp_htu := ''http://h'' @ demo_block_url\<rparr>"

lemma demo_write_ext_sel [simp]:
  "sha256 demo_write_ext = sha256 (demo_auth_ext 100)" "b64_encode demo_write_ext = b64_encode (demo_auth_ext 100)"
  "b64_decode demo_write_ext = b64_decode (demo_auth_ext 100)" "slice_ct_eq demo_write_ext = slice_ct_eq (demo_auth_ext 100)"
  "url_parse demo_write_ext = url_parse (demo_auth_ext 100)"
  "decoding_key_from_jwk demo_write_ext = decoding_key_from_jwk (demo_auth_ext 100)"
  "jwt_decode_header demo_write_ext = jwt_decode_header (demo_auth_ext 100)"
  "jwt_decode_token demo_write_ext = jwt_decode_token (demo_auth_ext 100)"
  "validation_new demo_write_ext = validation_new (demo_auth_ext 100)"
  "jwt_decode_proof demo_write_ext = (\<lambda>_ _ _. Inr demo_write_claims)"
  by (simp_all add: demo_write_ext_def)

lemma demo_write_ext_laws: "subtle_decides_eq demo_write_ext" "sha256_len32 demo_write_ext"
  using demo_auth_ext_laws [of 100] by (simp_all add: subtle_decides_eq_def sha256_len32_def)

lemma demo_write_extract:
  "extract_token (demo_write_request\<lparr>ext_effective_address := e\<rparr>) = Inr ''tok''" "extract_proof demo_write_request = Inr ''prf''"
proof -
  have "trim ''tok'' = ''tok''" "trim ''prf'' = ''prf''" by (rule trim_visible, simp)+
  then show "extract_token (demo_write_request\<lparr>ext_effective_address := e\<rparr>) = Inr ''tok''"
      "extract_proof demo_write_request = Inr ''prf''"
    by (simp_all add: extract_token_def extract_proof_def demo_write_request_def header_str_def eq_ignore_ascii_case_def)
qed

lemma demo_write_uri:
  "ea_scheme e = SchemeHttp \<Longrightarrow> build_effective_uri demo_write_ext (demo_write_request\<lparr>ext_effective_address := Some e\<rparr>) =
     Inr (demo_url (''http://h'' @ demo_block_url))"
  by (simp add: build_effective_uri_def demo_write_request_def header_str_def demo_auth_ext_def demo_token_ext_def)

lemma demo_write_token_fits:
  "token_fits demo_write_ext (Some 100) demo_write_context (demo_claims demo_jkt) (demo_token demo_jkt)"
  using demo_token_fits [OF demo_jkt_length]
  by (simp add: token_fits_def Let_def demo_auth_ext_def demo_token_ext_def demo_write_context_def demo_wide_config_def
      demo_context_def)

lemma demo_write_token:
  assumes "h vault_addr = Some demo_write_context"
  shows "validate_token demo_write_ext E (Some 100) h vault_addr demo_write_context ''tok'' = Returns (Inr (demo_token demo_jkt), h)"
proof -
  have "check_token_claims demo_write_ext (Some 100) demo_write_context (demo_claims demo_jkt) = Inr (demo_token demo_jkt)"
    using check_token_claims_iff [OF demo_write_ext_laws(1)] demo_write_token_fits by blast
  then show ?thesis
    using assms
    by (simp add: validate_token_def Let_def demo_auth_ext_def demo_token_ext_def allowlist_alg_def
        try_decode_with_current_jwks_def demo_write_context_def demo_context_def demo_candidates)
qed

lemma demo_write_check:
  "check_proof demo_write_ext (Some 100) demo_write_context ''prf'' ''PUT'' (demo_url (''http://h'' @ demo_block_url))
     (demo_token demo_jkt) ''tok'' = Inr demo_write_proof"
proof -
  let ?hd = "\<lparr>hdr_typ = Some ''dpop+jwt'', hdr_alg = ALG_PS256, hdr_kid = None, hdr_jwk = Some (demo_rsa_key ''p'' [5])\<rparr>"
  have tp: "compute_jwk_thumbprint demo_write_ext (demo_rsa_key ''p'' [5]) = Inr demo_jkt"
    using demo_proof_thumbprint [of 100]
    by (simp add: compute_jwk_thumbprint_def jwk_thumbprint_def canonical_json_def demo_rsa_key_def)
  have w: "iat_in_window demo_wide_config 100 100"
    by (simp add: iat_in_window_def auth_config_default_def saturating_sub_def demo_wide_config_def)
  have "proof_fits demo_write_ext (Some 100) demo_write_context ''prf'' ''PUT'' (demo_url (''http://h'' @ demo_block_url))
      (demo_token demo_jkt) ''tok'' demo_write_proof"
    unfolding proof_fits_def
    by (rule exI [of _ ?hd], rule exI [of _ "demo_rsa_key ''p'' [5]"], rule exI [of _ "()"],
        rule exI [of _ demo_write_claims], rule exI [of _ "demo_url (''http://h'' @ demo_block_url)"])
      (simp add: demo_write_proof_def demo_write_claims_def demo_proof_def demo_proof_claims_def tp w
        demo_token_def url_match_def compute_ath_def demo_write_context_def,
       simp add: demo_auth_ext_def demo_token_ext_def demo_url_def to_jwt_algorithm_def)
  then show ?thesis
    using check_proof_iff [OF demo_write_ext_laws] by (simp add: demo_token_def demo_jkt_length)
qed

lemma extract_proof_ext: "extract_proof (r\<lparr>ext_effective_address := e\<rparr>) = extract_proof r"
  by (simp add: extract_proof_def header_str_def)

definition demo_write_store :: jti_replay_store where
  "demo_write_store = snd (try_insert (replay_store_new demo_wide_config) demo_key (151 * nanos_per_sec))"

lemma demo_write_inserts:
  "try_insert (replay_store_new demo_wide_config) demo_key (151 * nanos_per_sec) = (Inr (), demo_write_store)"
  "try_insert demo_write_store demo_key (151 * nanos_per_sec) = (Inl Replayed, demo_write_store)"
  by (simp_all add: demo_write_store_def try_insert_def try_insert_entries_def try_insert_push_def replay_store_new_def
      demo_wide_config_def auth_config_default_def heap_push_def)

lemma demo_write_authenticate:
  assumes "h vault_addr = Some demo_write_context" and "ea_scheme e = SchemeHttp"
    and "try_insert st demo_key (151 * nanos_per_sec) = (q, st')" and "q \<noteq> Inl MemoryPressure"
  shows "authenticate_common demo_write_ext demo_auth_env vault_addr demo_write_context
     (demo_write_request\<lparr>ext_effective_address := Some e\<rparr>) h st =
   Returns (if q = Inr () then Inr ''u'' else Inl ProofReplayed, h, st')"
proof -
  have k: "jti_key_new demo_write_ext (as_jti_key_byte (ctx_tag demo_write_context)) (dp_jti demo_write_proof) = demo_key"
    by (simp add: jti_key_new_def demo_write_context_def demo_context_def as_jti_key_byte_def demo_auth_ext_def
        demo_token_ext_def demo_key_def demo_write_proof_def demo_proof_def)
  have t: "instant_checked_add 0 (jti_replay_window_secs (ctx_auth_config demo_write_context)) = Some (151 * nanos_per_sec)"
    by (simp add: instant_checked_add_def demo_write_context_def demo_wide_config_def nanos_per_sec_def)
  have m: "req_method (demo_write_request\<lparr>ext_effective_address := Some e\<rparr>) = ''PUT''"
    by (simp add: demo_write_request_def demo_block_request_def)
  have "validate_proof demo_write_ext (Some 100) 0 demo_write_context st ''prf'' ''PUT'' (demo_url (''http://h'' @ demo_block_url))
      (demo_token demo_jkt) ''tok'' = (if q = Inr () then Inr demo_write_proof else Inl ProofReplayed, st')"
    using assms(3,4) demo_write_check k t
    by (auto simp: validate_proof_def split: sum.splits insert_error.splits)
  moreover have "at_sub (demo_token demo_jkt) = ''u''" by (simp add: demo_token_def)
  ultimately show ?thesis
    by (simp add: authenticate_common_def demo_write_extract extract_proof_ext demo_write_uri [OF assms(2)]
        demo_write_token [of h, OF assms(1)] demo_auth_env_def m)
qed

lemma demo_write_effective:
  "\<exists>e. request_effective_address (\<lambda>_ _. False) (trusted_proxies (bd_config demo_write_boot)) demo_write_request = e \<and>
     ea_scheme e = SchemeHttp"
  by (simp add: request_effective_address_def resolve_effective_address_def Let_def demo_write_boot_def demo_server_config_def)

lemma demo_write_handled:
  "\<exists>log fs'. handle_block demo_to_bytes (local_ops ''/srv'' calm_put None) 3
     (demo_write_request\<lparr>ext_effective_address := e, ext_vault_subject := Some (vault_subject_new ''u'')\<rparr>) demo_fs =
     (respond_block_204, log, fs')"
proof -
  let ?r = "demo_write_request\<lparr>ext_effective_address := e, ext_vault_subject := Some (vault_subject_new ''u'')\<rparr>"
  have same: "request_block_id ?r = request_block_id (demo_block_request ''PUT'' [1, 2, 3])"
    "req_method ?r = req_method (demo_block_request ''PUT'' [1, 2, 3])" "req_body ?r = req_body (demo_block_request ''PUT'' [1, 2, 3])"
    "content_length ?r = content_length (demo_block_request ''PUT'' [1, 2, 3])"
    by (simp_all add: request_block_id_def demo_write_request_def demo_block_request_def content_length_def header_str_def)
  have p: "put_accepts Some 3 ?r b = put_accepts Some 3 (demo_block_request ''PUT'' [1, 2, 3]) b" for b
    by (simp add: put_accepts_def same)
  obtain resp log fs' where h: "handle_block demo_to_bytes (local_ops ''/srv'' calm_put None) 3
      (demo_block_request ''PUT'' [1, 2, 3]) demo_fs = (resp, log, fs')" by (metis prod_cases3)
  have "resp = respond_block_204" using demo_put_run h by simp
  with h show ?thesis
    by (auto simp: handle_block_dispatch(2) [OF demo_block_request_id] handle_block_dispatch(2) [of ?r demo_id]
        same demo_block_request_id handle_put_eq [OF demo_to_bytes_documented] p
        split: option.splits if_splits prod.splits sum.splits storage_error.splits)
qed

abbreviation demo_perform :: "fs server_state \<Rightarrow> (response option \<times> fs server_state) outcome" where
  "demo_perform \<equiv> perform demo_write_ext demo_block_web (\<lambda>_ _. False) demo_write_boot demo_write"

lemma demo_perform_guard:
  assumes "request_effective_address (\<lambda>_ _. False) (trusted_proxies (bd_config demo_write_boot)) demo_write_request = e"
  shows "demo_perform s = bind_outcome
     (vault_guard_call block_methods demo_write_ext demo_auth_env vault_addr demo_write_context
       (block_service demo_block_web (local_ops ''/srv'' calm_put None) 3)
       (demo_write_request\<lparr>ext_effective_address := Some e\<rparr>) s) (\<lambda>(resp, _, s'). Returns (Some resp, s'))"
proof -
  have "bd_contexts demo_write_boot vault_addr = Some demo_write_context" "bd_storage demo_write_boot = Some ''/srv''"
    "block_size_bytes (bd_config demo_write_boot) = 3" "web_route demo_block_web = (\<lambda>_ _. Some ''/api/blocks/{id}'')"
    by (simp_all add: demo_write_boot_def demo_server_config_def demo_block_web_def)
  then show ?thesis
    by (simp add: perform_def demo_write_def server_router_def build_router_def proxy_middleware_def assms dispatch_def
        router_routes_def vault_routes_def whoami_routes_def block_routes_def)
qed

lemma demo_write_state:
  "ss_contexts (booted_state demo_write_boot demo_fs) vault_addr = Some demo_write_context"
  "ss_replay (booted_state demo_write_boot demo_fs) = replay_store_new demo_wide_config"
  "ss_fs (booted_state demo_write_boot demo_fs) = demo_fs"
  by (simp_all add: booted_state_def demo_write_boot_def)

lemma demo_write_method: "req_method (demo_write_request\<lparr>ext_effective_address := e\<rparr>) \<in> set block_methods"
  by (simp add: demo_write_request_def demo_block_request_def block_methods_def)

lemma demo_block_web_to_bytes: "web_to_bytes demo_block_web = demo_to_bytes"
  by (simp add: demo_block_web_def)

lemma demo_write_first:
  "\<exists>s1. demo_perform (booted_state demo_write_boot demo_fs) = Returns (Some respond_block_204, s1) \<and>
     ss_contexts s1 vault_addr = Some demo_write_context \<and> ss_replay s1 = demo_write_store"
proof -
  let ?s = "booted_state demo_write_boot demo_fs"
  obtain e where e: "request_effective_address (\<lambda>_ _. False) (trusted_proxies (bd_config demo_write_boot)) demo_write_request = e"
    "ea_scheme e = SchemeHttp" using demo_write_effective by blast
  obtain log fs' where h: "handle_block demo_to_bytes (local_ops ''/srv'' calm_put None) 3
      (demo_write_request\<lparr>ext_effective_address := Some e, ext_vault_subject := Some (vault_subject_new ''u'')\<rparr>) demo_fs =
      (respond_block_204, log, fs')" using demo_write_handled by blast
  have "authenticate_common demo_write_ext demo_auth_env vault_addr demo_write_context
     (demo_write_request\<lparr>ext_effective_address := Some e\<rparr>) (ss_contexts ?s) (ss_replay ?s) =
     Returns (Inr ''u'', ss_contexts ?s, demo_write_store)"
    using demo_write_authenticate [of "ss_contexts ?s", OF demo_write_state(1) e(2) demo_write_inserts(1)] by (simp add: demo_write_state(2))
  then show ?thesis
    using demo_write_method [of "Some e"] h demo_write_state(1)
    by (simp add: demo_perform_guard [OF e(1)] vault_guard_call_def guard_call_def block_service_def demo_write_state(3)
        demo_block_web_to_bytes)
qed

lemma demo_write_second:
  assumes "ss_contexts s1 vault_addr = Some demo_write_context" and "ss_replay s1 = demo_write_store"
  shows "\<exists>resp s2. demo_perform s1 = Returns (Some resp, s2)"
proof -
  obtain e where e: "request_effective_address (\<lambda>_ _. False) (trusted_proxies (bd_config demo_write_boot)) demo_write_request = e"
    "ea_scheme e = SchemeHttp" using demo_write_effective by blast
  have "authenticate_common demo_write_ext demo_auth_env vault_addr demo_write_context
     (demo_write_request\<lparr>ext_effective_address := Some e\<rparr>) (ss_contexts s1) (ss_replay s1) =
     Returns (Inl ProofReplayed, ss_contexts s1, demo_write_store)"
    using demo_write_authenticate [of "ss_contexts s1", OF assms(1) e(2) demo_write_inserts(2)] by (simp add: assms(2))
  then show ?thesis
    using demo_write_method [of "Some e"]
    by (simp add: demo_perform_guard [OF e(1)] vault_guard_call_def guard_call_def Let_def)
qed

lemma demo_write_run:
  "\<exists>resp s1 s2. server_run demo_write_ext demo_block_web (\<lambda>_ _. False) demo_write_boot (booted_state demo_write_boot demo_fs)
       [(demo_write, Some respond_block_204)] s1 \<and>
     server_run demo_write_ext demo_block_web (\<lambda>_ _. False) demo_write_boot (booted_state demo_write_boot demo_fs)
       [(demo_write, Some respond_block_204), (demo_write, Some resp)] s2"
proof -
  have ok: "action_ok demo_write_ext demo_write"
    by (simp add: action_ok_def demo_write_def env_fine_def env_keeps_def demo_auth_env_def demo_refresh_env_def calm_put_ok)
  obtain s1 where s1: "demo_perform (booted_state demo_write_boot demo_fs) = Returns (Some respond_block_204, s1)"
    "ss_contexts s1 vault_addr = Some demo_write_context" "ss_replay s1 = demo_write_store" using demo_write_first by blast
  obtain resp s2 where s2: "demo_perform s1 = Returns (Some resp, s2)" using demo_write_second [OF s1(2,3)] by blast
  show ?thesis
    using ok s1(1) s2 by (intro exI [of _ resp] exI [of _ s1] exI [of _ s2]) (auto intro!: server_run.intros)
qed

lemma demo_write_ok: "server_ok demo_write_ext demo_write_boot (booted_state demo_write_boot demo_fs)"
proof -
  let ?h = "bd_contexts demo_write_boot"
  have t: "crypto_ext.truncate demo_write_ext = demo_crypto"
    by (simp add: demo_write_ext_def demo_auth_ext_def demo_token_ext_def demo_ext_def crypto_ext.defs demo_crypto_def)
  have "contexts_ok demo_crypto ?h"
    using demo_jwks_disjoint by (simp add: contexts_ok_def demo_write_boot_def demo_write_context_def demo_context_def demo_jwks_wf)
  then have "contexts_ok demo_write_ext ?h" using contexts_ok_truncate [of demo_write_ext ?h] t by simp
  moreover have "contexts_https ?h"
    by (auto simp: contexts_https_def demo_write_boot_def demo_write_context_def demo_context_def demo_url_def split: if_splits)
  ultimately show ?thesis
    using demo_fs_ok replay_inv_new [of demo_wide_config]
    by (simp add: server_ok_def contexts_fine_def booted_state_def demo_write_boot_def replay_store_new_def)
qed

subsection \<open>Properties\<close>

text \<open>
  Every state that a started server can reach is in order. From a successful start-up on a storage
  root in order, after any sequence of requests, key and discovery refreshes and clean-ups: both
  contexts have non-empty well-formed key sets without a common key, fetched from https addresses; the
  replay store's two structures agree and do not exceed the configured number of entries; and no file or
  directory stands where a block or a shard belongs, with every stored block synced.
\<close>

theorem reachable_states_ok:
  assumes "bootstrap X B s = Returns (Inr b, log, s')" and "probe_env_ok (be_probe B)"
    and "\<And>root. bd_storage b = Some root \<Longrightarrow> local_ok root s"
    and "to_bytes_documented (web_to_bytes W) body_data"
    and "server_run X W nc b (booted_state b s') tr S"
  shows "contexts_ok X (ss_contexts S) \<and> contexts_https (ss_contexts S) \<and> replay_inv (ss_replay S) \<and>
    store_len (ss_replay S) \<le> unat (max_replay_entries (auth (bd_config b))) \<and>
    (\<forall>root. bd_storage b = Some root \<longrightarrow> local_ok root (ss_fs S))"
  using server_run_ok [OF assms(5) bootstrap_server_ok [OF assms(1-3)] assms(4)]
  by (auto simp: server_ok_def contexts_fine_def replay_inv_def store_len_def)

text \<open>Witness: the start-up of the previous theory and a clean-up.\<close>

lemma demo_disk_ok: "local_ok ''/data'' demo_disk"
  unfolding local_ok_def
proof (intro allI impI conjI ballI)
  fix i assume "block_id_ok i"
  then have "length (block_path ''/data'' i) \<noteq> length ''/data''" using block_path_long by simp
  then show "fs_dirs demo_disk (block_path ''/data'' i) = None" by (auto simp: demo_disk_def)
qed (simp_all add: demo_disk_def)

theorem reachable_states_ok_witness:
  "\<exists>(b :: unit booted) s' S. server_run demo_init_ext demo_block_web (\<lambda>_ _. False) b (booted_state b s') [(CleanUp 5, None)] S \<and>
     contexts_ok demo_init_ext (ss_contexts S) \<and> local_ok ''/data'' (ss_fs S)"
proof -
  obtain b log s' where b: "bootstrap demo_init_ext demo_boot demo_disk = Returns (Inr b, log, s')" "bd_storage b = Some ''/data''"
    using demo_boot_run by fastforce
  have p: "probe_env_ok (be_probe demo_boot)" by (simp add: probe_env_ok_def demo_boot_def calm_probe_def)
  have w: "to_bytes_documented (web_to_bytes demo_block_web) Some" using demo_to_bytes_documented by (simp add: demo_block_web_def)
  have d: "local_ok root demo_disk" if "bd_storage b = Some root" for root using that b(2) demo_disk_ok by simp
  obtain S where run: "server_run demo_init_ext demo_block_web (\<lambda>_ _. False) b (booted_state b s') [(CleanUp 5, None)] S"
    by (auto simp: server_run_cons_iff server_run_nil_iff perform_def action_ok_def)
  have "contexts_ok demo_init_ext (ss_contexts S)" "local_ok ''/data'' (ss_fs S)"
    using reachable_states_ok [OF b(1) p d w run] b(2) by simp_all
  with run show ?thesis by blast
qed

text \<open>
  C8. The server refines a map from block identifiers to payloads. Over any run, the stored blocks
  are what the requests and the responses that the clients saw say: each \<open>PUT\<close> answered 204 set its block to
  its body, each \<open>DELETE\<close> answered 204 removed its block, and nothing else (no other response, no
  refresh, no clean-up, no failed request) changed anything. And whoever got a 204 was authenticated by the
  vault context.
\<close>

theorem server_refines_block_map:
  assumes "server_run X W nc b s tr s'" and "server_ok X b s" and "bd_storage b = Some root"
    and "to_bytes_documented (web_to_bytes W) body_data" and "subtle_decides_eq X" and "sha256_len32 X"
  shows "fs_view root (ss_fs s') = fold (block_effect body_data) tr (fs_view root (ss_fs s)) \<and>
    (\<forall>A E g r resp. (HandleRequest A E g r, Some resp) \<in> set tr \<longrightarrow> resp_status resp = 204 \<longrightarrow>
       (\<exists>ctx keys sub. bd_contexts b vault_addr = Some ctx \<and> authenticated X A ctx keys
          (r\<lparr>ext_effective_address := Some (request_effective_address nc (trusted_proxies (bd_config b)) r)\<rparr>) sub))"
proof
  show "fs_view root (ss_fs s') = fold (block_effect body_data) tr (fs_view root (ss_fs s))"
    by (rule server_run_effect [OF assms(1-4)])
  show "\<forall>A E g r resp. (HandleRequest A E g r, Some resp) \<in> set tr \<longrightarrow> resp_status resp = 204 \<longrightarrow>
       (\<exists>ctx keys sub. bd_contexts b vault_addr = Some ctx \<and> authenticated X A ctx keys
          (r\<lparr>ext_effective_address := Some (request_effective_address nc (trusted_proxies (bd_config b)) r)\<rparr>) sub)"
  proof (intro allI impI)
    fix A E g r resp
    assume i: "(HandleRequest A E g r, Some resp) \<in> set tr" and code: "resp_status resp = 204"
    obtain s1 s2 where "perform X W nc b (HandleRequest A E g r) s1 = Returns (Some resp, s2)"
      using assms(1) split_list [OF i] by (auto simp: server_run_append server_run_cons_iff)
    then obtain log where r: "server_router X W nc b A E g r s1 = Returns (resp, log, s2)"
      by (auto simp: perform_def bind_outcome_def split: outcome.splits)
    from r refl show "\<exists>ctx keys sub. bd_contexts b vault_addr = Some ctx \<and> authenticated X A ctx keys
          (r\<lparr>ext_effective_address := Some (request_effective_address nc (trusted_proxies (bd_config b)) r)\<rparr>) sub"
      by (cases rule: server_router_cases) (use code authenticate_common_Inr [OF assms(5,6)] in blast)+
  qed
qed

text \<open>Witness: the block of the example is stored after the answer 204.\<close>

theorem server_refines_block_map_witness:
  "\<exists>s1. server_run demo_write_ext demo_block_web (\<lambda>_ _. False) demo_write_boot (booted_state demo_write_boot demo_fs)
       [(demo_write, Some respond_block_204)] s1 \<and> fs_view ''/srv'' (ss_fs s1) demo_id = Some [1, 2, 3]"
proof -
  obtain s1 where run: "server_run demo_write_ext demo_block_web (\<lambda>_ _. False) demo_write_boot
      (booted_state demo_write_boot demo_fs) [(demo_write, Some respond_block_204)] s1"
    using demo_write_run by blast
  have w: "to_bytes_documented (web_to_bytes demo_block_web) Some" using demo_to_bytes_documented by (simp add: demo_block_web_def)
  have st: "bd_storage demo_write_boot = Some ''/srv''" by (simp add: demo_write_boot_def)
  have r: "request_block_id demo_write_request = Some demo_id" "req_method demo_write_request = ''PUT''"
    "req_body demo_write_request = [1, 2, 3]"
    using demo_block_request_id [of "''PUT''" "[1, 2, 3]"]
    by (simp_all add: demo_write_request_def request_block_id_def demo_block_request_def)
  show ?thesis
    using server_refines_block_map [OF run demo_write_ok st w demo_write_ext_laws] run
    by (intro exI [of _ s1]) (simp add: block_effect_def demo_write_def request_effect_def r respond_block_204_def)
qed

lemma action_ticks_CleanUp: "now \<in> action_ticks act \<longleftrightarrow> act = CleanUp now"
  by (auto simp: action_ticks_def split: action.splits)

text \<open>A request that was answered with 204 has had its proof accepted.\<close>

lemma accepted_204:
  assumes "perform X W nc b (HandleRequest A E g r) t = Returns (Some resp, t')"
    and "bd_contexts b vault_addr = Some ctx" and "extract_proof r = Inr raw_proof" and "resp_status resp = 204"
  shows "\<exists>m u at raw p. validate_proof X (ae_proof_clock A) (ae_instant A) ctx (ss_replay t) raw_proof m u at raw =
    (Inr p, ss_replay t')"
proof -
  let ?r = "r\<lparr>ext_effective_address := Some (request_effective_address nc (trusted_proxies (bd_config b)) r)\<rparr>"
  obtain log where "server_router X W nc b A E g r t = Returns (resp, log, t')"
    using assms(1) by (auto simp: perform_def bind_outcome_def split: outcome.splits)
  then obtain sub h' where
    "authenticate_common X A vault_addr ctx ?r (ss_contexts t) (ss_replay t) = Returns (Inr sub, h', ss_replay t')"
    by (rule server_router_cases [OF _ refl]) (use assms(2,4) in auto)
  then obtain raw_token rp uri at p where v: "extract_proof ?r = Inr rp"
      "validate_proof X (ae_proof_clock A) (ae_instant A) ctx (ss_replay t) rp (req_method ?r) uri at raw_token = (Inr p, ss_replay t')"
    by (rule authenticate_common_parts)
  have "rp = raw_proof" using v(1) assms(3) by (simp add: extract_proof_ext)
  with v(2) show ?thesis by blast
qed

text \<open>
  C9. No write is executed twice on one proof. With a replay window of at least the freshness, twice the
  clock skew and one second: once a \<open>PUT\<close> or \<open>DELETE\<close> was answered with 204, a later request with
  the same DPoP proof is never answered with 204, whatever its method, path, token and body and
  whatever requests, refreshes and clean-ups lie in between.
\<close>

theorem no_write_replayed:
  assumes run: "server_run X W nc b s ((HandleRequest A1 E1 g1 r1, Some resp1) # tr @ [(HandleRequest A2 E2 g2 r2, Some resp2)]) s'"
    and ok: "server_ok X b s" and web: "to_bytes_documented (web_to_bytes W) body_data"
    and ctx: "bd_contexts b vault_addr = Some ctx" and cfg: "auth_config_ok (ctx_auth_config ctx)"
    and window: "unat (dpop_freshness_secs (ctx_auth_config ctx)) + 2 * unat (clock_skew_secs (ctx_auth_config ctx)) + 1 \<le>
      unat (jti_replay_window_secs (ctx_auth_config ctx))"
    and payload: "extract_proof r1 = Inr raw_proof" "extract_proof r2 = Inr raw_proof" "proof_decodes_payload X raw_proof"
    and clocks: "clocks_agree off (ae_proof_clock A1) (ae_instant A1)" "clocks_agree off (ae_proof_clock A2) (ae_instant A2)"
    and ticks: "\<And>now resp. (CleanUp now, resp) \<in> set tr \<Longrightarrow> now \<le> ae_instant A2"
    and first: "resp_status resp1 = 204"
  shows "resp_status resp2 \<noteq> 204"
proof
  assume second: "resp_status resp2 = 204"
  obtain s1 s2 where p1: "perform X W nc b (HandleRequest A1 E1 g1 r1) s = Returns (Some resp1, s1)"
      "action_ok X (HandleRequest A1 E1 g1 r1)"
    and mid: "server_run X W nc b s1 tr s2"
    and p2: "perform X W nc b (HandleRequest A2 E2 g2 r2) s2 = Returns (Some resp2, s')"
    using run by (auto simp: server_run_append server_run_cons_iff server_run_nil_iff)
  obtain w1 w2 where w: "ae_proof_clock A1 = Some w1" "ae_proof_clock A2 = Some w2"
    using clocks by (auto simp: clocks_agree_def)
  obtain m u at raw p where v1: "validate_proof X (Some w1) (ae_instant A1) ctx (ss_replay s) raw_proof m u at raw =
      (Inr p, ss_replay s1)"
    using accepted_204 [OF p1(1) ctx payload(1) first] w(1) by auto
  obtain m' u' at' raw' p' where v2: "validate_proof X (Some w2) (ae_instant A2) ctx (ss_replay s2) raw_proof m' u' at' raw' =
      (Inr p', ss_replay s')"
    using accepted_204 [OF p2 ctx payload(2) second] w(2) by auto
  have ok1: "server_ok X b s1" by (rule perform_ok [OF p1(1) ok p1(2) web])
  obtain ops where ops: "ss_replay s2 = fold run_op ops (ss_replay s1)"
      "\<forall>now. OpTick now \<in> set ops \<longrightarrow> (\<exists>x \<in> set tr. now \<in> action_ticks (fst x))"
    using server_run_replay [OF mid ok1 web] by blast
  have late: "now \<le> ae_instant A2" if "OpTick now \<in> set ops" for now
    using ops(2) [rule_format, OF that] ticks action_ticks_CleanUp by (metis prod.collapse)
  have "replay_inv (ss_replay s)" using ok by (simp add: server_ok_def)
  from proof_refused_again [OF cfg window payload(3) this clocks [unfolded w] v1 late v2 [unfolded ops(1)]]
  show False by simp
qed

text \<open>Witness: the example's request, sent twice.\<close>

theorem no_write_replayed_witness:
  "\<exists>resp s2. server_run demo_write_ext demo_block_web (\<lambda>_ _. False) demo_write_boot (booted_state demo_write_boot demo_fs)
       [(demo_write, Some respond_block_204), (demo_write, Some resp)] s2 \<and> resp_status resp \<noteq> 204"
proof -
  obtain resp s2 where run: "server_run demo_write_ext demo_block_web (\<lambda>_ _. False) demo_write_boot
      (booted_state demo_write_boot demo_fs) [(demo_write, Some respond_block_204), (demo_write, Some resp)] s2"
    using demo_write_run by blast
  then have run': "server_run demo_write_ext demo_block_web (\<lambda>_ _. False) demo_write_boot
      (booted_state demo_write_boot demo_fs)
      ((HandleRequest demo_auth_env calm_put None demo_write_request, Some respond_block_204) # [] @
       [(HandleRequest demo_auth_env calm_put None demo_write_request, Some resp)]) s2"
    by (simp add: demo_write_def)
  have w: "to_bytes_documented (web_to_bytes demo_block_web) Some" using demo_to_bytes_documented by (simp add: demo_block_web_def)
  have c: "bd_contexts demo_write_boot vault_addr = Some demo_write_context" by (simp add: demo_write_boot_def)
  have cfg: "auth_config_ok (ctx_auth_config demo_write_context)"
    and win: "unat (dpop_freshness_secs (ctx_auth_config demo_write_context)) +
      2 * unat (clock_skew_secs (ctx_auth_config demo_write_context)) + 1
      \<le> unat (jti_replay_window_secs (ctx_auth_config demo_write_context))"
    by (simp_all add: demo_write_context_def demo_wide_config_def auth_config_ok_def auth_config_default_def)
  have pay: "proof_decodes_payload demo_write_ext ''prf''" by (simp add: proof_decodes_payload_def)
  have clk: "clocks_agree (100 * nanos_per_sec) (ae_proof_clock demo_auth_env) (ae_instant demo_auth_env)"
    by (simp add: clocks_agree_def demo_auth_env_def nanos_per_sec_def)
  have "resp_status respond_block_204 = 204" by (simp add: respond_block_204_def)
  from no_write_replayed [OF run' demo_write_ok w c cfg win demo_write_extract(2) demo_write_extract(2) pay clk clk _ this] run
  show ?thesis by auto
qed

end
