(* ===== verification/Replay_Interleaving.thy ===== *)
theory Replay_Interleaving
  imports Replay
begin

section \<open>Interleaved replay-store operations (auth/replay.rs)\<close>

text \<open>
  The two locks are taken one at a time, so between them other threads run. A system state is the
  store together with the insertions that have updated the map but not yet pushed onto the heap,
  and the ticks that have drained the heap (at their \<open>now\<close>) but not yet removed from the map.
\<close>

declare map_of_eq_Some_iff [simp del]

record replay_sys =
  sys_store :: jti_replay_store
  sys_pushing :: "(instant \<times> jti_key) multiset"
  sys_removing :: "(instant \<times> jti_key list) multiset"

datatype store_label = LInsert jti_key instant "insert_error + unit" | LPush | LDrain instant | LRemove instant

inductive store_step :: "replay_sys \<Rightarrow> store_label \<Rightarrow> replay_sys \<Rightarrow> bool" where
  insert_entry: "try_insert_entries (sys_store c) k d = (Inr (), s) \<Longrightarrow>
    store_step c (LInsert k d (Inr ()))
      (c\<lparr>sys_store := s, sys_pushing := add_mset (d, k) (sys_pushing c)\<rparr>)"
| insert_refused: "try_insert_entries (sys_store c) k d = (Inl e, s) \<Longrightarrow>
    store_step c (LInsert k d (Inl e)) (c\<lparr>sys_store := s\<rparr>)"
| push_queue: "sys_pushing c = add_mset (d, k) P \<Longrightarrow>
    store_step c LPush (c\<lparr>sys_store := try_insert_push (sys_store c) k d, sys_pushing := P\<rparr>)"
| drain_queue: "tick_drain now (sys_store c) = (ks, s) \<Longrightarrow> ks \<noteq> [] \<Longrightarrow>
    store_step c (LDrain now)
      (c\<lparr>sys_store := s, sys_removing := add_mset (now, ks) (sys_removing c)\<rparr>)"
| drain_nothing: "tick_drain now (sys_store c) = ([], s) \<Longrightarrow>
    store_step c (LDrain now) (c\<lparr>sys_store := s\<rparr>)"
| remove_entries: "sys_removing c = add_mset (now, ks) R \<Longrightarrow>
    store_step c (LRemove now) (c\<lparr>sys_store := tick_remove ks (sys_store c), sys_removing := R\<rparr>)"

inductive_cases store_step_removeE: "store_step c (LRemove now) c'"

definition sys_init :: "auth_config \<Rightarrow> replay_sys" where
  "sys_init cfg = \<lparr>sys_store = replay_store_new cfg, sys_pushing = {#}, sys_removing = {#}\<rparr>"

inductive sys_reach :: "auth_config \<Rightarrow> replay_sys \<Rightarrow> bool" for cfg where
  reach_init: "sys_reach cfg (sys_init cfg)"
| reach_step: "sys_reach cfg c \<Longrightarrow> store_step c l c' \<Longrightarrow> sys_reach cfg c'"

text \<open>
  Every key of the map is in the custody of exactly one place: the heap, an insertion in
  progress, or a tick in progress; the first two know its deadline, the third has seen it pass.
\<close>

definition sys_custody :: "replay_sys \<Rightarrow> jti_key multiset" where
  "sys_custody c = image_mset snd (mset (rs_queue (sys_store c))) + image_mset snd (sys_pushing c)
     + sum_mset (image_mset (\<lambda>r. mset (snd r)) (sys_removing c))"

definition sys_inv :: "auth_config \<Rightarrow> replay_sys \<Rightarrow> bool" where
  "sys_inv cfg c \<longleftrightarrow> hm_wf (rs_entries (sys_store c)) \<and> sorted (rs_queue (sys_store c)) \<and>
     rs_config (sys_store c) = cfg \<and>
     rs_len (sys_store c) = length (rs_entries (sys_store c)) \<and>
     length (rs_entries (sys_store c)) \<le> unat (max_replay_entries cfg) \<and>
     image_mset fst (mset (rs_entries (sys_store c))) = sys_custody c \<and>
     (\<forall>d k. (d, k) \<in># mset (rs_queue (sys_store c)) + sys_pushing c \<longrightarrow>
        map_of (rs_entries (sys_store c)) k = Some d) \<and>
     (\<forall>now ks k. (now, ks) \<in># sys_removing c \<longrightarrow> k \<in> set ks \<longrightarrow>
        (\<exists>d. map_of (rs_entries (sys_store c)) k = Some d \<and> d \<le> now))"

lemma sys_inv_init: "sys_inv cfg (sys_init cfg)"
  by (simp add: sys_inv_def sys_init_def replay_store_new_def sys_custody_def)

lemma sys_inv_config: "sys_inv cfg c \<Longrightarrow> rs_config (sys_store c) = cfg"
  by (simp add: sys_inv_def)

lemma sys_inv_insert:
  assumes inv: "sys_inv cfg c" and ins: "try_insert_entries (sys_store c) k d = (Inr (), s)"
  shows "sys_inv cfg (c\<lparr>sys_store := s, sys_pushing := add_mset (d, k) (sys_pushing c)\<rparr>)"
proof -
  have new: "map_of (rs_entries (sys_store c)) k = None"
    and s: "s = (sys_store c)\<lparr>rs_entries := AList.update k d (rs_entries (sys_store c)),
        rs_len := Suc (length (rs_entries (sys_store c)))\<rparr>"
    and room: "length (rs_entries (sys_store c)) < unat (max_replay_entries cfg)"
    using ins sys_inv_config [OF inv]
    by (auto simp: try_insert_entries_def Let_def length_update_new split: if_splits)
  show ?thesis
    using inv new room
    by (auto simp: sys_inv_def s length_update_new mset_update_new sys_custody_def
        simp del: map_of_eq_Some_iff) fastforce
qed

lemma sys_inv_push:
  assumes inv: "sys_inv cfg c" and p: "sys_pushing c = add_mset (d, k) P"
  shows "sys_inv cfg (c\<lparr>sys_store := try_insert_push (sys_store c) k d, sys_pushing := P\<rparr>)"
proof -
  have "sorted (rs_queue (sys_store c))" using inv by (simp add: sys_inv_def)
  from rq.elems_push [OF this, of "(d, k)"] rq.invar_push [OF this, of "(d, k)"]
  show ?thesis using inv p
    by (auto simp: sys_inv_def try_insert_push_def sys_custody_def)
qed

lemma sys_inv_drain:
  assumes inv: "sys_inv cfg c" and t: "tick_drain now (sys_store c) = (ks, s)"
  shows "sys_inv cfg (c\<lparr>sys_store := s, sys_removing := add_mset (now, ks) (sys_removing c)\<rparr>)"
proof -
  have srt: "sorted (rs_queue (sys_store c))" using inv by (simp add: sys_inv_def)
  obtain q where q: "drain_expired now (rs_queue (sys_store c)) = (ks, q)"
    and s: "s = (sys_store c)\<lparr>rs_queue := q\<rparr>"
    using t by (auto simp: tick_drain_def split: prod.splits)
  let ?Q = "mset (rs_queue (sys_store c))"
  from rx.drain_spec [OF srt q] have d: "sorted q"
    "mset q = filter_mset (\<lambda>x. now < fst x) ?Q"
    "mset ks = image_mset snd (filter_mset (\<lambda>x. \<not> now < fst x) ?Q)"
    by (auto simp: not_less)
  have split_q: "image_mset snd ?Q = image_mset snd (mset q) + mset ks"
    unfolding d(2,3) by (simp flip: image_mset_union)
  have ks: "\<exists>d. (d, k) \<in># ?Q \<and> d \<le> now" if "k \<in> set ks" for k
  proof -
    from that have "k \<in># image_mset snd (filter_mset (\<lambda>x. \<not> now < fst x) ?Q)"
      by (simp flip: d(3))
    then show ?thesis by (auto simp: not_less)
  qed
  show ?thesis
    using inv d(1) ks
    by (auto simp: sys_inv_def s sys_custody_def split_q d(2) simp flip: set_mset_mset) blast+
qed


lemma distinct_keys_disjoint:
  assumes "hm_wf m" and "image_mset fst (mset m) = A + B" and "k \<in># A" and "k \<in># B"
  shows False
proof -
  have "count (A + B) k \<le> 1"
    using assms(1) unfolding assms(2) [symmetric] mset_map [symmetric] distinct_count_atmost_1
    by (metis le_numeral_extra(3) le_zero_eq nle_le zero_le_one)
  moreover have "count A k \<ge> 1" and "count B k \<ge> 1"
    using assms(3,4) by (simp_all add: Suc_leI count_greater_zero_iff)
  ultimately show False by simp
qed

lemma filter_notin_union:
  assumes "\<And>k. k \<in># A \<Longrightarrow> k \<notin> S" and "\<And>k. k \<in># B \<Longrightarrow> k \<in> S"
  shows "filter_mset (\<lambda>k. k \<notin> S) (A + B) = A"
proof -
  have "filter_mset (\<lambda>k. k \<notin> S) A = A" using assms(1) by (simp add: filter_mset_eq_conv)
  moreover have "filter_mset (\<lambda>k. k \<notin> S) B = {#}"
    using assms(2) by (auto simp: filter_mset_eq_mempty_iff)
  ultimately show ?thesis by simp
qed

lemma sys_inv_remove:
  assumes inv: "sys_inv cfg c" and r: "sys_removing c = add_mset (now, ks) R"
  shows "sys_inv cfg (c\<lparr>sys_store := tick_remove ks (sys_store c), sys_removing := R\<rparr>)"
proof -
  let ?m = "rs_entries (sys_store c)"
  let ?A = "image_mset snd (mset (rs_queue (sys_store c))) + image_mset snd (sys_pushing c)
    + sum_mset (image_mset (\<lambda>r. mset (snd r)) R)"
  let ?m' = "fold AList.delete ks ?m"
  have wf: "hm_wf ?m" and keys: "image_mset fst (mset ?m) = ?A + mset ks"
    using inv r by (auto simp: sys_inv_def sys_custody_def)
  have dis: "k \<notin> set ks" if "k \<in># ?A" for k
    using distinct_keys_disjoint [OF wf keys that] by auto
  have "image_mset fst (mset ?m') = filter_mset (\<lambda>k. k \<notin> set ks) (image_mset fst (mset ?m))"
    by (simp add: mset_fold_delete filter_mset_image_mset)
  also have "\<dots> = ?A"
    unfolding keys by (rule filter_notin_union) (use dis in auto)
  finally have keys': "image_mset fst (mset ?m') = ?A" .
  have keep: "map_of ?m' k = map_of ?m k" if "k \<in># ?A" for k
    using dis [OF that] by (simp add: map_of_fold_delete)
  have q: "k \<in># ?A" if "(d, k) \<in># mset (rs_queue (sys_store c)) + sys_pushing c" for d k
    using that by force
  have rem: "k \<in># ?A" if "(n, ls) \<in># R" "k \<in> set ls" for n ls k
    using that by (force simp: in_Union_mset_iff)
  have len: "length ?m' \<le> length ?m"
    using size_filter_mset_lesseq [of "\<lambda>x. fst x \<notin> set ks" "mset ?m"]
    by (simp flip: mset_fold_delete)
  show ?thesis
    using inv wf len keys' r q rem keep
    by (simp add: sys_inv_def tick_remove_def Let_def sys_custody_def hm_wf_fold_delete
        del: map_of_eq_Some_iff)
qed

lemma sys_inv_step: "store_step c l c' \<Longrightarrow> sys_inv cfg c \<Longrightarrow> sys_inv cfg c'"
proof (induction rule: store_step.induct)
  case (drain_nothing now c s)
  then have "sys_inv cfg (c\<lparr>sys_store := s, sys_removing := add_mset (now, []) (sys_removing c)\<rparr>)"
    by (intro sys_inv_drain)
  then show ?case by (simp add: sys_inv_def sys_custody_def)
next
  case (insert_refused c k d e s)
  then show ?case by (auto simp: try_insert_entries_def Let_def split: if_splits)
qed (auto intro: sys_inv_insert sys_inv_push sys_inv_drain sys_inv_remove)

lemma sys_reach_inv: "sys_reach cfg c \<Longrightarrow> sys_inv cfg c"
  by (induction rule: sys_reach.induct) (auto intro: sys_inv_init sys_inv_step)

text \<open>With no operation in progress, the interleaved invariant is the sequential one.\<close>

lemma sys_inv_quiescent:
  assumes "sys_inv cfg c" and "sys_pushing c = {#}" and "sys_removing c = {#}"
  shows "replay_inv (sys_store c)"
proof -
  let ?m = "rs_entries (sys_store c)" and ?q = "rs_queue (sys_store c)"
  have wf: "hm_wf ?m" and keys: "image_mset fst (mset ?m) = image_mset snd (mset ?q)"
    and val: "\<And>d k. (d, k) \<in># mset ?q \<Longrightarrow> map_of ?m k = Some d"
    using assms by (auto simp: sys_inv_def sys_custody_def)
  have "mset ?q = image_mset (\<lambda>k. (the (map_of ?m k), k)) (image_mset snd (mset ?q))"
    using val by (auto simp: multiset.map_comp comp_def intro!: multiset.map_ident_strong [symmetric])
  also have "\<dots> = image_mset (\<lambda>x. (the (map_of ?m (fst x)), fst x)) (mset ?m)"
    unfolding keys [symmetric] by (simp add: multiset.map_comp comp_def)
  also have "\<dots> = image_mset prod.swap (mset ?m)"
    using wf by (intro image_mset_cong) auto
  finally show ?thesis using assms(1) by (simp add: replay_inv_def sys_inv_def)
qed

subsection \<open>Executions\<close>

inductive sys_run :: "replay_sys \<Rightarrow> store_label list \<Rightarrow> replay_sys \<Rightarrow> bool" where
  run_nil: "sys_run c [] c"
| run_cons: "store_step c l c' \<Longrightarrow> sys_run c' ls c'' \<Longrightarrow> sys_run c (l # ls) c''"

inductive_simps sys_run_simps [simp]: "sys_run c [] c'" "sys_run c (l # ls) c'"

lemma store_step_insert_total: "\<exists>r c'. store_step c (LInsert k d r) c'"
proof -
  obtain r s where "try_insert_entries (sys_store c) k d = (r, s)" by force
  then show ?thesis
    by (cases r) (auto intro: store_step.insert_entry store_step.insert_refused)
qed

lemma entry_kept_step:
  assumes "sys_inv cfg c" and "store_step c l c'" and "map_of (rs_entries (sys_store c)) k = Some d"
    and "\<And>now. l = LRemove now \<Longrightarrow> now < d"
  shows "map_of (rs_entries (sys_store c')) k = Some d"
  using assms(2)
proof cases
  case (remove_entries now ks R)
  have "k \<notin> set ks"
    using assms(1,3,4) remove_entries by (fastforce simp: sys_inv_def)
  then show ?thesis using assms(3) remove_entries
    by (simp add: tick_remove_def Let_def map_of_fold_delete)
qed (use assms(3) in \<open>auto simp: step_defs Let_def split: if_splits prod.splits\<close>)

lemma entry_kept_run:
  "sys_run c ls c' \<Longrightarrow> sys_inv cfg c \<Longrightarrow> map_of (rs_entries (sys_store c)) k = Some d \<Longrightarrow>
   (\<And>now. LRemove now \<in> set ls \<Longrightarrow> now < d) \<Longrightarrow>
   sys_inv cfg c' \<and> map_of (rs_entries (sys_store c')) k = Some d"
proof (induction rule: sys_run.induct)
  case (run_cons c l c' ls c'')
  then have "map_of (rs_entries (sys_store c')) k = Some d"
    by (intro entry_kept_step [of cfg c l c']) auto
  with run_cons show ?case using sys_inv_step by auto
qed simp

lemma insert_step_cases:
  "store_step c (LInsert k d r) c' \<Longrightarrow> fst (try_insert_entries (sys_store c) k d) = r \<and>
     (r = Inr () \<longrightarrow> map_of (rs_entries (sys_store c')) k = Some d)"
  by (erule store_step.cases) (auto simp: try_insert_entries_def Let_def split: if_splits)

text \<open>
  Under any interleaving of insertions and clean-up ticks, a key whose insertion succeeded
  with deadline \<open>d\<close> is refused as replayed at every later insertion, as long as no tick that
  completed in between ran at a time that reached \<open>d\<close>: no in-window entry is ever evicted.
\<close>

theorem interleaved_replay_refused:
  assumes "sys_reach cfg c0" and "store_step c0 (LInsert k d (Inr ())) c1"
    and "sys_run c1 ls c2" and "\<And>now. LRemove now \<in> set ls \<Longrightarrow> now < d"
    and "store_step c2 (LInsert k d' r) c3"
  shows "r = Inl Replayed"
proof -
  have "sys_inv cfg c1" using assms(1,2) sys_reach_inv sys_inv_step by blast
  moreover have "map_of (rs_entries (sys_store c1)) k = Some d"
    using insert_step_cases [OF assms(2)] by simp
  ultimately have "map_of (rs_entries (sys_store c2)) k = Some d"
    using entry_kept_run [OF assms(3)] assms(4) by blast
  with insert_step_cases [OF assms(5)] show ?thesis
    by (auto simp: try_insert_entries_def)
qed

theorem interleaved_replay_refused_witness:
  "\<exists>c1 c2 c3. store_step (sys_init auth_config_default) (LInsert (JtiKey 1 []) 10 (Inr ())) c1 \<and>
     sys_run c1 [LPush, LDrain 5] c2 \<and> store_step c2 (LInsert (JtiKey 1 []) 20 (Inl Replayed)) c3"
proof -
  let ?k = "JtiKey 1 []" and ?c0 = "sys_init auth_config_default"
  obtain s1 where s1: "try_insert_entries (sys_store ?c0) ?k 10 = (Inr (), s1)"
    by (simp add: try_insert_entries_def sys_init_def replay_store_new_def auth_config_default_def)
  let ?c1 = "?c0\<lparr>sys_store := s1, sys_pushing := add_mset (10, ?k) (sys_pushing ?c0)\<rparr>"
  have step1: "store_step ?c0 (LInsert ?k 10 (Inr ())) ?c1"
    by (rule store_step.insert_entry [OF s1])
  have "sys_pushing ?c1 = add_mset (10, ?k) {#}" by (simp add: sys_init_def)
  from store_step.push_queue [OF this] obtain c2 where push: "store_step ?c1 LPush c2" by blast
  obtain ks s3 where "tick_drain 5 (sys_store c2) = (ks, s3)" by force
  then obtain c3 where drain: "store_step c2 (LDrain 5) c3"
    by (cases "ks = []") (auto intro: store_step.drain_queue store_step.drain_nothing)
  obtain r c4 where last: "store_step c3 (LInsert ?k 20 r) c4"
    using store_step_insert_total by blast
  have run: "sys_run ?c1 [LPush, LDrain 5] c3" using push drain by auto
  have "r = Inl Replayed"
    by (rule interleaved_replay_refused [OF sys_reach.reach_init step1 run _ last]) auto
  with step1 run last show ?thesis by blast
qed

text \<open>
  In every state that interleaved operations can reach, the map holds at most
  \<open>max_replay_entries\<close> entries and the published length is its size.
\<close>

theorem replay_store_bounded:
  assumes "sys_reach cfg c"
  shows "rs_len (sys_store c) = length (rs_entries (sys_store c)) \<and>
    length (rs_entries (sys_store c)) \<le> unat (max_replay_entries cfg)"
  using sys_reach_inv [OF assms] by (simp add: sys_inv_def)

theorem replay_store_bounded_witness:
  "rs_len (sys_store (sys_init auth_config_default)) =
     length (rs_entries (sys_store (sys_init auth_config_default))) \<and>
   length (rs_entries (sys_store (sys_init auth_config_default)))
     \<le> unat (max_replay_entries auth_config_default)"
  by (rule replay_store_bounded [OF sys_reach.reach_init])

end
