(* ===== verification/Put_Sequential.thy ===== *)
theory Put_Sequential
  imports Put_Interleaving
begin

section \<open>One put alone (storage/local_fs.rs)\<close>

text \<open>
  The code of \<open>run_put\<close> is modelled twice: as one function of the file system, and cut at its system
  calls for the interleavings. Here the two are tied together: every run of the function, with whatever faults,
  is a run of the cut model in which nobody else interferes.
\<close>

inductive call_step :: "string \<Rightarrow> block_id \<Rightarrow> bytes \<Rightarrow> put_pc \<times> fs \<Rightarrow> put_pc \<times> fs \<Rightarrow> bool" for root i b where
  call: "CHR ''/'' \<notin> set (ce_random C) \<Longrightarrow> put_call root i b C pc s = (pc', s') \<Longrightarrow> call_step root i b (pc, s) (pc', s')"

definition the_call :: "io_error option \<Rightarrow> call_env" where
  "the_call fault = \<lparr>ce_fault = fault, ce_random = [], ce_len = 0, ce_unlink = False\<rparr>"

text \<open>A fault happens at a call: before the last directory is there, before the last byte is written.\<close>

definition put_env_real :: "put_env \<Rightarrow> string \<Rightarrow> block_id \<Rightarrow> bytes \<Rightarrow> bool" where
  "put_env_real E root i b \<longleftrightarrow>
     (\<forall>k e. pe_mkdir E = Some (k, e) \<longrightarrow> k < length (path_prefixes [] (shard_dir root i))) \<and>
     (\<forall>k e. pe_write E = Some (k, e) \<longrightarrow> k < length b)"

lemma call_one:
  "put_call root i b (the_call fault) pc s = (pc', s') \<Longrightarrow> (call_step root i b)\<^sup>*\<^sup>* (pc, s) (pc', s')"
  by (rule r_into_rtranclp, rule call [of "the_call fault"]) (simp_all add: the_call_def)

lemma calls_dirs:
  assumes "\<forall>p \<in> set ps. fs_files s p = None"
  shows "(call_step root i b)\<^sup>*\<^sup>* (PcDirs (ps @ qs), s) (PcDirs qs, snd (mkdirs mode_0700 ps s))"
  using assms
proof (induction ps arbitrary: s)
  case (Cons p ps)
  let ?s = "if fs_dirs s p \<noteq> None then s else s\<lparr>fs_dirs := (fs_dirs s)(p \<mapsto> mode_0700)\<rparr>"
  have p: "fs_files s p = None" using Cons.prems by simp
  have "(call_step root i b)\<^sup>*\<^sup>* (PcDirs ((p # ps) @ qs), s) (PcDirs (ps @ qs), ?s)"
    by (rule call_one [of _ _ _ None]) (simp add: put_call_defs the_call_def p)
  moreover have "(call_step root i b)\<^sup>*\<^sup>* (PcDirs (ps @ qs), ?s) (PcDirs qs, snd (mkdirs mode_0700 ps ?s))"
    by (rule Cons.IH) (use Cons.prems in auto)
  moreover have "mkdirs mode_0700 (p # ps) s = mkdirs mode_0700 ps ?s" using p by simp
  ultimately show ?case by (metis rtranclp_trans)
qed simp

lemma calls_create_dir_all:
  assumes "\<forall>p \<in> set (path_prefixes [] (shard_dir root i)). fs_files s p = None"
    and "put_env_real E root i b" and "create_dir_all (pe_mkdir E) mode_0700 (shard_dir root i) s = (r, s')"
  shows "(call_step root i b)\<^sup>*\<^sup>* (PcDirs (path_prefixes [] (shard_dir root i)), s)
    (case r of Inl e \<Rightarrow> put_failed e | Inr _ \<Rightarrow> PcChmodTop, s')"
proof (cases "pe_mkdir E")
  case None
  have dirs: "(call_step root i b)\<^sup>*\<^sup>* (PcDirs (path_prefixes [] (shard_dir root i)), s)
      (PcDirs [], snd (mkdirs mode_0700 (path_prefixes [] (shard_dir root i)) s))"
    using calls_dirs [OF assms(1), of root i b "[]"] by simp
  have works: "fst (mkdirs mode_0700 ps t) = Inr ()" if "\<forall>p \<in> set ps. fs_files t p = None" for ps t
    using that by (induction mode_0700 ps t rule: mkdirs.induct) auto
  have m: "mkdirs mode_0700 (path_prefixes [] (shard_dir root i)) s = (r, s')"
    using assms(3) None by (simp add: create_dir_all_def)
  have "r = Inr ()" "s' = snd (mkdirs mode_0700 (path_prefixes [] (shard_dir root i)) s)"
    using works [OF assms(1)] by (simp_all add: m)
  moreover have "(call_step root i b)\<^sup>*\<^sup>* (PcDirs [], t) (PcChmodTop, t)" for t
    by (rule call_one [of _ _ _ None]) (simp add: put_call_defs)
  ultimately show ?thesis using dirs by (auto intro: rtranclp_trans)
next
  case (Some a)
  obtain k e where ke: "pe_mkdir E = Some (k, e)" using Some by (cases a) simp
  let ?ps = "path_prefixes [] (shard_dir root i)"
  have k: "k < length ?ps" using assms(2) ke by (simp add: put_env_real_def)
  have rs: "r = Inl e" "s' = snd (mkdirs mode_0700 (take k ?ps) s)" using assms(3) ke by (simp_all add: create_dir_all_def)
  have "\<forall>p \<in> set (take k ?ps). fs_files s p = None" using assms(1) in_set_takeD by fast
  from calls_dirs [OF this, of root i b "drop k ?ps"]
  have "(call_step root i b)\<^sup>*\<^sup>* (PcDirs ?ps, s) (PcDirs (drop k ?ps), s')" using rs(2) by simp
  moreover have "(call_step root i b)\<^sup>*\<^sup>* (PcDirs (drop k ?ps), s') (put_failed e, s')"
    using k by (intro call_one [of _ _ _ "Some e"]) (simp add: put_call_defs the_call_def flip: Cons_nth_drop_Suc)
  ultimately show ?thesis using rs(1) by (auto intro: rtranclp_trans)
qed

lemma calls_prepare:
  assumes "\<forall>p \<in> set (path_prefixes [] (shard_dir root i)). fs_files s p = None"
    and "put_env_real E root i b" and "put_prepare E root i s = (r, s')"
  shows "(call_step root i b)\<^sup>*\<^sup>* (PcDirs (path_prefixes [] (shard_dir root i)), s)
    (case r of Inl e \<Rightarrow> put_failed e | Inr _ \<Rightarrow> PcTemp, s')"
  using assms(3) unfolding put_prepare_def Let_def
proof (cases rule: io_bind_cases)
  case (fail e)
  then show ?thesis using calls_create_dir_all [OF assms(1,2) fail(1)] by simp
next
  case (step x s1)
  note dirs = calls_create_dir_all [OF assms(1,2) step(1)]
  show ?thesis
    using step(2)
  proof (cases rule: io_bind_cases)
    case (fail e)
    have "(call_step root i b)\<^sup>*\<^sup>* (PcChmodTop, s1) (put_failed e, s')"
      by (rule call_one [of _ _ _ "pe_chmod_top E"]) (simp add: put_call_defs the_call_def fail(1))
    then show ?thesis using dirs fail(2) by (auto intro: rtranclp_trans)
  next
    case (step y s2)
    have top: "(call_step root i b)\<^sup>*\<^sup>* (PcChmodTop, s1) (PcChmodShard, s2)"
      by (rule call_one [of _ _ _ "pe_chmod_top E"]) (simp add: put_call_defs the_call_def step(1))
    have shard: "(call_step root i b)\<^sup>*\<^sup>* (PcChmodShard, s2) (case r of Inl e \<Rightarrow> put_failed e | Inr _ \<Rightarrow> PcTemp, s')"
      by (rule call_one [of _ _ _ "pe_chmod_shard E"]) (simp add: put_call_defs the_call_def step(2) split: sum.splits)
    show ?thesis using dirs top shard by (auto intro: rtranclp_trans)
  qed
qed

text \<open>The payload goes in one piece; before a failing write, what has gone out goes in one piece.\<close>

lemma calls_write:
  assumes "fs_files s t = Some f" and "\<not> ff_synced f" and "put_env_real E root i b"
    and "write_all (pe_write E) t b s = (r, s')"
  shows "(call_step root i b)\<^sup>*\<^sup>* (PcWrite t b, s) (case r of Inl e \<Rightarrow> PcDrop t e | Inr _ \<Rightarrow> PcSync t, s')"
proof -
  have none: "write_all None t [] s = (Inr (), s)"
    using assms(1,2) by (cases s, cases f) (auto simp: write_all_def fun_eq_iff)
  have piece: "(call_step root i b)\<^sup>*\<^sup>* (PcWrite t rest, s) (PcWrite t (drop k rest), snd (write_all None t (take k rest) s))"
    for k rest
  proof (cases "k = 0 \<or> rest = []")
    case True
    then show ?thesis using none by auto
  next
    case False
    have "put_call root i b \<lparr>ce_fault = None, ce_random = [], ce_len = k, ce_unlink = False\<rparr> (PcWrite t rest) s =
        (PcWrite t (drop k rest), snd (write_all None t (take k rest) s))"
      using False by (cases rest) (auto simp: put_call_defs write_all_def max_def)
    then show ?thesis by (intro r_into_rtranclp call) auto
  qed
  show ?thesis
  proof (cases "pe_write E")
    case None
    have "(call_step root i b)\<^sup>*\<^sup>* (PcWrite t [], s') (PcSync t, s')"
      by (rule call_one [of _ _ _ None]) (simp add: put_call_defs)
    moreover have "(call_step root i b)\<^sup>*\<^sup>* (PcWrite t b, s) (PcWrite t [], s')"
      using piece [of b "length b"] assms(4) None by simp
    moreover have "r = Inr ()" using assms(4) None by (simp add: write_all_def)
    ultimately show ?thesis by (auto intro: rtranclp_trans)
  next
    case (Some a)
    obtain k e where ke: "pe_write E = Some (k, e)" using Some by (cases a) simp
    have k: "k < length b" using assms(3) ke by (simp add: put_env_real_def)
    have r: "r = Inl e" "s' = snd (write_all None t (take k b) s)" using assms(4) ke by (simp_all add: write_all_def)
    have "(call_step root i b)\<^sup>*\<^sup>* (PcWrite t (drop k b), s') (PcDrop t e, s')"
      using k by (intro call_one [of _ _ _ "Some e"]) (simp add: put_call_defs the_call_def flip: Cons_nth_drop_Suc)
    with piece [of b k] show ?thesis using r by (auto intro: rtranclp_trans)
  qed
qed

lemma calls_put_temp:
  assumes "fs_files s t = Some f" and "\<not> ff_synced f" and "put_env_real E root i b"
    and "put_temp E t b (block_path root i) s = (r, s')"
  shows "(call_step root i b)\<^sup>*\<^sup>* (PcWrite t b, s) (case r of Inl e \<Rightarrow> PcDrop t e | Inr _ \<Rightarrow> PcDone (Inr ()), s')"
  using assms(4) unfolding put_temp_def
proof (cases rule: io_bind_cases)
  case (fail e)
  then show ?thesis using calls_write [OF assms(1-3) fail(1)] by simp
next
  case (step x s1)
  note wr = calls_write [OF assms(1-3) step(1)]
  show ?thesis
    using step(2)
  proof (cases rule: io_bind_cases)
    case (fail e)
    have "(call_step root i b)\<^sup>*\<^sup>* (PcSync t, s1) (PcDrop t e, s')"
      by (rule call_one [of _ _ _ "pe_sync E"]) (simp add: put_call_defs the_call_def fail(1))
    then show ?thesis using wr fail(2) by (auto intro: rtranclp_trans)
  next
    case (step y s2)
    have sy: "(call_step root i b)\<^sup>*\<^sup>* (PcSync t, s1) (PcPersist t, s2)"
      by (rule call_one [of _ _ _ "pe_sync E"]) (simp add: put_call_defs the_call_def step(1))
    have "(call_step root i b)\<^sup>*\<^sup>* (PcPersist t, s2) (case r of Inl e \<Rightarrow> PcDrop t e | Inr _ \<Rightarrow> PcDone (Inr ()), s')"
      by (rule call_one [of _ _ _ "pe_persist E"]) (simp add: put_call_defs the_call_def step(2) split: sum.splits)
    then show ?thesis using wr sy by (auto intro: rtranclp_trans)
  qed
qed

lemma calls_or_drop:
  assumes "fs_files s t = Some f" and "\<not> ff_synced f" and "put_env_real E root i b"
    and "or_drop (pe_drop E) t (put_temp E t b (block_path root i)) s = (r, s')"
  shows "(call_step root i b)\<^sup>*\<^sup>* (PcWrite t b, s) (case r of Inl e \<Rightarrow> put_failed e | Inr _ \<Rightarrow> PcDone (Inr ()), s')"
proof -
  obtain q s1 where q: "put_temp E t b (block_path root i) s = (q, s1)" by fastforce
  note run = calls_put_temp [OF assms(1-3) q]
  show ?thesis
  proof (cases q)
    case (Inl e)
    have "put_call root i b \<lparr>ce_fault = None, ce_random = [], ce_len = 0, ce_unlink = pe_drop E\<rparr> (PcDrop t e) s1 = (put_failed e, s')"
      and "r = Inl e"
      using assms(4) q Inl by (auto simp: or_drop_def put_call_defs)
    then have "call_step root i b (PcDrop t e, s1) (put_failed e, s')" by (intro call) auto
    then show ?thesis using run Inl \<open>r = Inl e\<close> by (auto intro: rtranclp.rtrancl_into_rtrancl)
  next
    case (Inr u)
    then show ?thesis using run assms(4) q by (auto simp: or_drop_def)
  qed
qed

lemma calls_run_put:
  assumes "local_ok root s" and "block_id_ok i" and "put_env_ok E" and "put_env_real E root i b"
    and "run_put E root i b s = (r, s')"
  shows "(call_step root i b)\<^sup>*\<^sup>* (PcDirs (path_prefixes [] (shard_dir root i)), s) (PcDone r, s')"
proof -
  let ?work = "io_bind (put_prepare E root i) (\<lambda>_.
    io_bind (tempfile_in (pe_temp E) ''.put.'' (pe_random E) ''.tmp'' mode_0600 (shard_dir root i)) (\<lambda>t.
    or_drop (pe_drop E) t (put_temp E t b (block_path root i))))"
  obtain q where q: "?work s = (q, s')" "r = map_err backend_error q"
    using assms(5) by (auto simp: run_put_def Let_def split: prod.splits)
  have clear: "\<forall>p \<in> set (path_prefixes [] (shard_dir root i)). fs_files s p = None"
    using assms(1,2) by (simp add: local_ok_def)
  from q(1) show ?thesis
  proof (cases rule: io_bind_cases)
    case (fail e)
    then show ?thesis using calls_prepare [OF clear assms(4) fail(1)] q(2) by (simp add: put_failed_def)
  next
    case (step x s1)
    note prep = calls_prepare [OF clear assms(4) step(1)]
    let ?C = "\<lparr>ce_fault = pe_temp E, ce_random = pe_random E, ce_len = 0, ce_unlink = False\<rparr>"
    have C: "CHR ''/'' \<notin> set (ce_random ?C)" using assms(3) by (simp add: put_env_ok_def)
    from step(2) show ?thesis
    proof (cases rule: io_bind_cases)
      case (fail e)
      have "call_step root i b (PcTemp, s1) (put_failed e, s')"
        by (rule call [OF C]) (simp add: put_call_defs fail(1))
      then show ?thesis
        using prep q(2) fail(2) by (auto simp: put_failed_def intro: rtranclp.rtrancl_into_rtrancl)
    next
      case (step t s2)
      have tmp: "call_step root i b (PcTemp, s1) (PcWrite t b, s2)"
        by (rule call [OF C]) (simp add: put_call_defs step(1))
      have "\<exists>f. fs_files s2 t = Some f \<and> \<not> ff_synced f"
        using step(1) by (auto simp: tempfile_in_def Let_def split: option.splits if_splits)
      then obtain f where f: "fs_files s2 t = Some f" "\<not> ff_synced f" by blast
      have "(call_step root i b)\<^sup>*\<^sup>* (PcWrite t b, s2) (PcDone r, s')"
        using calls_or_drop [OF f assms(4) step(2)] q(2) by (cases q) (simp_all add: put_failed_def)
      then show ?thesis using prep tmp by (auto intro: rtranclp_trans converse_rtranclp_into_rtranclp)
    qed
  qed
qed

lemma calls_machine:
  assumes "(call_step root i b)\<^sup>*\<^sup>* (pc, s) (pc', s')"
    and "put_machine_reach root s0 \<lparr>pm_fs = s, pm_tasks = [k \<mapsto> \<lparr>pt_id = i, pt_payload = b, pt_pc = pc\<rparr>]\<rparr>"
  shows "put_machine_reach root s0 \<lparr>pm_fs = s', pm_tasks = [k \<mapsto> \<lparr>pt_id = i, pt_payload = b, pt_pc = pc'\<rparr>]\<rparr>"
  using assms(1)
proof (induction rule: rtranclp_induct2)
  case refl
  show ?case by (rule assms(2))
next
  case (step pc1 s1 pc2 s2)
  from step.hyps(2) obtain C where C: "CHR ''/'' \<notin> set (ce_random C)" "put_call root i b C pc1 s1 = (pc2, s2)"
    by (auto elim: call_step.cases)
  let ?S = "\<lparr>pm_fs = s1, pm_tasks = [k \<mapsto> \<lparr>pt_id = i, pt_payload = b, pt_pc = pc1\<rparr>]\<rparr>"
  have "put_machine_step root ?S \<lparr>pm_fs = s2, pm_tasks = [k \<mapsto> \<lparr>pt_id = i, pt_payload = b, pt_pc = pc2\<rparr>]\<rparr>"
    using pm_call [of ?S k "\<lparr>pt_id = i, pt_payload = b, pt_pc = pc1\<rparr>" C root pc2 s2] C by simp
  with step.IH show ?case by (rule pm_next)
qed

text \<open>
  The two models of a put agree. What \<open>run_put\<close> does as one function, with any faults of the system, is what
  the put does call by call when it runs alone: the machine of interleaved puts, started with that
  one put, reaches the state in which the put has returned the same result and the file system is the same.
\<close>

theorem put_alone_is_run_put:
  assumes "local_ok root s" and "block_id_ok i" and "put_env_ok E" and "put_env_real E root i b"
    and "run_put E root i b s = (r, s')"
  shows "put_machine_reach root s
    \<lparr>pm_fs = s', pm_tasks = [k \<mapsto> \<lparr>pt_id = i, pt_payload = b, pt_pc = PcDone r\<rparr>]\<rparr>"
proof (rule calls_machine [OF calls_run_put [OF assms]])
  show "put_machine_reach root s \<lparr>pm_fs = s, pm_tasks = [k \<mapsto> \<lparr>pt_id = i, pt_payload = b,
      pt_pc = PcDirs (path_prefixes [] (shard_dir root i))\<rparr>]\<rparr>"
    using pm_next [OF pm_init pm_start [of "\<lparr>pm_fs = s, pm_tasks = Map.empty\<rparr>" k i root b]] assms(2) by simp
qed

text \<open>Witness: a disk that is full after two of three bytes.\<close>

theorem put_alone_is_run_put_witness:
  "\<exists>r s'. run_put full_disk_put ''/srv'' demo_id [1, 2, 3] demo_fs = (r, s') \<and>
     put_machine_reach ''/srv'' demo_fs
       \<lparr>pm_fs = s', pm_tasks = [0 \<mapsto> \<lparr>pt_id = demo_id, pt_payload = [1, 2, 3], pt_pc = PcDone r\<rparr>]\<rparr>"
proof -
  obtain r s' where r: "run_put full_disk_put ''/srv'' demo_id [1, 2, 3] demo_fs = (r, s')" by fastforce
  have "put_env_real full_disk_put ''/srv'' demo_id [1, 2, 3]"
    by (simp add: put_env_real_def full_disk_put_def calm_put_def)
  from put_alone_is_run_put [OF demo_fs_ok demo_id_ok full_disk_put_ok(1) this r] r show ?thesis by blast
qed

end
