(* ===== verification/Refresh_Steps.thy ===== *)
theory Refresh_Steps
  imports Tasks
begin

section \<open>Refreshes one atomic action at a time (auth/jwks.rs, auth/context.rs)\<close>

text \<open>
  The refreshes are cut at every access to a field that another task can change and at every await: a call has a
  program counter, and each of its steps reads or writes the heap of contexts once. Nothing
  is said here about what other tasks do between two steps. A call whose steps follow each other directly is the function of the
  theory \<open>Refresh\<close>. The wait for a notification is one step, which may come at any time: what
  the notification or the timeout finds is decided by the load after it.
\<close>

subsection \<open>The call of a request\<close>

datatype refresh_pc =
    RLoad
  | RClaim u64 u64
  | RUri u64
  | RFetch u64 url
  | RCheck u64 jwks
  | RStore u64 jwks
  | RComplete u64 bool
  | RWait u64
  | RRecheck u64

text \<open>
  One step of \<open>on_demand_refresh\<close>: \<open>Inl\<close> the rest of the call, or \<open>Inr\<close> its result. The first value of a
  counter is the time read at the start, or for \<open>RClaim\<close>, \<open>RWait\<close> and \<open>RRecheck\<close> the claim that was loaded.
\<close>

definition refresh_call ::
    "'dk ext \<Rightarrow> u64 option \<Rightarrow> (string \<Rightarrow> http_reply) \<Rightarrow> refresh_pc \<Rightarrow> ctx_heap \<Rightarrow> nat \<Rightarrow>
     ((refresh_pc + bool) \<times> ctx_heap) outcome" where
  "refresh_call X clock http pc h a = (case h a of
      None \<Rightarrow> Returns (Inr False, h)
    | Some c \<Rightarrow> (case pc of
        RLoad \<Rightarrow>
          (let interval_secs = on_demand_refresh_min_interval_secs (ctx_auth_config c);
               now_secs = unwrap_or clock 0;
               prev = last_on_demand_refresh c;
               cutoff = saturating_add prev interval_secs
           in Returns (Inl (if now_secs < cutoff then RWait prev else RClaim prev now_secs), h))
      | RClaim prev now_secs \<Rightarrow>
          (let (claimed, h') = claim_cas h a prev now_secs in
           Returns (Inl (if claimed then RUri now_secs else RWait prev), h'))
      | RUri now_secs \<Rightarrow> Returns (Inl (RFetch now_secs (jwks_uri (ctx_discovery c))), h)
      | RFetch now_secs uri \<Rightarrow>
          bind_outcome (fetch_jwks X http uri) (\<lambda>r. Returns (Inl (case r of
            Inr new_jwks \<Rightarrow> RCheck now_secs new_jwks
          | Inl _ \<Rightarrow> RComplete now_secs False), h))
      | RCheck now_secs new_jwks \<Rightarrow>
          Returns (Inl (if is_ok (install_check h c new_jwks) then RStore now_secs new_jwks
                        else RComplete now_secs False), h)
      | RStore now_secs new_jwks \<Rightarrow> Returns (Inl (RComplete now_secs True), jwks_store h a new_jwks)
      | RComplete now_secs install_result \<Rightarrow> Returns (Inr install_result, completed_store h a now_secs)
      | RWait prev \<Rightarrow>
          Returns (if prev \<le> last_refresh_completed c then Inr True else Inl (RRecheck prev), h)
      | RRecheck prev \<Rightarrow> Returns (Inr (prev \<le> last_refresh_completed c), h)))"

text \<open>The awaits of the call, at which the future of the request can be dropped.\<close>

fun refresh_awaits :: "refresh_pc \<Rightarrow> bool" where
  "refresh_awaits (RFetch _ _) = True"
| "refresh_awaits (RRecheck _) = True"
| "refresh_awaits _ = False"

subsection \<open>The call of the scheduled task\<close>

datatype scheduled_pc =
    SIdle
  | SFetch url
  | SCheck jwks
  | SStore jwks
  | SDead

text \<open>One step of a tick of the task of context \<open>a\<close>; a panic of the parser ends the task, and so would the
  loss of its context.\<close>

definition scheduled_call ::
    "'dk ext \<Rightarrow> (string \<Rightarrow> http_reply) \<Rightarrow> scheduled_pc \<Rightarrow> ctx_heap \<Rightarrow> nat \<Rightarrow> scheduled_pc \<times> ctx_heap" where
  "scheduled_call X http pc h a = (case h a of
      None \<Rightarrow> (SDead, h)
    | Some c \<Rightarrow> (case pc of
        SIdle \<Rightarrow> (SFetch (jwks_uri (ctx_discovery c)), h)
      | SFetch uri \<Rightarrow>
          (case fetch_jwks X http uri of
             Panics \<Rightarrow> (SDead, h)
           | Returns (Inl _) \<Rightarrow> (SIdle, h)
           | Returns (Inr new_jwks) \<Rightarrow> (SCheck new_jwks, h))
      | SCheck new_jwks \<Rightarrow> (if is_ok (install_check h c new_jwks) then SStore new_jwks else SIdle, h)
      | SStore new_jwks \<Rightarrow> (SIdle, jwks_store h a new_jwks)
      | SDead \<Rightarrow> (SDead, h)))"

subsection \<open>Steps that follow each other directly\<close>

definition alone_with :: "u64 option \<Rightarrow> (string \<Rightarrow> http_reply) \<Rightarrow> refresh_env" where
  "alone_with clock http = \<lparr>re_now = clock, re_http = http, re_before_cas = id, re_during_fetch = id, re_during_wait = id\<rparr>"

lemma alone_with_simps [simp]:
  "re_now (alone_with clock http) = clock" "re_http (alone_with clock http) = http"
  "re_before_cas (alone_with clock http) = id" "re_during_fetch (alone_with clock http) = id"
  "re_during_wait (alone_with clock http) = id"
  by (simp_all add: alone_with_def)

lemma undisturbed_alone: "undisturbed E \<longleftrightarrow> E = alone_with (re_now E) (re_http E)"
  by (cases E) (auto simp: undisturbed_def alone_with_def)

inductive refresh_calls ::
    "'dk ext \<Rightarrow> u64 option \<Rightarrow> (string \<Rightarrow> http_reply) \<Rightarrow> nat \<Rightarrow> refresh_pc \<Rightarrow> ctx_heap \<Rightarrow> bool \<Rightarrow> ctx_heap \<Rightarrow> bool"
  for X clock http a where
  calls_last: "refresh_call X clock http pc h a = Returns (Inr q, h') \<Longrightarrow> refresh_calls X clock http a pc h q h'"
| calls_more: "refresh_call X clock http pc h a = Returns (Inl pc', h1) \<Longrightarrow> refresh_calls X clock http a pc' h1 q h' \<Longrightarrow>
    refresh_calls X clock http a pc h q h'"

lemma calls_wait:
  assumes "wait_for_completion (alone_with clock http) h a prev = (q, h')"
  shows "refresh_calls X clock http a (RWait prev) h q h'"
proof (cases "h a")
  case None
  then show ?thesis using assms by (auto simp: wait_for_completion_def refresh_call_def intro!: calls_last)
next
  case (Some c)
  show ?thesis
  proof (cases "prev \<le> last_refresh_completed c")
    case True
    then show ?thesis using assms Some by (auto simp: wait_for_completion_def refresh_call_def intro!: calls_last)
  next
    case False
    then have "refresh_call X clock http (RWait prev) h a = Returns (Inl (RRecheck prev), h)"
      "refresh_call X clock http (RRecheck prev) h a = Returns (Inr q, h')"
      using assms Some by (auto simp: wait_for_completion_def refresh_call_def Let_def)
    then show ?thesis by (blast intro: refresh_calls.intros)
  qed
qed

lemma calls_install:
  assumes "fetch_and_install X (alone_with clock http) h a = Returns (q, h')"
  shows "refresh_calls X clock http a (RUri now) h q (completed_store h' a now)"
proof (cases "h a")
  case None
  then show ?thesis using assms
    by (auto simp: fetch_and_install_def refresh_call_def completed_store_def intro!: calls_last)
next
  case (Some c)
  have complete: "g a \<noteq> None \<Longrightarrow> refresh_calls X clock http a (RComplete now r) g r (completed_store g a now)" for r g
    by (rule calls_last) (auto simp: refresh_call_def)
  obtain res where f: "fetch_jwks X http (jwks_uri (ctx_discovery c)) = Returns res"
    using assms Some by (auto simp: fetch_and_install_def result_simps)
  have uri: "refresh_call X clock http (RUri now) h a = Returns (Inl (RFetch now (jwks_uri (ctx_discovery c))), h)"
    by (simp add: refresh_call_def Some)
  have fetch: "refresh_call X clock http (RFetch now (jwks_uri (ctx_discovery c))) h a = Returns (Inl (case res of
      Inr j \<Rightarrow> RCheck now j | Inl _ \<Rightarrow> RComplete now False), h)"
    by (simp add: refresh_call_def Some f)
  show ?thesis
  proof (cases res)
    case (Inl e)
    then have "q = False" "h' = h" using assms Some f by (auto simp: fetch_and_install_def)
    then show ?thesis using calls_more [OF uri calls_more [OF fetch]] complete [of h False] Some Inl by simp
  next
    case (Inr j)
    note fetch = fetch [unfolded Inr sum.case]
    show ?thesis
    proof (cases "install_check h c j")
      case (Inl e)
      then have "q = False" "h' = h" "refresh_call X clock http (RCheck now j) h a = Returns (Inl (RComplete now False), h)"
        using assms Some f \<open>res = Inr j\<close> by (auto simp: fetch_and_install_def install_refreshed_jwks_def refresh_call_def)
      then show ?thesis using calls_more [OF uri calls_more [OF fetch calls_more]] complete [of h False] Some by simp
    next
      case (Inr u)
      then have c: "q = True" "h' = jwks_store h a j"
          "refresh_call X clock http (RCheck now j) h a = Returns (Inl (RStore now j), h)"
          "refresh_call X clock http (RStore now j) h a = Returns (Inl (RComplete now True), jwks_store h a j)"
        using assms Some f \<open>res = Inr j\<close> by (auto simp: fetch_and_install_def install_refreshed_jwks_def refresh_call_def)
      then have "h' a \<noteq> None" using Some by (simp add: jwks_store_def)
      then show ?thesis using calls_more [OF uri calls_more [OF fetch calls_more [OF c(3) calls_more [OF c(4)]]]]
          complete [of h' True] c(1,2) by simp
    qed
  qed
qed

text \<open>A call whose steps follow each other directly does what the function \<open>on_demand_refresh\<close> does.\<close>

lemma on_demand_refresh_calls:
  assumes "on_demand_refresh X (alone_with clock http) h a = Returns (q, h')"
  shows "refresh_calls X clock http a RLoad h q h'"
proof (cases "h a")
  case None
  then show ?thesis using assms by (auto simp: on_demand_refresh_def refresh_call_def intro!: calls_last)
next
  case (Some c)
  let ?now = "unwrap_or clock 0" and ?prev = "last_on_demand_refresh c"
  let ?h1 = "h(a \<mapsto> c\<lparr>last_on_demand_refresh := ?now\<rparr>)"
  show ?thesis
  proof (cases "?now < saturating_add ?prev (on_demand_refresh_min_interval_secs (ctx_auth_config c))")
    case True
    then have "refresh_call X clock http RLoad h a = Returns (Inl (RWait ?prev), h)"
      "wait_for_completion (alone_with clock http) h a ?prev = (q, h')"
      using assms Some by (auto simp: refresh_call_def on_demand_refresh_def Let_def)
    then show ?thesis by (blast intro: calls_more calls_wait)
  next
    case False
    have cas: "claim_cas h a ?prev ?now = (True, ?h1)" using Some by (simp add: claim_cas_def)
    have steps: "refresh_call X clock http RLoad h a = Returns (Inl (RClaim ?prev ?now), h)"
      "refresh_call X clock http (RClaim ?prev ?now) h a = Returns (Inl (RUri ?now), ?h1)"
      using Some False by (auto simp: refresh_call_def Let_def cas)
    obtain h2 where h2: "fetch_and_install X (alone_with clock http) ?h1 a = Returns (q, h2)" "h' = completed_store h2 a ?now"
      using assms Some False by (auto simp: on_demand_refresh_def Let_def cas result_simps)
    show ?thesis using calls_more [OF steps(1) calls_more [OF steps(2) calls_install [OF h2(1)]]] h2(2) by simp
  qed
qed

text \<open>A tick of the scheduled task whose steps follow each other directly, from idle to idle.\<close>

definition scheduled_next ::
    "'dk ext \<Rightarrow> (string \<Rightarrow> http_reply) \<Rightarrow> nat \<Rightarrow> scheduled_pc \<times> ctx_heap \<Rightarrow> scheduled_pc \<times> ctx_heap \<Rightarrow> bool" where
  "scheduled_next X http a s s' \<longleftrightarrow> s' = scheduled_call X http (fst s) (snd s) a"

lemma scheduled_refresh_calls:
  assumes "do_scheduled_refresh X (alone_with clock http) h a = Returns h'" and "h a \<noteq> None"
  shows "(scheduled_next X http a)\<^sup>+\<^sup>+ (SIdle, h) (SIdle, h')"
proof -
  let ?R = "scheduled_next X http a"
  note defs = scheduled_next_def scheduled_call_def fetch_and_install_def install_refreshed_jwks_def
  obtain c where c: "h a = Some c" using assms(2) by blast
  let ?uri = "jwks_uri (ctx_discovery c)"
  obtain q where i: "fetch_and_install X (alone_with clock http) h a = Returns (q, h')"
    using assms(1) by (auto simp: do_scheduled_refresh_def result_simps)
  then obtain res where f: "fetch_jwks X http ?uri = Returns res" using c by (auto simp: fetch_and_install_def result_simps)
  have start: "?R (SIdle, h) (SFetch ?uri, h)" by (simp add: defs c)
  show ?thesis
  proof (cases res)
    case (Inl e)
    then have "h' = h" "?R (SFetch ?uri, h) (SIdle, h)"
      using i c f by (auto simp: defs)
    then show ?thesis using start by (blast intro: tranclp.intros)
  next
    case (Inr j)
    then have fetched: "?R (SFetch ?uri, h) (SCheck j, h)" using f by (simp add: defs c)
    show ?thesis
    proof (cases "install_check h c j")
      case (Inl e)
      then have "h' = h" "?R (SCheck j, h) (SIdle, h)"
        using i c f \<open>res = Inr j\<close> by (auto simp: defs)
      then show ?thesis using start fetched by (blast intro: tranclp.intros)
    next
      case (Inr u)
      then have "h' = jwks_store h a j" "?R (SCheck j, h) (SStore j, h)" "?R (SStore j, h) (SIdle, jwks_store h a j)"
        using i c f \<open>res = Inr j\<close> by (auto simp: defs)
      then show ?thesis using start fetched by (blast intro: tranclp.intros)
    qed
  qed
qed

end
