(* ===== verification/Concurrent.thy ===== *)
theory Concurrent
  imports System Replay_Interleaving Put_Sequential Refresh_Steps
begin

section \<open>Requests in flight together (auth/middleware.rs, routes/api/blocks.rs, storage/local_fs.rs)\<close>

text \<open>
  The server of the previous theory answers one request at a time. Here any number of requests are in
  flight: each has a program counter, and a step is the part of the code between two points at
  which other tasks can run, the awaits, the locks of the replay store, the accesses to the contexts and the system calls of
  the blocking threads. The clean-up of the replay store, the tasks that refresh the contexts, the passage of time and clients that
  disconnect have steps of their own. The steps are made of the operations of the sequential model. Log
  entries are left out here: they are those of the sequential handlers.
\<close>

subsection \<open>Routes\<close>

text \<open>A route with what its guard and handler have captured when the router was built.\<close>

datatype route =
    RouteFallback
  | RouteHealth
  | RouteWhoami oidc_context
  | RouteBlock oidc_context string u64
  | RouteAdmin oidc_context

definition route_table :: "'net booted \<Rightarrow> (string \<times> route) list" where
  "route_table b =
     [(''/health'', RouteHealth)] @
     (case bd_contexts b vault_addr of
        Some ctx \<Rightarrow> [(''/api/whoami'', RouteWhoami ctx)] @
          (case bd_storage b of
             Some root \<Rightarrow> [(''/api/blocks/{id}'', RouteBlock ctx root (block_size_bytes (bd_config b)))]
           | None \<Rightarrow> [])
      | None \<Rightarrow> []) @
     (case bd_contexts b admin_addr of Some ctx \<Rightarrow> [(''/admin/whoami'', RouteAdmin ctx)] | None \<Rightarrow> [])"

definition route_of :: "'body web_ext \<Rightarrow> 'net booted \<Rightarrow> 'body request \<Rightarrow> route" where
  "route_of W b r =
     unwrap_or (Option.bind (web_route W (map fst (route_table b)) (req_path r)) (map_of (route_table b))) RouteFallback"

text \<open>The guard of a route: the context with its address, and the methods that it authenticates.\<close>

fun route_guard :: "route \<Rightarrow> (nat \<times> oidc_context \<times> string list) option" where
  "route_guard (RouteWhoami ctx) = Some (vault_addr, ctx, [''GET''])"
| "route_guard (RouteBlock ctx _ _) = Some (vault_addr, ctx, block_methods)"
| "route_guard (RouteAdmin ctx) = Some (admin_addr, ctx, [''GET''])"
| "route_guard _ = None"

fun route_subject :: "route \<Rightarrow> string \<Rightarrow> 'body request \<Rightarrow> 'body request" where
  "route_subject (RouteAdmin _) sub r = r\<lparr>ext_admin_subject := Some (admin_subject_new sub)\<rparr>"
| "route_subject _ sub r = r\<lparr>ext_vault_subject := Some (vault_subject_new sub)\<rparr>"

subsection \<open>Requests in flight\<close>

record credentials =
  cr_addr :: nat
  cr_ctx :: oidc_context
  cr_token :: string
  cr_proof :: string
  cr_uri :: url

datatype request_pc =
    AtGuard
  | AtToken credentials
  | AtRefresh credentials jose_header jws_alg auth_failure refresh_pc
  | AtRetry credentials jose_header jws_alg auth_failure
  | AtProof credentials access_token
  | AtInsert credentials access_token dpop_proof instant
  | AtPush credentials access_token dpop_proof instant
  | AtHandler
  | AtGet block_id
  | AtDelete block_id
  | AtPut block_id bytes put_pc
  | Answered response
  | Dropped

text \<open>
  \<open>ct_gone\<close>: the client has disconnected, so that the answer, if there will be one, is discarded.
  \<open>ct_accepted\<close> keeps the proof that the guard has accepted, with its key and its deadline.
\<close>

record 'body conc_task =
  ct_route :: route
  ct_request :: "'body request"
  ct_pc :: request_pc
  ct_gone :: bool
  ct_accepted :: "(dpop_proof \<times> jti_key \<times> instant) option"

text \<open>What the requests share; \<open>sh_jobs\<close> has for each context where its scheduled refresh task stands.\<close>

record shared =
  sh_now :: instant
  sh_contexts :: ctx_heap
  sh_jobs :: "nat \<Rightarrow> scheduled_pc"
  sh_replay :: replay_sys
  sh_fs :: fs

record 'body conc_state =
  cs_shared :: shared
  cs_tasks :: "nat \<rightharpoonup> 'body conc_task"

text \<open>What the environment decides about one step: the wall clock, the replies of the issuer, a system call.\<close>

record step_env =
  se_clock :: "u64 option"
  se_http :: "string \<Rightarrow> http_reply"
  se_call :: call_env
  se_fault :: "io_error option"

subsection \<open>The steps of a request\<close>

definition answer :: "response \<Rightarrow> 'body conc_task \<Rightarrow> 'body conc_task" where
  "answer resp T = T\<lparr>ct_pc := Answered resp\<rparr>"

definition token_attempt ::
    "'dk ext \<Rightarrow> ctx_heap \<Rightarrow> credentials \<Rightarrow> jose_header \<Rightarrow> jws_alg \<Rightarrow> auth_failure + token_claims" where
  "token_attempt X h c header alg =
     try_decode_with_current_jwks X (cr_token c) header
       (token_validation X alg (clock_skew_secs (ctx_auth_config (cr_ctx c))))
       (case h (cr_addr c) of None \<Rightarrow> ctx_jwks (cr_ctx c) | Some c' \<Rightarrow> ctx_jwks c')"

definition credentials_of :: "'dk ext \<Rightarrow> nat \<Rightarrow> oidc_context \<Rightarrow> 'body request \<Rightarrow> auth_failure + credentials" where
  "credentials_of X a ctx r =
     bind_result (extract_token r) (\<lambda>raw_token.
     bind_result (extract_proof r) (\<lambda>raw_proof.
     bind_result (build_effective_uri X r) (\<lambda>uri.
     Inr \<lparr>cr_addr = a, cr_ctx = ctx, cr_token = raw_token, cr_proof = raw_proof, cr_uri = uri\<rparr>)))"

definition claims_checked ::
    "'dk ext \<Rightarrow> u64 option \<Rightarrow> credentials \<Rightarrow> token_claims \<Rightarrow> 'body conc_task \<Rightarrow> 'body conc_task" where
  "claims_checked X clock c claims T =
     (case check_token_claims X clock (cr_ctx c) claims of
        Inl f \<Rightarrow> answer (failure_response f) T
      | Inr at \<Rightarrow> T\<lparr>ct_pc := AtProof c at\<rparr>)"

definition proof_key :: "'dk ext \<Rightarrow> credentials \<Rightarrow> dpop_proof \<Rightarrow> jti_key" where
  "proof_key X c p = jti_key_new X (as_jti_key_byte (ctx_tag (cr_ctx c))) (dp_jti p)"

text \<open>The checks of a \<open>PUT\<close> before the storage is called, and the answers after it.\<close>

definition put_admits :: "('body \<Rightarrow> nat \<Rightarrow> bytes option) \<Rightarrow> u64 \<Rightarrow> 'body request \<Rightarrow> bytes option" where
  "put_admits to_bytes block_size r =
     (if content_length r \<noteq> None \<and> content_length r \<noteq> Some block_size then None
      else Option.bind (checked_add block_size 1) (\<lambda>limit.
           Option.bind (to_bytes (req_body r) (unat limit)) (\<lambda>bytes.
           if length bytes \<noteq> unat block_size then None else Some bytes)))"

definition get_reply :: "storage_error + bytes \<Rightarrow> response" where
  "get_reply res = (case res of
      Inr payload \<Rightarrow> respond_block_200 payload
    | Inl StorageNotFound \<Rightarrow> respond_block_404
    | Inl (StorageBackend _ _) \<Rightarrow> respond_block_503)"

definition put_reply :: "storage_error + unit \<Rightarrow> response" where
  "put_reply res = (case res of Inr _ \<Rightarrow> respond_block_204 | Inl _ \<Rightarrow> respond_block_503)"

definition delete_reply :: "storage_error + unit \<Rightarrow> response" where
  "delete_reply res = (case res of Inl (StorageBackend _ _) \<Rightarrow> respond_block_503 | _ \<Rightarrow> respond_block_204)"

definition block_start :: "'body web_ext \<Rightarrow> string \<Rightarrow> u64 \<Rightarrow> 'body conc_task \<Rightarrow> 'body conc_task" where
  "block_start W root n T =
     (let r = ct_request T in
      case request_block_id r of
        None \<Rightarrow> answer respond_block_404 T
      | Some i \<Rightarrow>
          if req_method r = ''GET'' then T\<lparr>ct_pc := AtGet i\<rparr>
          else if req_method r = ''PUT'' then
            (case put_admits (web_to_bytes W) n r of
               None \<Rightarrow> answer respond_block_400 T
             | Some bytes \<Rightarrow> T\<lparr>ct_pc := AtPut i bytes (PcDirs (path_prefixes [] (shard_dir root i)))\<rparr>)
          else if req_method r = ''DELETE'' then T\<lparr>ct_pc := AtDelete i\<rparr>
          else answer respond_block_404 T)"

text \<open>The handlers that do not touch the storage answer at once.\<close>

fun plain_service :: "'body web_ext \<Rightarrow> route \<Rightarrow> ('body, fs) service" where
  "plain_service W RouteHealth = handle_health W"
| "plain_service W (RouteWhoami _) = handle_whoami W"
| "plain_service W (RouteAdmin _) = handle_admin_whoami W"
| "plain_service W _ = fallback_404"

definition shared_state :: "shared \<Rightarrow> fs server_state" where
  "shared_state S = \<lparr>ss_contexts = sh_contexts S, ss_replay = sys_store (sh_replay S), ss_fs = sh_fs S\<rparr>"

definition handler_start :: "'body web_ext \<Rightarrow> shared \<Rightarrow> 'body conc_task \<Rightarrow> 'body conc_task" where
  "handler_start W S T = (case ct_route T of
      RouteBlock _ root n \<Rightarrow> block_start W root n T
    | route \<Rightarrow> (case plain_service W route (ct_request T) (shared_state S) of
                 Returns (resp, _, _) \<Rightarrow> answer resp T
               | Panics \<Rightarrow> T\<lparr>ct_pc := Dropped\<rparr>))"

text \<open>Steps of the guard.\<close>

definition guard_start :: "'dk ext \<Rightarrow> 'body conc_task \<Rightarrow> 'body conc_task" where
  "guard_start X T = (case route_guard (ct_route T) of
      None \<Rightarrow> T\<lparr>ct_pc := AtHandler\<rparr>
    | Some (a, ctx, methods) \<Rightarrow>
        if req_method (ct_request T) \<notin> set methods then T\<lparr>ct_pc := AtHandler\<rparr>
        else (case credentials_of X a ctx (ct_request T) of
                Inl f \<Rightarrow> answer (failure_response f) T
              | Inr c \<Rightarrow> T\<lparr>ct_pc := AtToken c\<rparr>))"

definition token_step :: "'dk ext \<Rightarrow> u64 option \<Rightarrow> ctx_heap \<Rightarrow> credentials \<Rightarrow> 'body conc_task \<Rightarrow> 'body conc_task" where
  "token_step X clock h c T =
     (case bind_result (map_err (\<lambda>_. InvalidAlg) (jwt_decode_header X (cr_token c))) (\<lambda>header.
           bind_result (allowlist_alg (hdr_alg header)) (\<lambda>alg. Inr (header, alg))) of
        Inl f \<Rightarrow> answer (failure_response f) T
      | Inr (header, alg) \<Rightarrow>
          (case token_attempt X h c header alg of
             Inr claims \<Rightarrow> claims_checked X clock c claims T
           | Inl first_err \<Rightarrow> T\<lparr>ct_pc := AtRefresh c header alg first_err RLoad\<rparr>))"

definition on_demand_step ::
    "'dk ext \<Rightarrow> u64 option \<Rightarrow> (string \<Rightarrow> http_reply) \<Rightarrow> credentials \<Rightarrow> jose_header \<Rightarrow> jws_alg \<Rightarrow> auth_failure \<Rightarrow>
     refresh_pc \<Rightarrow> 'body conc_task \<Rightarrow> shared \<Rightarrow> 'body conc_task \<times> shared" where
  "on_demand_step X clock http c header alg first_err pc T S =
     (case refresh_call X clock http pc (sh_contexts S) (cr_addr c) of
        Panics \<Rightarrow> (T\<lparr>ct_pc := Dropped\<rparr>, S)
      | Returns (Inl pc', h') \<Rightarrow> (T\<lparr>ct_pc := AtRefresh c header alg first_err pc'\<rparr>, S\<lparr>sh_contexts := h'\<rparr>)
      | Returns (Inr may_retry, h') \<Rightarrow>
          (if may_retry then T\<lparr>ct_pc := AtRetry c header alg first_err\<rparr>
           else answer (failure_response first_err) T,
           S\<lparr>sh_contexts := h'\<rparr>))"

definition retry_step ::
    "'dk ext \<Rightarrow> u64 option \<Rightarrow> ctx_heap \<Rightarrow> credentials \<Rightarrow> jose_header \<Rightarrow> jws_alg \<Rightarrow> auth_failure \<Rightarrow>
     'body conc_task \<Rightarrow> 'body conc_task" where
  "retry_step X clock h c header alg first_err T =
     (case token_attempt X h c header alg of
        Inr claims \<Rightarrow> claims_checked X clock c claims T
      | Inl _ \<Rightarrow> answer (failure_response first_err) T)"

definition proof_step ::
    "'dk ext \<Rightarrow> u64 option \<Rightarrow> instant \<Rightarrow> credentials \<Rightarrow> access_token \<Rightarrow> 'body conc_task \<Rightarrow> 'body conc_task" where
  "proof_step X clock now c at T =
     (case check_proof X clock (cr_ctx c) (cr_proof c) (req_method (ct_request T)) (cr_uri c) at (cr_token c) of
        Inl f \<Rightarrow> answer (failure_response f) T
      | Inr p \<Rightarrow>
          (case instant_checked_add now (jti_replay_window_secs (ctx_auth_config (cr_ctx c))) of
             None \<Rightarrow> answer (failure_response ProofIatStale) T
           | Some deadline \<Rightarrow> T\<lparr>ct_pc := AtInsert c at p deadline\<rparr>))"

definition insert_step ::
    "'dk ext \<Rightarrow> credentials \<Rightarrow> access_token \<Rightarrow> dpop_proof \<Rightarrow> instant \<Rightarrow> 'body conc_task \<Rightarrow> replay_sys \<Rightarrow>
     'body conc_task \<times> replay_sys" where
  "insert_step X c at p deadline T R =
     (let key = proof_key X c p in
      case try_insert_entries (sys_store R) key deadline of
        (Inr _, st) \<Rightarrow>
          (T\<lparr>ct_pc := AtPush c at p deadline, ct_accepted := Some (p, key, deadline)\<rparr>,
           R\<lparr>sys_store := st, sys_pushing := add_mset (deadline, key) (sys_pushing R)\<rparr>)
      | (Inl Replayed, st) \<Rightarrow> (answer (failure_response ProofReplayed) T, R\<lparr>sys_store := st\<rparr>)
      | (Inl MemoryPressure, st) \<Rightarrow> (answer (failure_response AuthMemoryPressure) T, R\<lparr>sys_store := st\<rparr>))"

definition push_step ::
    "'dk ext \<Rightarrow> credentials \<Rightarrow> access_token \<Rightarrow> dpop_proof \<Rightarrow> instant \<Rightarrow> 'body conc_task \<Rightarrow> replay_sys \<Rightarrow>
     'body conc_task \<times> replay_sys" where
  "push_step X c at p deadline T R =
     (let key = proof_key X c p in
      (T\<lparr>ct_pc := AtHandler, ct_request := route_subject (ct_route T) (at_sub at) (ct_request T)\<rparr>,
       R\<lparr>sys_store := try_insert_push (sys_store R) key deadline,
         sys_pushing := sys_pushing R - {#(deadline, key)#}\<rparr>))"

text \<open>Steps of the storage.\<close>

definition route_root :: "route \<Rightarrow> string" where
  "route_root rt = (case rt of RouteBlock _ root _ \<Rightarrow> root | _ \<Rightarrow> [])"

definition delete_step :: "string \<Rightarrow> io_error option \<Rightarrow> block_id \<Rightarrow> 'body conc_task \<Rightarrow> fs \<Rightarrow> 'body conc_task \<times> fs" where
  "delete_step root fault i T s =
     (let (res, s') = local_delete root fault i s in (answer (delete_reply res) T, s'))"

definition put_step ::
    "string \<Rightarrow> call_env \<Rightarrow> block_id \<Rightarrow> bytes \<Rightarrow> put_pc \<Rightarrow> 'body conc_task \<Rightarrow> fs \<Rightarrow> 'body conc_task \<times> fs" where
  "put_step root C i payload pc T s = (case pc of
      PcDone res \<Rightarrow> (answer (put_reply res) T, s)
    | _ \<Rightarrow> (let (pc', s') = put_call root i payload C pc s in (T\<lparr>ct_pc := AtPut i payload pc'\<rparr>, s')))"

definition request_step ::
    "'dk ext \<Rightarrow> 'body web_ext \<Rightarrow> step_env \<Rightarrow> 'body conc_task \<Rightarrow> shared \<Rightarrow> 'body conc_task \<times> shared" where
  "request_step X W E T S = (case ct_pc T of
      AtGuard \<Rightarrow> (guard_start X T, S)
    | AtToken c \<Rightarrow> (token_step X (se_clock E) (sh_contexts S) c T, S)
    | AtRefresh c header alg e pc \<Rightarrow> on_demand_step X (se_clock E) (se_http E) c header alg e pc T S
    | AtRetry c header alg e \<Rightarrow> (retry_step X (se_clock E) (sh_contexts S) c header alg e T, S)
    | AtProof c at \<Rightarrow> (proof_step X (se_clock E) (sh_now S) c at T, S)
    | AtInsert c at p d \<Rightarrow> (let (T', R) = insert_step X c at p d T (sh_replay S) in (T', S\<lparr>sh_replay := R\<rparr>))
    | AtPush c at p d \<Rightarrow> (let (T', R) = push_step X c at p d T (sh_replay S) in (T', S\<lparr>sh_replay := R\<rparr>))
    | AtHandler \<Rightarrow> (handler_start W S T, S)
    | AtGet i \<Rightarrow> (answer (get_reply (local_get (route_root (ct_route T)) (se_fault E) i (sh_fs S))) T, S)
    | AtDelete i \<Rightarrow> (let (T', s) = delete_step (route_root (ct_route T)) (se_fault E) i T (sh_fs S) in (T', S\<lparr>sh_fs := s\<rparr>))
    | AtPut i b pc \<Rightarrow> (let (T', s) = put_step (route_root (ct_route T)) (se_call E) i b pc T (sh_fs S) in (T', S\<lparr>sh_fs := s\<rparr>))
    | Answered _ \<Rightarrow> (T, S)
    | Dropped \<Rightarrow> (T, S))"

text \<open>
  A client that disconnects: the future of its request is dropped at the await at which it
  stands, but what has been handed to a blocking thread goes on. A request that is dropped while it fetches
  keys leaves its claim behind.
\<close>

definition cancel_step :: "'body conc_task \<Rightarrow> 'body conc_task" where
  "cancel_step T = (case ct_pc T of
      AtRefresh _ _ _ _ pc \<Rightarrow> if refresh_awaits pc then T\<lparr>ct_pc := Dropped, ct_gone := True\<rparr> else T\<lparr>ct_gone := True\<rparr>
    | AtHandler \<Rightarrow> T\<lparr>ct_pc := Dropped, ct_gone := True\<rparr>
    | AtGuard \<Rightarrow> T\<lparr>ct_pc := Dropped, ct_gone := True\<rparr>
    | _ \<Rightarrow> T\<lparr>ct_gone := True\<rparr>)"

subsection \<open>The machine\<close>

datatype 'body event =
    EvTime instant
  | EvRefreshKeys nat "string \<Rightarrow> http_reply"
  | EvRefreshDiscovery nat "string \<Rightarrow> http_reply"
  | EvDrain
  | EvRemove instant
  | EvArrive nat "'body request"
  | EvStep nat step_env
  | EvCancel nat

inductive conc_step ::
    "'dk ext \<Rightarrow> 'body web_ext \<Rightarrow> ('net \<Rightarrow> ip_addr \<Rightarrow> bool) \<Rightarrow> 'net booted \<Rightarrow>
     'body conc_state \<Rightarrow> 'body event \<Rightarrow> 'body conc_state \<Rightarrow> bool"
  for X W nc b where
  step_time: "sh_now (cs_shared S) \<le> n \<Longrightarrow>
    conc_step X W nc b S (EvTime n) (S\<lparr>cs_shared := (cs_shared S)\<lparr>sh_now := n\<rparr>\<rparr>)"
| step_refresh: "scheduled_call X http (sh_jobs (cs_shared S) a) (sh_contexts (cs_shared S)) a = (pc, h) \<Longrightarrow>
    conc_step X W nc b S (EvRefreshKeys a http)
      (S\<lparr>cs_shared := (cs_shared S)\<lparr>sh_contexts := h, sh_jobs := (sh_jobs (cs_shared S))(a := pc)\<rparr>\<rparr>)"
| step_discovery: "do_discovery_refresh X (alone_with None http) (sh_contexts (cs_shared S)) a = Returns h \<Longrightarrow>
    conc_step X W nc b S (EvRefreshDiscovery a http) (S\<lparr>cs_shared := (cs_shared S)\<lparr>sh_contexts := h\<rparr>\<rparr>)"
| step_drain: "store_step (sh_replay (cs_shared S)) (LDrain (sh_now (cs_shared S))) R \<Longrightarrow>
    conc_step X W nc b S EvDrain (S\<lparr>cs_shared := (cs_shared S)\<lparr>sh_replay := R\<rparr>\<rparr>)"
| step_remove: "store_step (sh_replay (cs_shared S)) (LRemove now) R \<Longrightarrow>
    conc_step X W nc b S (EvRemove now) (S\<lparr>cs_shared := (cs_shared S)\<lparr>sh_replay := R\<rparr>\<rparr>)"
| step_arrive: "cs_tasks S k = None \<Longrightarrow>
    r' = r\<lparr>ext_effective_address := Some (request_effective_address nc (trusted_proxies (bd_config b)) r)\<rparr> \<Longrightarrow>
    conc_step X W nc b S (EvArrive k r) (S\<lparr>cs_tasks := (cs_tasks S)(k \<mapsto>
      \<lparr>ct_route = route_of W b r', ct_request = r', ct_pc = AtGuard, ct_gone = False, ct_accepted = None\<rparr>)\<rparr>)"
| step_request: "cs_tasks S k = Some T \<Longrightarrow> request_step X W E T (cs_shared S) = (T', S') \<Longrightarrow>
    conc_step X W nc b S (EvStep k E) \<lparr>cs_shared = S', cs_tasks = (cs_tasks S)(k \<mapsto> T')\<rparr>"
| step_cancel: "cs_tasks S k = Some T \<Longrightarrow>
    conc_step X W nc b S (EvCancel k) (S\<lparr>cs_tasks := (cs_tasks S)(k \<mapsto> cancel_step T)\<rparr>)"

text \<open>
  A run, with the state before each of its events; every event satisfies a condition on the
  environment.
\<close>

inductive conc_run ::
    "'dk ext \<Rightarrow> 'body web_ext \<Rightarrow> ('net \<Rightarrow> ip_addr \<Rightarrow> bool) \<Rightarrow> 'net booted \<Rightarrow>
     ('body conc_state \<Rightarrow> 'body event \<Rightarrow> bool) \<Rightarrow>
     'body conc_state \<Rightarrow> ('body conc_state \<times> 'body event) list \<Rightarrow> 'body conc_state \<Rightarrow> bool"
  for X W nc b ok S0 where
  conc_nil: "conc_run X W nc b ok S0 [] S0"
| conc_snoc: "conc_run X W nc b ok S0 tr S \<Longrightarrow> ok S ev \<Longrightarrow> conc_step X W nc b S ev S' \<Longrightarrow>
    conc_run X W nc b ok S0 (tr @ [(S, ev)]) S'"

text \<open>The contract of an invariant: whatever holds before a step that the condition allows holds after it.\<close>

locale run_invariant =
  fixes X :: "'dk ext" and W :: "'body web_ext" and nc :: "'net \<Rightarrow> ip_addr \<Rightarrow> bool" and b :: "'net booted"
    and ok :: "'body conc_state \<Rightarrow> 'body event \<Rightarrow> bool"
    and inv :: "('body conc_state \<times> 'body event) list \<Rightarrow> 'body conc_state \<Rightarrow> bool"
  assumes inv_step: "inv tr S \<Longrightarrow> ok S ev \<Longrightarrow> conc_step X W nc b S ev S' \<Longrightarrow> inv (tr @ [(S, ev)]) S'"
begin

lemma inv_run: "conc_run X W nc b ok S0 tr S \<Longrightarrow> inv [] S0 \<Longrightarrow> inv tr S"
  by (induction rule: conc_run.induct) (auto intro: inv_step)

end

definition conc_init :: "'net booted \<Rightarrow> instant \<Rightarrow> fs \<Rightarrow> 'body conc_state" where
  "conc_init b now s =
     \<lparr>cs_shared = \<lparr>sh_now = now, sh_contexts = bd_contexts b, sh_jobs = (\<lambda>_. SIdle),
        sh_replay = \<lparr>sys_store = bd_replay b, sys_pushing = {#}, sys_removing = {#}\<rparr>, sh_fs = s\<rparr>,
      cs_tasks = Map.empty\<rparr>"

end
