(* ===== verification/Concurrent_Safety.thy ===== *)
theory Concurrent_Safety
  imports Concurrent
begin

section \<open>What holds whatever the interleaving\<close>

text \<open>
  Invariants of the machine of requests in flight, for each request (what its program counter says about its
  token and its proof), for the replay store and for the storage, and two consequences: one proof
  is never accepted for two requests, and the requests on blocks are linearisable.
\<close>

subsection \<open>What a request has shown\<close>

definition route_ok :: "'net booted \<Rightarrow> route \<Rightarrow> bool" where
  "route_ok b rt = (case rt of
      RouteWhoami ctx \<Rightarrow> bd_contexts b vault_addr = Some ctx
    | RouteBlock ctx root n \<Rightarrow> bd_contexts b vault_addr = Some ctx \<and> bd_storage b = Some root \<and>
        n = block_size_bytes (bd_config b)
    | RouteAdmin ctx \<Rightarrow> bd_contexts b admin_addr = Some ctx
    | _ \<Rightarrow> True)"

definition guarded :: "'body conc_task \<Rightarrow> bool" where
  "guarded T = (case route_guard (ct_route T) of
      None \<Rightarrow> False | Some (_, _, methods) \<Rightarrow> req_method (ct_request T) \<in> set methods)"

definition creds_ok :: "'dk ext \<Rightarrow> 'body conc_task \<Rightarrow> credentials \<Rightarrow> bool" where
  "creds_ok X T c \<longleftrightarrow> (\<exists>methods. route_guard (ct_route T) = Some (cr_addr c, cr_ctx c, methods) \<and>
     req_method (ct_request T) \<in> set methods) \<and>
     credentials_of X (cr_addr c) (cr_ctx c) (ct_request T) = Inr c"

definition header_ok :: "'dk ext \<Rightarrow> credentials \<Rightarrow> jose_header \<Rightarrow> jws_alg \<Rightarrow> bool" where
  "header_ok X c header alg \<longleftrightarrow> jwt_decode_header X (cr_token c) = Inr header \<and> hdr_alg header = to_jwt_algorithm alg"

text \<open>The token was verified with the keys of one of the given contexts.\<close>

definition token_good :: "'dk ext \<Rightarrow> ctx_heap set \<Rightarrow> credentials \<Rightarrow> access_token \<Rightarrow> bool" where
  "token_good X H c at \<longleftrightarrow> (\<exists>h \<in> H. \<exists>clock header alg claims. header_ok X c header alg \<and>
     token_attempt X h c header alg = Inr claims \<and> check_token_claims X clock (cr_ctx c) claims = Inr at)"

text \<open>The proof was checked at a time, with clocks that satisfy \<open>P\<close>, and its deadline computed from it.\<close>

definition proof_good ::
    "'dk ext \<Rightarrow> (u64 option \<Rightarrow> instant \<Rightarrow> bool) \<Rightarrow> 'body conc_task \<Rightarrow> credentials \<Rightarrow> access_token \<Rightarrow> dpop_proof \<Rightarrow>
     instant \<Rightarrow> bool" where
  "proof_good X P T c at p d \<longleftrightarrow> (\<exists>clock t. P clock t \<and>
     check_proof X clock (cr_ctx c) (cr_proof c) (req_method (ct_request T)) (cr_uri c) at (cr_token c) = Inr p \<and>
     d = t + unat (jti_replay_window_secs (ctx_auth_config (cr_ctx c))) * nanos_per_sec)"

definition shown ::
    "'dk ext \<Rightarrow> ctx_heap set \<Rightarrow> (u64 option \<Rightarrow> instant \<Rightarrow> bool) \<Rightarrow> 'body conc_task \<Rightarrow> credentials \<Rightarrow> access_token \<Rightarrow>
     dpop_proof \<Rightarrow> instant \<Rightarrow> bool" where
  "shown X H P T c at p d \<longleftrightarrow> creds_ok X T c \<and> token_good X H c at \<and> proof_good X P T c at p d"

definition accepted_ok :: "'dk ext \<Rightarrow> ctx_heap set \<Rightarrow> (u64 option \<Rightarrow> instant \<Rightarrow> bool) \<Rightarrow> 'body conc_task \<Rightarrow> bool" where
  "accepted_ok X H P T \<longleftrightarrow> (\<forall>p key d. ct_accepted T = Some (p, key, d) \<longrightarrow>
     (\<exists>c at. key = proof_key X c p \<and> shown X H P T c at p d))"

definition on_block :: "'body conc_task \<Rightarrow> block_id \<Rightarrow> string \<Rightarrow> bool" where
  "on_block T i m \<longleftrightarrow> (\<exists>ctx root n. ct_route T = RouteBlock ctx root n) \<and> request_block_id (ct_request T) = Some i \<and>
     req_method (ct_request T) = m \<and> ct_accepted T \<noteq> None"

definition pc_inv ::
    "'dk ext \<Rightarrow> 'body web_ext \<Rightarrow> ctx_heap set \<Rightarrow> (u64 option \<Rightarrow> instant \<Rightarrow> bool) \<Rightarrow> 'body conc_task \<Rightarrow> bool" where
  "pc_inv X W H P T = (case ct_pc T of
      AtGuard \<Rightarrow> ct_accepted T = None
    | AtToken c \<Rightarrow> creds_ok X T c \<and> ct_accepted T = None
    | AtRefresh c header alg _ _ \<Rightarrow> creds_ok X T c \<and> header_ok X c header alg \<and> ct_accepted T = None
    | AtRetry c header alg _ \<Rightarrow> creds_ok X T c \<and> header_ok X c header alg \<and> ct_accepted T = None
    | AtProof c at \<Rightarrow> creds_ok X T c \<and> token_good X H c at \<and> ct_accepted T = None
    | AtInsert c at p d \<Rightarrow> shown X H P T c at p d \<and> ct_accepted T = None
    | AtPush c at p d \<Rightarrow> ct_accepted T = Some (p, proof_key X c p, d)
    | AtHandler \<Rightarrow> guarded T \<longrightarrow> ct_accepted T \<noteq> None
    | AtGet i \<Rightarrow> on_block T i ''GET''
    | AtDelete i \<Rightarrow> on_block T i ''DELETE''
    | AtPut i b _ \<Rightarrow> on_block T i ''PUT'' \<and>
        put_admits (web_to_bytes W) (case ct_route T of RouteBlock _ _ n \<Rightarrow> n | _ \<Rightarrow> 0) (ct_request T) = Some b
    | Answered resp \<Rightarrow> (resp_status resp = 200 \<longrightarrow> ct_route T = RouteHealth \<or> ct_accepted T \<noteq> None) \<and>
        (resp_status resp = 204 \<longrightarrow> (\<exists>i. on_block T i ''PUT'' \<or> on_block T i ''DELETE''))
    | Dropped \<Rightarrow> True)"

definition task_inv ::
    "'dk ext \<Rightarrow> 'body web_ext \<Rightarrow> 'net booted \<Rightarrow> ctx_heap set \<Rightarrow> (u64 option \<Rightarrow> instant \<Rightarrow> bool) \<Rightarrow> 'body conc_task \<Rightarrow> bool" where
  "task_inv X W b H P T \<longleftrightarrow> route_ok b (ct_route T) \<and> accepted_ok X H P T \<and> pc_inv X W H P T"

lemma token_good_mono: "token_good X H c at \<Longrightarrow> H \<subseteq> H' \<Longrightarrow> token_good X H' c at"
  unfolding token_good_def by blast

lemma shown_mono: "shown X H P T c at p d \<Longrightarrow> H \<subseteq> H' \<Longrightarrow> shown X H' P T c at p d"
  using token_good_mono by (auto simp: shown_def)

lemma task_inv_mono:
  assumes "task_inv X W b H P T" and "H \<subseteq> H'"
  shows "task_inv X W b H' P T"
proof -
  have "accepted_ok X H' P T" using assms shown_mono unfolding task_inv_def accepted_ok_def by blast
  moreover have "pc_inv X W H' P T"
    using assms token_good_mono [OF _ assms(2)] shown_mono [OF _ assms(2)]
    by (auto simp: task_inv_def pc_inv_def split: request_pc.splits)
  ultimately show ?thesis using assms(1) by (simp add: task_inv_def)
qed

text \<open>The evidence depends on the route, the method and the credentials only.\<close>

lemma route_subject_simps [simp]:
  "req_method (route_subject rt sub r) = req_method r" "req_path (route_subject rt sub r) = req_path r"
  "req_body (route_subject rt sub r) = req_body r" "req_headers (route_subject rt sub r) = req_headers r"
  by (cases rt; simp)+

lemma credentials_of_subject [simp]: "credentials_of X a ctx (route_subject rt sub r) = credentials_of X a ctx r"
  by (cases rt; simp add: credentials_of_def extract_token_def extract_proof_def build_effective_uri_def header_str_def)

lemma request_block_id_subject [simp]: "request_block_id (route_subject rt sub r) = request_block_id r"
  by (simp add: request_block_id_def)

lemma creds_ok_cong:
  assumes "ct_route T' = ct_route T" and "ct_request T' = ct_request T \<or> ct_request T' = route_subject (ct_route T) sub (ct_request T)"
  shows "creds_ok X T' c = creds_ok X T c"
  using assms by (auto simp: creds_ok_def)

lemma shown_cong:
  assumes "ct_route T' = ct_route T" and "ct_request T' = ct_request T \<or> ct_request T' = route_subject (ct_route T) sub (ct_request T)"
  shows "shown X H P T' c at p d = shown X H P T c at p d"
  using assms creds_ok_cong [OF assms] by (auto simp: shown_def proof_good_def)

lemma accepted_ok_cong:
  assumes "ct_route T' = ct_route T" and "ct_request T' = ct_request T \<or> ct_request T' = route_subject (ct_route T) sub (ct_request T)"
    and "ct_accepted T' = ct_accepted T"
  shows "accepted_ok X H P T' = accepted_ok X H P T"
  unfolding accepted_ok_def assms(3) shown_cong [OF assms(1,2)] ..

lemma answer_simps [simp]:
  "ct_pc (answer resp T) = Answered resp" "ct_route (answer resp T) = ct_route T" "ct_request (answer resp T) = ct_request T"
  "ct_accepted (answer resp T) = ct_accepted T" "ct_gone (answer resp T) = ct_gone T"
  by (simp_all add: answer_def)

lemma failure_status [simp]: "resp_status (failure_response f) \<noteq> 200" "resp_status (failure_response f) \<noteq> 204"
  by (simp_all add: handler_defs)

lemma pc_inv_failure [simp]: "pc_inv X W H P (answer (failure_response f) T)"
  by (simp add: pc_inv_def)

lemma credentials_of_parts:
  assumes "credentials_of X a ctx r = Inr c"
  shows "cr_addr c = a" "cr_ctx c = ctx" "extract_token r = Inr (cr_token c)" "extract_proof r = Inr (cr_proof c)"
    "build_effective_uri X r = Inr (cr_uri c)"
  using assms by (auto simp: credentials_of_def bind_result_def split: sum.splits)

lemma pc_inv_claims_checked:
  assumes "creds_ok X T c" and "ct_accepted T = None" and "header_ok X c header alg" and "h \<in> H"
    and "token_attempt X h c header alg = Inr claims"
  shows "pc_inv X W H P (claims_checked X clock c claims T)"
proof (cases "check_token_claims X clock (cr_ctx c) claims")
  case (Inl f)
  then show ?thesis by (simp add: claims_checked_def)
next
  case (Inr at)
  then have "token_good X H c at" using assms(3-5) unfolding token_good_def by blast
  then show ?thesis using Inr assms(1,2) by (simp add: claims_checked_def pc_inv_def creds_ok_def)
qed

lemma pc_inv_block_start:
  assumes "guarded T \<longrightarrow> ct_accepted T \<noteq> None" and "ct_route T = RouteBlock ctx root n"
  shows "pc_inv X W H P (block_start W root n T)"
  using assms
  by (auto simp: block_start_def pc_inv_def on_block_def guarded_def block_methods_def Let_def handler_defs split: option.splits)

lemma pc_inv_handler_start:
  assumes "guarded T \<longrightarrow> ct_accepted T \<noteq> None"
  shows "pc_inv X W H P (handler_start W S T)"
proof (cases "ct_route T")
  case (RouteBlock ctx root n)
  then show ?thesis using pc_inv_block_start [OF assms RouteBlock] by (simp add: handler_start_def)
qed (use assms in \<open>auto simp: handler_start_def pc_inv_def guarded_def handler_defs split: option.splits if_splits\<close>)

text \<open>A step keeps the route, the request up to its subject, and what was accepted.\<close>

lemma guard_start_keeps [simp]:
  "ct_route (guard_start X T) = ct_route T" "ct_request (guard_start X T) = ct_request T"
  "ct_accepted (guard_start X T) = ct_accepted T"
  by (simp_all add: guard_start_def split: option.splits prod.splits sum.splits)

lemma claims_checked_keeps [simp]:
  "ct_route (claims_checked X clock c claims T) = ct_route T" "ct_request (claims_checked X clock c claims T) = ct_request T"
  "ct_accepted (claims_checked X clock c claims T) = ct_accepted T"
  by (simp_all add: claims_checked_def split: sum.splits)

lemma token_step_keeps [simp]:
  "ct_route (token_step X clock h c T) = ct_route T" "ct_request (token_step X clock h c T) = ct_request T"
  "ct_accepted (token_step X clock h c T) = ct_accepted T"
  by (simp_all add: token_step_def split: sum.splits prod.splits)

lemma on_demand_outcomes:
  assumes "on_demand_step X clock http c header alg e pc T S = (T', S')"
  obtains (panicked) "refresh_call X clock http pc (sh_contexts S) (cr_addr c) = Panics" "T' = T\<lparr>ct_pc := Dropped\<rparr>" "S' = S"
  | (goes_on) pc' h where "refresh_call X clock http pc (sh_contexts S) (cr_addr c) = Returns (Inl pc', h)"
      "T' = T\<lparr>ct_pc := AtRefresh c header alg e pc'\<rparr>" "S' = S\<lparr>sh_contexts := h\<rparr>"
  | (retries) h where "refresh_call X clock http pc (sh_contexts S) (cr_addr c) = Returns (Inr True, h)"
      "T' = T\<lparr>ct_pc := AtRetry c header alg e\<rparr>" "S' = S\<lparr>sh_contexts := h\<rparr>"
  | (gives_up) h where "refresh_call X clock http pc (sh_contexts S) (cr_addr c) = Returns (Inr False, h)"
      "T' = answer (failure_response e) T" "S' = S\<lparr>sh_contexts := h\<rparr>"
  using assms that by (auto simp: on_demand_step_def split: outcome.splits prod.splits sum.splits if_splits)

lemma request_step_refresh:
  "ct_pc T = AtRefresh c header alg e pc \<Longrightarrow>
   request_step X W E T S = on_demand_step X (se_clock E) (se_http E) c header alg e pc T S"
  by (simp add: request_step_def)

lemma retry_step_keeps [simp]:
  "ct_route (retry_step X clock h c header alg e T) = ct_route T"
  "ct_request (retry_step X clock h c header alg e T) = ct_request T"
  "ct_accepted (retry_step X clock h c header alg e T) = ct_accepted T"
  by (simp_all add: retry_step_def split: sum.splits)

lemma proof_step_keeps [simp]:
  "ct_route (proof_step X clock now c at T) = ct_route T" "ct_request (proof_step X clock now c at T) = ct_request T"
  "ct_accepted (proof_step X clock now c at T) = ct_accepted T"
  by (simp_all add: proof_step_def split: sum.splits option.splits)

lemma block_start_keeps [simp]:
  "ct_route (block_start W root n T) = ct_route T" "ct_request (block_start W root n T) = ct_request T"
  "ct_accepted (block_start W root n T) = ct_accepted T"
  by (simp_all add: block_start_def Let_def split: option.splits)

lemma handler_start_keeps [simp]:
  "ct_route (handler_start W S T) = ct_route T" "ct_request (handler_start W S T) = ct_request T"
  "ct_accepted (handler_start W S T) = ct_accepted T"
  by (cases "ct_route T"; simp add: handler_start_def split: outcome.splits prod.splits)+

lemma insert_outcomes:
  assumes "insert_step X c at p d T R = (T', R')"
  obtains (accepted) st where "try_insert_entries (sys_store R) (proof_key X c p) d = (Inr (), st)"
      "T' = T\<lparr>ct_pc := AtPush c at p d, ct_accepted := Some (p, proof_key X c p, d)\<rparr>"
      "R' = R\<lparr>sys_store := st, sys_pushing := add_mset (d, proof_key X c p) (sys_pushing R)\<rparr>"
  | (refused) e f where "try_insert_entries (sys_store R) (proof_key X c p) d = (Inl e, sys_store R')"
      "T' = answer (failure_response f) T" "R' = R\<lparr>sys_store := sys_store R'\<rparr>"
proof -
  obtain res st where i: "try_insert_entries (sys_store R) (proof_key X c p) d = (res, st)" by force
  show thesis
  proof (cases res)
    case (Inl e)
    then show thesis using assms i refused by (cases e) (auto simp: insert_step_def)
  next
    case (Inr u)
    then show thesis using assms i accepted by (auto simp: insert_step_def Let_def)
  qed
qed

lemma request_step_keeps:
  assumes "request_step X W E T S = (T', S')"
  shows "ct_route T' = ct_route T"
    and "ct_request T' = ct_request T \<or> (\<exists>sub. ct_request T' = route_subject (ct_route T) sub (ct_request T))"
    and "ct_accepted T' = ct_accepted T \<or> (\<exists>c at p d. ct_pc T = AtInsert c at p d \<and> ct_accepted T' = Some (p, proof_key X c p, d) \<and>
      ct_request T' = ct_request T)"
proof -
  have "ct_route T' = ct_route T \<and> (ct_request T' = ct_request T \<or> (\<exists>sub. ct_request T' = route_subject (ct_route T) sub (ct_request T))) \<and>
    (ct_accepted T' = ct_accepted T \<or> (\<exists>c at p d. ct_pc T = AtInsert c at p d \<and> ct_accepted T' = Some (p, proof_key X c p, d) \<and>
      ct_request T' = ct_request T))"
  proof (cases "ct_pc T")
    case (AtInsert c at p d)
    then obtain R where "insert_step X c at p d T (sh_replay S) = (T', R)"
      using assms by (auto simp: request_step_def split: prod.splits)
    then show ?thesis using AtInsert by (cases rule: insert_outcomes) auto
  next
    case (AtRefresh c header alg e pc)
    from assms [unfolded request_step_refresh [OF AtRefresh]] show ?thesis by (cases rule: on_demand_outcomes) simp_all
  next
    case (AtDelete i)
    then show ?thesis using assms by (auto simp: request_step_def delete_step_def split: prod.splits)
  next
    case (AtPut i b pc)
    then show ?thesis using assms by (auto simp: request_step_def put_step_def split: prod.splits put_pc.splits)
  next
    case (AtPush c at p d)
    then show ?thesis using assms by (auto simp: request_step_def push_step_def Let_def)
  qed (use assms in \<open>auto simp: request_step_def\<close>)
  then show "ct_route T' = ct_route T"
    and "ct_request T' = ct_request T \<or> (\<exists>sub. ct_request T' = route_subject (ct_route T) sub (ct_request T))"
    and "ct_accepted T' = ct_accepted T \<or> (\<exists>c at p d. ct_pc T = AtInsert c at p d \<and> ct_accepted T' = Some (p, proof_key X c p, d) \<and>
      ct_request T' = ct_request T)" by blast+
qed

lemma evidence_updates [simp]:
  "creds_ok X (T\<lparr>ct_pc := pc\<rparr>) c = creds_ok X T c" "creds_ok X (T\<lparr>ct_accepted := acc\<rparr>) c = creds_ok X T c"
  "shown X H P (T\<lparr>ct_pc := pc\<rparr>) c at p d = shown X H P T c at p d"
  "guarded (T\<lparr>ct_pc := pc\<rparr>) = guarded T" "on_block (T\<lparr>ct_pc := pc\<rparr>) i m = on_block T i m"
  "on_block (answer resp T) i m = on_block T i m"
  by (simp_all add: creds_ok_def shown_def proof_good_def guarded_def on_block_def answer_def
      cong: option.case_cong)

lemma pc_inv_guard_start:
  assumes "ct_accepted T = None"
  shows "pc_inv X W H P (guard_start X T)"
proof -
  consider "route_guard (ct_route T) = None"
    | a ctx methods where "route_guard (ct_route T) = Some (a, ctx, methods)" "req_method (ct_request T) \<notin> set methods"
    | a ctx methods f where "route_guard (ct_route T) = Some (a, ctx, methods)" "req_method (ct_request T) \<in> set methods"
        "credentials_of X a ctx (ct_request T) = Inl f"
    | a ctx methods c where "route_guard (ct_route T) = Some (a, ctx, methods)" "req_method (ct_request T) \<in> set methods"
        "credentials_of X a ctx (ct_request T) = Inr c"
    by (metis old.prod.exhaust option.exhaust sum.exhaust)
  then show ?thesis
  proof cases
    case 4
    then have "creds_ok X T c" using credentials_of_parts(1,2) [OF 4(3)] by (auto simp: creds_ok_def)
    then show ?thesis using 4 assms by (simp add: guard_start_def pc_inv_def)
  qed (simp_all add: guard_start_def pc_inv_def guarded_def)
qed

lemma pc_inv_token_step:
  assumes "creds_ok X T c" and "ct_accepted T = None" and "h \<in> H"
  shows "pc_inv X W H P (token_step X clock h c T)"
proof -
  consider f where "token_step X clock h c T = answer (failure_response f) T"
    | header alg where "header_ok X c header alg" "token_step X clock h c T =
        (case token_attempt X h c header alg of
           Inr claims \<Rightarrow> claims_checked X clock c claims T
         | Inl first_err \<Rightarrow> T\<lparr>ct_pc := AtRefresh c header alg first_err RLoad\<rparr>)"
  proof (cases "jwt_decode_header X (cr_token c)")
    case (Inl e)
    then show thesis using that(1) by (simp add: token_step_def)
  next
    case (Inr header)
    show thesis
    proof (cases "allowlist_alg (hdr_alg header)")
      case (Inl f)
      then show thesis using Inr that(1) by (simp add: token_step_def)
    next
      case (Inr alg)
      note hd = \<open>jwt_decode_header X (cr_token c) = Inr header\<close>
      have "header_ok X c header alg" using hd Inr allowlist_alg_iff by (simp add: header_ok_def)
      moreover have "bind_result (map_err (\<lambda>_. InvalidAlg) (jwt_decode_header X (cr_token c))) (\<lambda>header.
          bind_result (allowlist_alg (hdr_alg header)) (\<lambda>alg. Inr (header, alg))) = Inr (header, alg)"
        using hd Inr by simp
      ultimately show thesis using that(2) by (simp add: token_step_def)
    qed
  qed
  then show ?thesis
  proof cases
    case 2
    then show ?thesis
      using pc_inv_claims_checked [OF assms(1,2) 2(1) assms(3)] assms(1,2)
      by (cases "token_attempt X h c header alg") (simp_all, simp add: pc_inv_def)
  qed simp
qed

lemma pc_inv_proof_step:
  assumes "creds_ok X T c" and "token_good X H c at" and "ct_accepted T = None" and "P clock now"
  shows "pc_inv X W H P (proof_step X clock now c at T)"
proof -
  consider f where "proof_step X clock now c at T = answer (failure_response f) T"
    | p d where "check_proof X clock (cr_ctx c) (cr_proof c) (req_method (ct_request T)) (cr_uri c) at (cr_token c) = Inr p"
        "instant_checked_add now (jti_replay_window_secs (ctx_auth_config (cr_ctx c))) = Some d"
        "proof_step X clock now c at T = T\<lparr>ct_pc := AtInsert c at p d\<rparr>"
    by (fastforce simp: proof_step_def split: sum.splits option.splits)
  then show ?thesis
  proof cases
    case 2
    then have "proof_good X P T c at p d"
      using assms(4) instant_checked_add_Some [OF 2(2)] by (auto simp: proof_good_def)
    then show ?thesis using 2(3) assms(1-3) by (simp add: pc_inv_def) (simp add: shown_def)
  qed simp
qed

lemma pc_inv_step:
  assumes "request_step X W E T S = (T', S')" and "task_inv X W b H P T" and "sh_contexts S \<in> H"
    and "P (se_clock E) (sh_now S)"
  shows "pc_inv X W H P T'"
proof -
  have inv: "pc_inv X W H P T" using assms(2) by (simp add: task_inv_def)
  show ?thesis
  proof (cases "ct_pc T")
    case AtGuard
    then show ?thesis using assms(1) inv pc_inv_guard_start by (auto simp: request_step_def pc_inv_def [of X W H P T])
  next
    case (AtToken c)
    then show ?thesis
      using assms(1) inv pc_inv_token_step [OF _ _ assms(3)] by (auto simp: request_step_def pc_inv_def [of X W H P T])
  next
    case (AtRefresh c header alg e pc)
    with inv have evidence: "creds_ok X T c" "header_ok X c header alg" "ct_accepted T = None" by (simp_all add: pc_inv_def)
    from assms(1) [unfolded request_step_refresh [OF AtRefresh]] show ?thesis
      by (cases rule: on_demand_outcomes) (simp_all, simp_all add: evidence pc_inv_def)
  next
    case (AtRetry c header alg e)
    then show ?thesis
      using assms(1) inv pc_inv_claims_checked [OF _ _ _ assms(3)]
      by (auto simp: request_step_def retry_step_def pc_inv_def [of X W H P T] split: sum.splits)
  next
    case (AtProof c at)
    then show ?thesis
      using assms(1) inv pc_inv_proof_step [of X T c H at P, OF _ _ _ assms(4)] by (auto simp: request_step_def pc_inv_def [of X W H P T])
  next
    case (AtInsert c at p d)
    then obtain R where "insert_step X c at p d T (sh_replay S) = (T', R)"
      using assms(1) by (auto simp: request_step_def split: prod.splits)
    then show ?thesis by (cases rule: insert_outcomes) (simp_all, simp add: pc_inv_def)
  next
    case (AtPush c at p d)
    then show ?thesis using assms(1) inv by (auto simp: request_step_def push_step_def Let_def pc_inv_def)
  next
    case AtHandler
    then have "guarded T \<longrightarrow> ct_accepted T \<noteq> None" "T' = handler_start W S T"
      using assms(1) inv by (auto simp: request_step_def pc_inv_def)
    then show ?thesis using pc_inv_handler_start by blast
  next
    case (AtGet i)
    then show ?thesis using assms(1) inv
      by (auto simp: request_step_def get_reply_def pc_inv_def on_block_def handler_defs split: sum.splits storage_error.splits)
  next
    case (AtDelete i)
    then have "on_block T i ''DELETE''" "\<exists>resp. T' = answer resp T \<and> resp_status resp \<noteq> 200"
      using assms(1) inv
      by (auto simp: request_step_def delete_step_def delete_reply_def pc_inv_def handler_defs
          split: prod.splits sum.splits storage_error.splits)
    then show ?thesis by (auto simp: pc_inv_def)
  next
    case (AtPut i b' pc)
    then have "on_block T i ''PUT''" "(\<exists>resp. T' = answer resp T \<and> resp_status resp \<noteq> 200) \<or> (\<exists>pc'. T' = T\<lparr>ct_pc := AtPut i b' pc'\<rparr>)"
      using assms(1) inv
      by (auto simp: request_step_def put_step_def put_reply_def pc_inv_def handler_defs
          split: prod.splits put_pc.splits sum.splits)
    then show ?thesis using inv AtPut by (auto simp: pc_inv_def)
  qed (use assms(1) inv in \<open>auto simp: request_step_def\<close>)
qed

lemma task_inv_step:
  assumes "request_step X W E T S = (T', S')" and "task_inv X W b H P T" and "sh_contexts S \<in> H"
    and "P (se_clock E) (sh_now S)"
  shows "task_inv X W b H P T'"
proof -
  note keeps = request_step_keeps [OF assms(1)]
  have "accepted_ok X H P T'"
    using keeps(3)
  proof (elim disjE exE conjE)
    assume "ct_accepted T' = ct_accepted T"
    then show ?thesis using accepted_ok_cong [OF keeps(1)] keeps(2) assms(2) unfolding task_inv_def by metis
  next
    fix c at p d assume i: "ct_pc T = AtInsert c at p d" "ct_accepted T' = Some (p, proof_key X c p, d)" "ct_request T' = ct_request T"
    have "shown X H P T c at p d" using assms(2) i(1) by (simp add: task_inv_def pc_inv_def)
    then have "shown X H P T' c at p d" using shown_cong [OF keeps(1)] i(3) by blast
    then show ?thesis using i(2) by (auto simp: accepted_ok_def)
  qed
  then show ?thesis using pc_inv_step [OF assms] assms(2) keeps(1) by (simp add: task_inv_def)
qed

lemma cancel_step_keeps [simp]:
  "ct_route (cancel_step T) = ct_route T" "ct_request (cancel_step T) = ct_request T" "ct_accepted (cancel_step T) = ct_accepted T"
  by (cases "ct_pc T"; simp add: cancel_step_def)+

lemma cancel_step_push: "ct_pc (cancel_step T) = AtPush c at p d \<longleftrightarrow> ct_pc T = AtPush c at p d"
  by (auto simp: cancel_step_def split: request_pc.splits)

lemma task_inv_cancel: "task_inv X W b H P T \<Longrightarrow> task_inv X W b H P (cancel_step T)"
  by (auto simp: task_inv_def cancel_step_def accepted_ok_def shown_def creds_ok_def proof_good_def pc_inv_def on_block_def
      guarded_def split: request_pc.splits)

subsection \<open>The replay store\<close>

lemma try_insert_entries_refused: "try_insert_entries st k d = (Inl e, st') \<Longrightarrow> st' = st"
  by (auto simp: try_insert_entries_def Let_def split: if_splits)

lemma pc_after_claims [simp]: "ct_pc (claims_checked X clock c claims T) \<noteq> AtPush c' at p d"
  by (simp add: claims_checked_def split: sum.splits)

lemma pc_after_handler [simp]: "ct_pc (handler_start W S T) \<noteq> AtPush c' at p d"
  by (cases "ct_route T"; simp add: handler_start_def block_start_def Let_def split: outcome.splits prod.splits option.splits)

text \<open>The steps of a request that touch the replay store are the two halves of the insertion.\<close>

lemma request_step_replay:
  assumes "request_step X W E T S = (T', S')"
  obtains (same) "sh_replay S' = sh_replay S" "\<And>c at p d. ct_pc T \<noteq> AtPush c at p d" "\<And>c at p d. ct_pc T' \<noteq> AtPush c at p d"
      "ct_accepted T' = ct_accepted T"
  | (inserted) c at p d st where "ct_pc T = AtInsert c at p d" "ct_pc T' = AtPush c at p d"
      "try_insert_entries (sys_store (sh_replay S)) (proof_key X c p) d = (Inr (), st)"
      "sh_replay S' = (sh_replay S)\<lparr>sys_store := st, sys_pushing := add_mset (d, proof_key X c p) (sys_pushing (sh_replay S))\<rparr>"
      "ct_accepted T' = Some (p, proof_key X c p, d)"
  | (pushed) c at p d where "ct_pc T = AtPush c at p d" "ct_pc T' = AtHandler" "ct_accepted T' = ct_accepted T"
      "sh_replay S' = (sh_replay S)\<lparr>sys_store := try_insert_push (sys_store (sh_replay S)) (proof_key X c p) d,
         sys_pushing := sys_pushing (sh_replay S) - {#(d, proof_key X c p)#}\<rparr>"
proof (cases "ct_pc T")
  case (AtInsert c at p d)
  then obtain R where R: "insert_step X c at p d T (sh_replay S) = (T', R)" "S' = S\<lparr>sh_replay := R\<rparr>"
    using assms by (auto simp: request_step_def split: prod.splits)
  from R(1) show thesis
  proof (cases rule: insert_outcomes)
    case (accepted st)
    then show thesis using inserted [of c at p d st] AtInsert R(2) by simp
  next
    case (refused e f)
    then have "sys_store R = sys_store (sh_replay S)" using try_insert_entries_refused by blast
    then have "R = sh_replay S" using refused(3) by (metis replay_sys.surjective replay_sys.update_convs(1))
    then show thesis using same refused(2) R(2) AtInsert by simp
  qed
next
  case (AtPush c at p d)
  then show thesis using assms pushed [of c at p d] by (auto simp: request_step_def push_step_def Let_def)
next
  case (AtRefresh c header alg e pc)
  from assms [unfolded request_step_refresh [OF AtRefresh]] show thesis
    by (cases rule: on_demand_outcomes) (rule same; simp add: AtRefresh)+
next
  case (AtDelete i)
  then show thesis using assms same by (auto simp: request_step_def delete_step_def split: prod.splits)
next
  case (AtPut i b pc)
  then show thesis using assms same by (auto simp: request_step_def put_step_def split: prod.splits put_pc.splits)
next
  case AtGuard
  then show thesis using assms same
    by (auto simp: request_step_def guard_start_def split: option.splits if_splits sum.splits)
next
  case (AtToken c)
  then show thesis using assms same
    by (auto simp: request_step_def token_step_def split: sum.splits)
next
  case (AtRetry c header alg e)
  then show thesis using assms same
    by (auto simp: request_step_def retry_step_def split: sum.splits)
next
  case (AtProof c at)
  then show thesis using assms same
    by (auto simp: request_step_def proof_step_def split: sum.splits option.splits)
next
  case AtHandler
  then show thesis using assms same by (auto simp: request_step_def)
qed (use assms same in \<open>auto simp: request_step_def\<close>)

definition pushes_ok :: "'dk ext \<Rightarrow> 'body conc_state \<Rightarrow> bool" where
  "pushes_ok X S \<longleftrightarrow>
     (\<forall>k T c at p d. cs_tasks S k = Some T \<longrightarrow> ct_pc T = AtPush c at p d \<longrightarrow>
        (d, proof_key X c p) \<in># sys_pushing (sh_replay (cs_shared S))) \<and>
     (\<forall>k l T U c at p d c' at' p' d'. k \<noteq> l \<longrightarrow> cs_tasks S k = Some T \<longrightarrow> cs_tasks S l = Some U \<longrightarrow>
        ct_pc T = AtPush c at p d \<longrightarrow> ct_pc U = AtPush c' at' p' d' \<longrightarrow> proof_key X c p \<noteq> proof_key X c' p')"

definition replay_ok :: "'dk ext \<Rightarrow> auth_config \<Rightarrow> 'body conc_state \<Rightarrow> bool" where
  "replay_ok X cfg S \<longleftrightarrow> sys_inv cfg (sh_replay (cs_shared S)) \<and> pushes_ok X S \<and>
     (\<forall>now ks. (now, ks) \<in># sys_removing (sh_replay (cs_shared S)) \<longrightarrow> now \<le> sh_now (cs_shared S))"

lemma replay_okD:
  assumes "replay_ok X cfg S"
  shows "sys_inv cfg (sh_replay (cs_shared S))" and "pushes_ok X S"
    and "(now, ks) \<in># sys_removing (sh_replay (cs_shared S)) \<Longrightarrow> now \<le> sh_now (cs_shared S)"
  using assms by (auto simp: replay_ok_def)

text \<open>A new key is in the custody of no other insertion.\<close>

lemma pushing_in_map:
  assumes "sys_inv cfg R" and "(d, k) \<in># sys_pushing R"
  shows "map_of (rs_entries (sys_store R)) k = Some d"
  using assms by (auto simp: sys_inv_def)

lemma pushing_key_unique:
  assumes "sys_inv cfg R" and "(d, k) \<in># sys_pushing R" and "(d', k) \<in># sys_pushing R"
  shows "d' = d"
  using pushing_in_map [OF assms(1,2)] pushing_in_map [OF assms(1,3)] by simp

lemma inserted_key_new:
  assumes "try_insert_entries st k d = (Inr (), st')"
  shows "map_of (rs_entries st) k = None"
  using assms by (auto simp: try_insert_entries_def Let_def split: if_splits)

lemma replay_ok_request:
  assumes "request_step X W E T (cs_shared S) = (T', S')" and "cs_tasks S k = Some T" and "replay_ok X cfg S"
    and "sh_now S' = sh_now (cs_shared S)"
  shows "replay_ok X cfg \<lparr>cs_shared = S', cs_tasks = (cs_tasks S)(k \<mapsto> T')\<rparr>"
  using assms(1)
proof (cases rule: request_step_replay)
  case same
  then show ?thesis using assms(2-4) by (auto simp: replay_ok_def pushes_ok_def)
next
  case (inserted c at p d st)
  let ?key = "proof_key X c p"
  note inv = replay_okD(1) [OF assms(3)] and new = inserted_key_new [OF inserted(3)]
  have fresh: "proof_key X c' p' \<noteq> ?key" if "cs_tasks S l = Some U" "ct_pc U = AtPush c' at' p' d'" for l U c' at' p' d'
  proof -
    have "(d', proof_key X c' p') \<in># sys_pushing (sh_replay (cs_shared S))"
      using replay_okD(2) [OF assms(3)] that unfolding pushes_ok_def by blast
    then show ?thesis using pushing_in_map [OF inv] new by fastforce
  qed
  have "pushes_ok X \<lparr>cs_shared = S', cs_tasks = (cs_tasks S)(k \<mapsto> T')\<rparr>"
    using replay_okD(2) [OF assms(3)] inserted(2,4) fresh by (fastforce simp: pushes_ok_def)
  then show ?thesis
    using sys_inv_insert [OF inv inserted(3)] inserted(4) replay_okD(3) [OF assms(3)] assms(4) by (simp add: replay_ok_def)
next
  case (pushed c at p d)
  let ?key = "proof_key X c p"
  note inv = replay_okD(1) [OF assms(3)] and ok = replay_okD(2) [OF assms(3), unfolded pushes_ok_def]
  have "(d, ?key) \<in># sys_pushing (sh_replay (cs_shared S))" using ok assms(2) pushed(1) by blast
  then obtain P where P: "sys_pushing (sh_replay (cs_shared S)) = add_mset (d, ?key) P" by (metis multi_member_split)
  have other: "(d', proof_key X c' p') \<in># P" if "cs_tasks S l = Some U" "ct_pc U = AtPush c' at' p' d'" "l \<noteq> k" for l U c' at' p' d'
  proof -
    have "proof_key X c' p' \<noteq> ?key" using ok that assms(2) pushed(1) by metis
    moreover have "(d', proof_key X c' p') \<in># sys_pushing (sh_replay (cs_shared S))" using ok that(1,2) by blast
    ultimately show ?thesis using P by simp
  qed
  have "pushes_ok X \<lparr>cs_shared = S', cs_tasks = (cs_tasks S)(k \<mapsto> T')\<rparr>"
    using ok pushed(2,4) P other by (auto simp: pushes_ok_def)
  then show ?thesis
    using sys_inv_push [OF inv P] pushed(4) P replay_okD(3) [OF assms(3)] assms(4) by (simp add: replay_ok_def)
qed

lemma request_step_shared:
  assumes "request_step X W E T S = (T', S')"
  shows "sh_now S' = sh_now S" and "sh_jobs S' = sh_jobs S"
proof -
  have "sh_now S' = sh_now S \<and> sh_jobs S' = sh_jobs S"
  proof (cases "ct_pc T")
    case (AtRefresh c header alg e pc)
    from assms [unfolded request_step_refresh [OF AtRefresh]] show ?thesis by (cases rule: on_demand_outcomes) simp_all
  qed (use assms in \<open>auto simp: request_step_def split: prod.splits\<close>)
  then show "sh_now S' = sh_now S" and "sh_jobs S' = sh_jobs S" by blast+
qed

lemmas request_step_now = request_step_shared(1)

lemma replay_ok_step:
  assumes "conc_step X W nc b S ev S'" and "replay_ok X cfg S"
  shows "replay_ok X cfg S'"
  using assms(1)
proof cases
  case (step_drain R)
  have "sys_pushing R = sys_pushing (sh_replay (cs_shared S))"
    "\<And>now ks. (now, ks) \<in># sys_removing R \<Longrightarrow> (now, ks) \<in># sys_removing (sh_replay (cs_shared S)) \<or> now = sh_now (cs_shared S)"
    using step_drain(3) by (auto elim: store_step.cases)
  then show ?thesis
    using step_drain sys_inv_step [OF step_drain(3)] assms(2) by (fastforce simp: replay_ok_def pushes_ok_def)
next
  case (step_remove now R)
  have "sys_pushing R = sys_pushing (sh_replay (cs_shared S))"
    "\<And>now ks. (now, ks) \<in># sys_removing R \<Longrightarrow> (now, ks) \<in># sys_removing (sh_replay (cs_shared S))"
    using step_remove(3) by (auto elim: store_step.cases)
  then show ?thesis
    using step_remove sys_inv_step [OF step_remove(3)] assms(2) by (fastforce simp: replay_ok_def pushes_ok_def)
next
  case (step_request k T E T' S1)
  then show ?thesis using replay_ok_request [OF step_request(4,3) assms(2)] request_step_now by metis
next
  case (step_time n)
  then show ?thesis using assms(2) by (fastforce simp: replay_ok_def pushes_ok_def)
next
  case (step_cancel k T)
  then have "pushes_ok X S'" using assms(2) by (simp add: replay_ok_def pushes_ok_def cancel_step_push)
  then show ?thesis using assms(2) step_cancel by (simp add: replay_ok_def)
qed (use assms(2) in \<open>auto simp: replay_ok_def pushes_ok_def\<close>)

subsection \<open>The requests\<close>

definition heaps :: "('body conc_state \<times> 'body event) list \<Rightarrow> 'body conc_state \<Rightarrow> ctx_heap set" where
  "heaps tr S = insert (sh_contexts (cs_shared S)) ((\<lambda>(S', _). sh_contexts (cs_shared S')) ` set tr)"

lemma heaps_snoc: "heaps (tr @ [(S, ev)]) S' = insert (sh_contexts (cs_shared S')) (heaps tr S)"
  by (auto simp: heaps_def)

definition clocked :: "('body conc_state \<Rightarrow> 'body event \<Rightarrow> bool) \<Rightarrow> (u64 option \<Rightarrow> instant \<Rightarrow> bool) \<Rightarrow> bool" where
  "clocked ok P \<longleftrightarrow> (\<forall>S k E. ok S (EvStep k E) \<longrightarrow> P (se_clock E) (sh_now (cs_shared S)))"

lemma route_of_ok: "route_ok b (route_of W b r)"
proof (cases "Option.bind (web_route W (map fst (route_table b)) (req_path r)) (map_of (route_table b))")
  case None
  then show ?thesis by (simp add: route_of_def route_ok_def)
next
  case (Some rt)
  then have "rt \<in> snd ` set (route_table b)" by (force simp: bind_eq_Some_conv dest: map_of_SomeD)
  then show ?thesis using Some by (auto simp: route_of_def route_table_def route_ok_def split: option.splits)
qed

lemma tasks_inv:
  assumes "conc_run X W nc b ok S0 tr S" and "clocked ok P" and "cs_tasks S0 = Map.empty"
  shows "cs_tasks S k = Some T \<Longrightarrow> task_inv X W b (heaps tr S) P T"
  using assms(1)
proof (induction arbitrary: k T rule: conc_run.induct)
  case conc_nil
  then show ?case using assms(3) by simp
next
  case (conc_snoc tr S ev S')
  have mono: "heaps tr S \<subseteq> heaps (tr @ [(S, ev)]) S'" by (auto simp: heaps_snoc)
  have "task_inv X W b (heaps tr S) P T"
    using conc_snoc.hyps(3)
  proof cases
    case (step_arrive k' r' r)
    show ?thesis
    proof (cases "k = k'")
      case True
      then show ?thesis using step_arrive conc_snoc.prems route_of_ok
        by (auto simp: task_inv_def accepted_ok_def pc_inv_def)
    qed (use step_arrive conc_snoc.prems conc_snoc.IH in auto)
  next
    case (step_request k' U E U' S1)
    have "P (se_clock E) (sh_now (cs_shared S))"
      using conc_snoc.hyps(2) assms(2) step_request(1) unfolding clocked_def by blast
    then have "task_inv X W b (heaps tr S) P U'"
      using task_inv_step [OF step_request(4) conc_snoc.IH [OF step_request(3)], of] by (simp add: heaps_def)
    then show ?thesis using step_request(2) conc_snoc.prems conc_snoc.IH by (cases "k = k'") auto
  next
    case (step_cancel k' U)
    have "task_inv X W b (heaps tr S) P (cancel_step U)" using conc_snoc.IH [OF step_cancel(3)] by (rule task_inv_cancel)
    then show ?thesis using step_cancel(2) conc_snoc.prems conc_snoc.IH by (cases "k = k'") auto
  qed (use conc_snoc in auto)
  then show ?case using mono by (rule task_inv_mono)
qed

interpretation replay_runs: run_invariant X W nc b ok "\<lambda>_. replay_ok X cfg"
  for X :: "'dk ext" and W :: "'body web_ext" and nc :: "'net \<Rightarrow> ip_addr \<Rightarrow> bool" and b ok cfg
  by unfold_locales (rule replay_ok_step)

lemmas run_replay_ok = replay_runs.inv_run

subsection \<open>An accepted identifier stays in the store until its deadline\<close>

definition kept :: "'body conc_state \<Rightarrow> bool" where
  "kept S \<longleftrightarrow> (\<forall>k T p key d. cs_tasks S k = Some T \<longrightarrow> ct_accepted T = Some (p, key, d) \<longrightarrow> sh_now (cs_shared S) < d \<longrightarrow>
     map_of (rs_entries (sys_store (sh_replay (cs_shared S)))) key = Some d)"

lemma keptD:
  "kept S \<Longrightarrow> cs_tasks S k = Some T \<Longrightarrow> ct_accepted T = Some (p, key, d) \<Longrightarrow> sh_now (cs_shared S) < d \<Longrightarrow>
   map_of (rs_entries (sys_store (sh_replay (cs_shared S)))) key = Some d"
  unfolding kept_def by blast

lemma kept_store_step:
  assumes "store_step (sh_replay (cs_shared S)) l R" and "replay_ok X cfg S" and "kept S"
    and "\<And>now. l = LRemove now \<Longrightarrow> now \<le> sh_now (cs_shared S)"
    and "cs_tasks S k = Some T" and "ct_accepted T = Some (p, key, d)" and "sh_now (cs_shared S) < d"
  shows "map_of (rs_entries (sys_store R)) key = Some d"
  by (rule entry_kept_step [OF replay_okD(1) [OF assms(2)] assms(1) keptD [OF assms(3,5-7)]])
    (use assms(4,7) le_less_trans in blast)

lemma kept_step:
  assumes "conc_step X W nc b S ev S'" and "replay_ok X cfg S" and "kept S"
  shows "kept S'"
  using assms(1)
proof cases
  case (step_drain R)
  show ?thesis unfolding kept_def
    using step_drain(2) kept_store_step [OF step_drain(3) assms(2,3)] by auto
next
  case (step_remove now R)
  obtain ks R0 where "sys_removing (sh_replay (cs_shared S)) = add_mset (now, ks) R0"
    using step_remove(3) by (rule store_step_removeE)
  then have "now \<le> sh_now (cs_shared S)" using replay_okD(3) [OF assms(2), of now ks] by simp
  then show ?thesis unfolding kept_def
    using step_remove(2) kept_store_step [OF step_remove(3) assms(2,3)] by auto
next
  case (step_request k T E T' S1)
  have now: "sh_now S1 = sh_now (cs_shared S)" using step_request(4) by (rule request_step_now)
  have S': "cs_shared S' = S1" "cs_tasks S' = (cs_tasks S)(k \<mapsto> T')" using step_request(2) by simp_all
  from step_request(4) show ?thesis
  proof (cases rule: request_step_replay)
    case same
    then show ?thesis using assms(3) step_request(3) S' now unfolding kept_def by (auto split: if_splits)
  next
    case (inserted c at p d st)
    have i: "store_step (sh_replay (cs_shared S)) (LInsert (proof_key X c p) d (Inr ())) (sh_replay S1)"
      unfolding inserted(4) by (rule store_step.insert_entry [OF inserted(3)])
    then have "map_of (rs_entries (sys_store (sh_replay S1))) (proof_key X c p) = Some d"
      using insert_step_cases by blast
    then show ?thesis unfolding kept_def
      using kept_store_step [OF i assms(2,3)] S' now inserted(5) by (auto split: if_splits)
  next
    case (pushed c at p d)
    have "rs_entries (sys_store (sh_replay S1)) = rs_entries (sys_store (sh_replay (cs_shared S)))"
      by (simp add: pushed(4) try_insert_push_def)
    then show ?thesis using assms(3) step_request(3) S' now pushed(3) unfolding kept_def by (auto split: if_splits)
  qed
next
  case (step_cancel k T)
  then show ?thesis using assms(3) unfolding kept_def by (auto split: if_splits)
qed (use assms(3) in \<open>auto simp: kept_def split: if_splits\<close>)

text \<open>
  Timely runs: the wall clock agrees with the monotonic one, and a request that has checked its proof
  inserts its identifier at most \<open>stall\<close> seconds later.
\<close>

definition timely :: "nat \<Rightarrow> nat \<Rightarrow> 'body conc_state \<Rightarrow> 'body event \<Rightarrow> bool" where
  "timely off stall S ev = (case ev of
      EvStep k E \<Rightarrow> clocks_agree off (se_clock E) (sh_now (cs_shared S)) \<and>
        (case cs_tasks S k of
           Some T \<Rightarrow> (case ct_pc T of
               AtInsert c _ _ d \<Rightarrow> sh_now (cs_shared S) + unat (jti_replay_window_secs (ctx_auth_config (cr_ctx c))) * nanos_per_sec
                 \<le> d + stall * nanos_per_sec
             | _ \<Rightarrow> True)
         | None \<Rightarrow> True)
    | _ \<Rightarrow> True)"

lemma timely_clocked: "clocked (timely off stall) (clocks_agree off)"
  by (simp add: clocked_def timely_def)

lemma second_insert_too_early:
  assumes "auth_config_ok (ctx_auth_config ctx)"
    and "unat (dpop_freshness_secs (ctx_auth_config ctx)) + 2 * unat (clock_skew_secs (ctx_auth_config ctx)) + 1 + stall
      \<le> unat (jti_replay_window_secs (ctx_auth_config ctx))"
    and "proof_decodes_payload X raw_proof"
    and "check_proof X clock1 ctx raw_proof m u at raw = Inr p" and "clocks_agree off clock1 t1"
    and "check_proof X clock2 ctx raw_proof m' u' at' raw' = Inr p'" and "clocks_agree off clock2 t2"
    and "now \<le> t2 + stall * nanos_per_sec"
  shows "now < t1 + unat (jti_replay_window_secs (ctx_auth_config ctx)) * nanos_per_sec" and "dp_jti p' = dp_jti p"
proof -
  let ?f = "unat (dpop_freshness_secs (ctx_auth_config ctx))" and ?s = "unat (clock_skew_secs (ctx_auth_config ctx))"
  let ?w = "unat (jti_replay_window_secs (ctx_auth_config ctx))"
  note same = check_proof_same_claims [OF assms(3,4,6)]
  show "dp_jti p' = dp_jti p" by (rule same(2))
  obtain w1 w2 where w: "clock1 = Some w1" "clock2 = Some w2" using assms(5,7) by (auto simp: clocks_agree_def)
  have "unat (dp_iat p) \<le> unat w1 + ?s" "unat w2 \<le> unat (dp_iat p) + ?f + ?s"
    using accepted_in_window [OF assms(4)] accepted_in_window [OF assms(6)] same(1) w
    by (simp_all add: iat_in_window_iff [OF assms(1)])
  then have "unat w2 \<le> unat w1 + (?f + 2 * ?s)" by simp
  from elapsed_bound [OF assms(5,7) [unfolded w] this]
  have "now < t1 + (?f + 2 * ?s + 1) * nanos_per_sec + stall * nanos_per_sec" using assms(8) by linarith
  also have "\<dots> = t1 + (?f + 2 * ?s + 1 + stall) * nanos_per_sec" by (simp add: add_mult_distrib)
  also have "\<dots> \<le> t1 + ?w * nanos_per_sec" using assms(2) by (intro add_left_mono mult_le_mono1)
  finally show "now < t1 + ?w * nanos_per_sec" .
qed

text \<open>A request that the guard of a context has let pass with a proof.\<close>

definition passed_with :: "oidc_context \<Rightarrow> string \<Rightarrow> 'body conc_task \<Rightarrow> bool" where
  "passed_with ctx raw_proof T \<longleftrightarrow> (\<exists>a methods. route_guard (ct_route T) = Some (a, ctx, methods)) \<and>
     extract_proof (ct_request T) = Inr raw_proof \<and> ct_accepted T \<noteq> None"

lemma extract_proof_subject [simp]: "extract_proof (route_subject rt sub r) = extract_proof r"
  by (cases rt; simp add: extract_proof_def header_str_def)

lemma passed_with_cong:
  assumes "ct_route T' = ct_route T" and "ct_request T' = ct_request T \<or> (\<exists>sub. ct_request T' = route_subject (ct_route T) sub (ct_request T))"
    and "ct_accepted T' = ct_accepted T"
  shows "passed_with ctx raw_proof T' = passed_with ctx raw_proof T"
  using assms by (auto simp: passed_with_def)

lemma accepted_shown:
  assumes "task_inv X W b H P T" and "passed_with ctx raw_proof T"
  obtains c at p t clock where "ct_accepted T = Some (p, proof_key X c p, t + unat (jti_replay_window_secs (ctx_auth_config ctx)) * nanos_per_sec)"
    "cr_ctx c = ctx" "P clock t"
    "check_proof X clock ctx raw_proof (req_method (ct_request T)) (cr_uri c) at (cr_token c) = Inr p"
proof -
  obtain p key d where acc: "ct_accepted T = Some (p, key, d)" using assms(2) by (auto simp: passed_with_def)
  then obtain c at where c: "key = proof_key X c p" "shown X H P T c at p d"
    using assms(1) unfolding task_inv_def accepted_ok_def by blast
  have "cr_ctx c = ctx" "cr_proof c = raw_proof"
    using c(2) assms(2) credentials_of_parts(4) by (fastforce simp: shown_def creds_ok_def passed_with_def)+
  then show thesis using c acc that unfolding shown_def proof_good_def by blast
qed

lemma second_insert_refused:
  assumes cfg: "auth_config_ok (ctx_auth_config ctx)"
    and window: "unat (dpop_freshness_secs (ctx_auth_config ctx)) + 2 * unat (clock_skew_secs (ctx_auth_config ctx)) + 1 + stall
      \<le> unat (jti_replay_window_secs (ctx_auth_config ctx))"
    and payload: "proof_decodes_payload X raw_proof"
    and inv: "task_inv X W b H (clocks_agree off) T" "task_inv X W b H (clocks_agree off) U" and kept: "kept S"
    and tasks: "cs_tasks S k = Some T" "cs_tasks S l = Some U" and first: "passed_with ctx raw_proof T"
    and pc: "ct_pc U = AtInsert c at p d" and U: "route_guard (ct_route U) = Some (a, ctx, methods)" "extract_proof (ct_request U) = Inr raw_proof"
    and timely: "timely off stall S (EvStep l E)"
  shows "try_insert_entries (sys_store (sh_replay (cs_shared S))) (proof_key X c p) d \<noteq> (Inr (), st)"
proof
  assume ins: "try_insert_entries (sys_store (sh_replay (cs_shared S))) (proof_key X c p) d = (Inr (), st)"
  let ?w = "unat (jti_replay_window_secs (ctx_auth_config ctx)) * nanos_per_sec"
  obtain c1 at1 p1 t1 clock1 where one: "ct_accepted T = Some (p1, proof_key X c1 p1, t1 + ?w)" "cr_ctx c1 = ctx"
      "clocks_agree off clock1 t1" "check_proof X clock1 ctx raw_proof (req_method (ct_request T)) (cr_uri c1) at1 (cr_token c1) = Inr p1"
    by (rule accepted_shown [OF inv(1) first])
  have sh: "shown X H (clocks_agree off) U c at p d" using inv(2) pc by (simp add: task_inv_def pc_inv_def)
  then have c: "cr_ctx c = ctx" "cr_proof c = raw_proof"
    using U credentials_of_parts(4) by (fastforce simp: shown_def creds_ok_def)+
  obtain clock2 t2 where two: "clocks_agree off clock2 t2" "d = t2 + ?w"
      "check_proof X clock2 ctx raw_proof (req_method (ct_request U)) (cr_uri c) at (cr_token c) = Inr p"
    using sh c unfolding shown_def proof_good_def by blast
  have "sh_now (cs_shared S) \<le> t2 + stall * nanos_per_sec"
    using timely tasks(2) pc c(1) two(2) by (simp add: timely_def)
  from second_insert_too_early [OF cfg window payload one(4,3) two(3,1) this]
  have "map_of (rs_entries (sys_store (sh_replay (cs_shared S)))) (proof_key X c1 p1) = Some (t1 + ?w)" "dp_jti p = dp_jti p1"
    using keptD [OF kept tasks(1) one(1)] by blast+
  then show False using inserted_key_new [OF ins] c(1) one(2) by (simp add: proof_key_def)
qed

lemma passed_with_cancel: "passed_with ctx raw_proof (cancel_step V) = passed_with ctx raw_proof V"
  by (rule passed_with_cong) simp_all

lemma proof_once_step:
  assumes step: "conc_step X W nc b S ev S'" and timely: "timely off stall S ev"
    and cfg: "auth_config_ok (ctx_auth_config ctx)"
    and window: "unat (dpop_freshness_secs (ctx_auth_config ctx)) + 2 * unat (clock_skew_secs (ctx_auth_config ctx)) + 1 + stall
      \<le> unat (jti_replay_window_secs (ctx_auth_config ctx))"
    and payload: "proof_decodes_payload X raw_proof"
    and inv: "\<And>k T. cs_tasks S k = Some T \<Longrightarrow> task_inv X W b H (clocks_agree off) T" and kept: "kept S"
    and once: "\<And>k l T U. cs_tasks S k = Some T \<Longrightarrow> cs_tasks S l = Some U \<Longrightarrow> passed_with ctx raw_proof T \<Longrightarrow>
      passed_with ctx raw_proof U \<Longrightarrow> k = l"
    and two: "cs_tasks S' k = Some T" "cs_tasks S' l = Some U" "passed_with ctx raw_proof T" "passed_with ctx raw_proof U"
  shows "k = l"
  using step
proof cases
  case (step_arrive j r' r)
  then show ?thesis using two once by (auto simp: passed_with_def split: if_splits)
next
  case (step_cancel j V)
  then show ?thesis using two once by (auto simp: passed_with_cancel split: if_splits)
next
  case (step_request j V E V' S1)
  note keeps = request_step_keeps [OF step_request(4)]
  from step_request(4) show ?thesis
  proof (cases rule: request_step_replay)
    case (inserted c at p d st)
    have new: "\<not> passed_with ctx raw_proof V'" if "cs_tasks S i = Some Y" "i \<noteq> j" "passed_with ctx raw_proof Y" for i Y
    proof
      assume "passed_with ctx raw_proof V'"
      then obtain a methods where V: "route_guard (ct_route V) = Some (a, ctx, methods)" "extract_proof (ct_request V) = Inr raw_proof"
        using keeps(1,2) by (auto simp: passed_with_def)
      from second_insert_refused [OF cfg window payload inv [OF that(1)] inv [OF step_request(3)] kept that(1) step_request(3)
          that(3) inserted(1) V timely [unfolded step_request(1)]] inserted(3)
      show False by blast
    qed
    then show ?thesis using two once step_request(2) by (auto split: if_splits)
  qed (use two once step_request(2,3) passed_with_cong [OF keeps(1,2)] in \<open>auto split: if_splits\<close>)
qed (use two once in auto)

lemma conc_init_tasks [simp]: "cs_tasks (conc_init b now s) = Map.empty"
  by (simp add: conc_init_def)

lemma conc_init_replay:
  assumes "bd_replay b = replay_store_new (auth (bd_config b))"
  shows "replay_ok X (auth (bd_config b)) (conc_init b now s)" and "kept (conc_init b now s)"
  using assms sys_inv_init [of "auth (bd_config b)"]
  by (simp_all add: conc_init_def replay_ok_def pushes_ok_def kept_def sys_init_def)

end
