(* ===== verification/Concurrent_Blocks.thy ===== *)
theory Concurrent_Blocks
  imports Concurrent_Safety
begin

section \<open>Blocks under concurrent requests\<close>

text \<open>
  The steps of requests that touch the storage are steps of the machine of interleaved puts, so its
  invariant carries over. A run is given the list of its commits, the renames and the removals, each with the request that
  made it: the stored blocks are what the commits say, in their order, and a request has exactly one commit
  if it is answered with 204 and none otherwise.
\<close>

subsection \<open>The storage part of a state\<close>

definition put_of :: "'body conc_task \<Rightarrow> put_task option" where
  "put_of T = (case ct_pc T of AtPut i b pc \<Rightarrow> Some \<lparr>pt_id = i, pt_payload = b, pt_pc = pc\<rparr> | _ \<Rightarrow> None)"

definition put_part :: "'body conc_state \<Rightarrow> put_machine" where
  "put_part S = \<lparr>pm_fs = sh_fs (cs_shared S), pm_tasks = (\<lambda>k. Option.bind (cs_tasks S k) put_of)\<rparr>"

definition storage_env_ok :: "'body conc_state \<Rightarrow> 'body event \<Rightarrow> bool" where
  "storage_env_ok S ev = (case ev of
      EvStep k E \<Rightarrow> CHR ''/'' \<notin> set (ce_random (se_call E)) \<and> se_fault E \<noteq> Some IoNotFound
    | _ \<Rightarrow> True)"

lemma put_of_simps [simp]:
  "put_of (answer resp T) = None" "put_of (T\<lparr>ct_gone := g\<rparr>) = put_of T"
  "put_of (T\<lparr>ct_pc := AtPut i b pc\<rparr>) = Some \<lparr>pt_id = i, pt_payload = b, pt_pc = pc\<rparr>"
  "put_of \<lparr>ct_route = rt, ct_request = r, ct_pc = AtGuard, ct_gone = g', ct_accepted = acc\<rparr> = None"
  by (simp_all add: put_of_def answer_def)

lemma put_of_Some_iff:
  "put_of T = Some U \<longleftrightarrow> (\<exists>i b pc. ct_pc T = AtPut i b pc \<and> U = \<lparr>pt_id = i, pt_payload = b, pt_pc = pc\<rparr>)"
  by (auto simp: put_of_def split: request_pc.splits)

lemma put_of_claims [simp]: "put_of (claims_checked X clock c claims T) = None"
  by (simp add: claims_checked_def put_of_def answer_def split: sum.splits)

text \<open>The steps of a request, by what they do to the storage.\<close>

lemma request_step_storage:
  assumes "request_step X W E T S = (T', S')"
  obtains (same) "sh_fs S' = sh_fs S" "put_of T' = None" "\<And>i. ct_pc T \<noteq> AtDelete i"
      "\<And>i b pc. ct_pc T = AtPut i b pc \<Longrightarrow> \<exists>r. pc = PcDone r \<and> T' = answer (put_reply r) T"
  | (start) i b where "sh_fs S' = sh_fs S" "ct_pc T = AtHandler" "block_id_ok i"
      "put_of T' = Some \<lparr>pt_id = i, pt_payload = b, pt_pc = PcDirs (path_prefixes [] (shard_dir (route_root (ct_route T)) i))\<rparr>"
  | (put) i b pc pc' where "ct_pc T = AtPut i b pc" "\<And>r. pc \<noteq> PcDone r"
      "put_call (route_root (ct_route T)) i b (se_call E) pc (sh_fs S) = (pc', sh_fs S')" "T' = T\<lparr>ct_pc := AtPut i b pc'\<rparr>"
  | (delete) i res where "ct_pc T = AtDelete i" "local_delete (route_root (ct_route T)) (se_fault E) i (sh_fs S) = (res, sh_fs S')"
      "T' = answer (delete_reply res) T"
proof (cases "ct_pc T")
  case (AtDelete i)
  then show thesis using assms delete [of i] by (auto simp: request_step_def delete_step_def split: prod.splits)
next
  case (AtPut i b pc)
  show thesis
  proof (cases "\<exists>r. pc = PcDone r")
    case True
    then show thesis using assms same AtPut by (auto simp: request_step_def put_step_def)
  next
    case False
    then have "put_step (route_root (ct_route T)) (se_call E) i b pc T (sh_fs S) =
        (let (pc', s') = put_call (route_root (ct_route T)) i b (se_call E) pc (sh_fs S) in (T\<lparr>ct_pc := AtPut i b pc'\<rparr>, s'))"
      by (cases pc) (simp_all add: put_step_def)
    then show thesis using assms put [OF AtPut] False AtPut by (auto simp: request_step_def split: prod.splits)
  qed
next
  case AtHandler
  then have T': "T' = handler_start W S T" "S' = S" using assms by (auto simp: request_step_def)
  show thesis
  proof (cases "ct_route T")
    case (RouteBlock ctx root n)
    then have "T' = block_start W root n T" using T' by (simp add: handler_start_def)
    then have "put_of T' = None \<or> (\<exists>i b. request_block_id (ct_request T) = Some i \<and>
        put_of T' = Some \<lparr>pt_id = i, pt_payload = b, pt_pc = PcDirs (path_prefixes [] (shard_dir root i))\<rparr>)"
      by (auto simp: block_start_def Let_def put_of_def answer_def split: option.splits)
    then show thesis using same start AtHandler T'(2) RouteBlock request_block_id_ok [of "ct_request T"] by (auto simp: route_root_def)
  qed (use T' same AtHandler in \<open>auto simp: handler_start_def put_of_def answer_def split: outcome.splits prod.splits\<close>)
next
  case (AtRefresh c header alg e pc)
  from assms [unfolded request_step_refresh [OF AtRefresh]] show thesis
    by (cases rule: on_demand_outcomes) (rule same; simp add: AtRefresh put_of_def)+
next
  case (AtInsert c at p d)
  then obtain R where R: "insert_step X c at p d T (sh_replay S) = (T', R)" "S' = S\<lparr>sh_replay := R\<rparr>"
    using assms by (auto simp: request_step_def split: prod.splits)
  from R(1) show thesis using same R(2) AtInsert by (cases rule: insert_outcomes) (auto simp: put_of_def answer_def)
next
  case AtGuard
  then show thesis using assms same
    by (auto simp: request_step_def guard_start_def put_of_def answer_def split: option.splits if_splits sum.splits)
next
  case (AtToken c)
  then show thesis using assms same by (auto simp: request_step_def token_step_def put_of_def [of "T\<lparr>ct_pc := _\<rparr>"] split: sum.splits)
next
  case (AtRetry c header alg e)
  then show thesis using assms same by (auto simp: request_step_def retry_step_def split: sum.splits)
next
  case (AtProof c at)
  then show thesis using assms same
    by (auto simp: request_step_def proof_step_def put_of_def answer_def split: sum.splits option.splits)
qed (use assms same in \<open>auto simp: request_step_def push_step_def put_of_def answer_def Let_def\<close>)

definition storage_ok :: "string \<Rightarrow> 'body conc_state \<Rightarrow> bool" where
  "storage_ok root S \<longleftrightarrow> put_machine_ok root (put_part S)"

lemma put_machine_ok_fewer:
  assumes "put_machine_ok root M" and "pm_fs M' = pm_fs M" and "pm_tasks M' \<subseteq>\<^sub>m pm_tasks M"
  shows "put_machine_ok root M'"
proof -
  have "pm_tasks M k = Some T" if "pm_tasks M' k = Some T" for k T
    using that assms(3) by (auto simp: map_le_def dom_def)
  then show ?thesis using assms(1,2) unfolding put_machine_ok_def by metis
qed

lemma put_part_simps [simp]:
  "pm_fs (put_part S) = sh_fs (cs_shared S)" "pm_tasks (put_part S) k = Option.bind (cs_tasks S k) put_of"
  by (simp_all add: put_part_def)

lemma put_part_update:
  "put_part \<lparr>cs_shared = S', cs_tasks = (cs_tasks S)(k \<mapsto> T')\<rparr> =
   \<lparr>pm_fs = sh_fs S', pm_tasks = (pm_tasks (put_part S))(k := put_of T')\<rparr>"
  by (auto simp: put_part_def)

lemma put_part_with_tasks: "(put_part S)\<lparr>pm_tasks := f\<rparr> = \<lparr>pm_fs = sh_fs (cs_shared S), pm_tasks = f\<rparr>"
  by (simp add: put_part_def)

lemma route_ok_root:
  assumes "route_ok b rt" and "bd_storage b = Some root" and "rt = RouteBlock ctx r n"
  shows "route_root rt = root"
  using assms by (simp add: route_ok_def route_root_def)

lemma block_pc_root:
  assumes "task_inv X W b H P T" and "bd_storage b = Some root" and "ct_pc T = AtPut i p pc \<or> ct_pc T = AtDelete i \<or> ct_pc T = AtGet i"
  shows "route_root (ct_route T) = root" and "block_id_ok i"
proof -
  obtain m where m: "on_block T i m" using assms(1,3) by (auto simp: task_inv_def pc_inv_def)
  then show "route_root (ct_route T) = root" using assms(1,2) route_ok_root by (auto simp: task_inv_def on_block_def)
  show "block_id_ok i" using m request_block_id_ok by (auto simp: on_block_def)
qed

text \<open>A step of a request is a step of the put machine, up to the puts that have been answered.\<close>

lemma storage_ok_request:
  assumes "request_step X W E T (cs_shared S) = (T', S')" and "cs_tasks S k = Some T" and "task_inv X W b H P T"
    and "task_inv X W b H P T'"
    and "bd_storage b = Some root" and "storage_ok root S" and "storage_env_ok S (EvStep k E)"
  shows "storage_ok root \<lparr>cs_shared = S', cs_tasks = (cs_tasks S)(k \<mapsto> T')\<rparr>"
proof -
  let ?M = "put_part S" and ?M' = "\<lparr>pm_fs = sh_fs S', pm_tasks = (pm_tasks (put_part S))(k := put_of T')\<rparr>"
  have ok: "put_machine_ok root ?M" using assms(6) by (simp add: storage_ok_def)
  have pt: "pm_tasks ?M k = put_of T" using assms(2) by simp
  have "put_machine_ok root ?M'"
    using assms(1)
  proof (cases rule: request_step_storage)
    case same
    then show ?thesis by (intro put_machine_ok_fewer [OF ok]) (auto simp: map_le_def)
  next
    case (start i b')
    have "route_root (ct_route T') = root" using block_pc_root [OF assms(4,5)] start(4) by (auto simp: put_of_Some_iff)
    then have "route_root (ct_route T) = root" using request_step_keeps(1) [OF assms(1)] by simp
    then have "put_machine_step root ?M ?M'"
      using pm_start [of ?M k i root b'] pt start by (simp add: put_part_with_tasks put_of_def)
    then show ?thesis using put_machine_step_ok ok by blast
  next
    case (put i b' pc pc')
    have r: "route_root (ct_route T) = root" using block_pc_root [OF assms(3,5)] put(1) by blast
    have "put_machine_step root ?M ?M'"
      using pm_call [of ?M k "\<lparr>pt_id = i, pt_payload = b', pt_pc = pc\<rparr>" "se_call E" root pc' "sh_fs S'"] pt put assms(7) r
      by (simp add: put_of_def storage_env_ok_def)
    then show ?thesis using put_machine_step_ok ok by blast
  next
    case (delete i res)
    have r: "route_root (ct_route T) = root" "block_id_ok i" using block_pc_root [OF assms(3,5)] delete(1) by blast+
    have "put_machine_step root ?M (?M\<lparr>pm_fs := sh_fs S'\<rparr>)" using pm_delete [OF r(2)] delete(2) r(1) by simp
    then have "put_machine_ok root (?M\<lparr>pm_fs := sh_fs S'\<rparr>)" using put_machine_step_ok ok by blast
    then show ?thesis by (rule put_machine_ok_fewer) (use delete(3) in \<open>auto simp: map_le_def\<close>)
  qed
  then show ?thesis by (simp add: storage_ok_def put_part_update)
qed

lemma storage_ok_other:
  assumes "storage_ok root S" and "put_part S' = put_part S"
  shows "storage_ok root S'"
  using assms by (simp add: storage_ok_def)

lemma put_of_cancel: "put_of (cancel_step T) = put_of T"
  by (auto simp: put_of_def cancel_step_def split: request_pc.splits)

lemma put_part_other:
  assumes "conc_step X W nc b S ev S'" and "\<And>k E. ev \<noteq> EvStep k E"
  shows "put_part S' = put_part S"
  using assms(1) assms(2)
  by cases (auto simp: put_part_def put_of_cancel fun_eq_iff)

text \<open>What holds after any run.\<close>

lemma run_inv:
  assumes "conc_run X W nc b storage_env_ok (conc_init b now s) tr S" and "bd_storage b = Some root" and "local_ok root s"
  shows "storage_ok root S" and "cs_tasks S k = Some T \<Longrightarrow> task_inv X W b (heaps tr S) (\<lambda>_ _. True) T"
proof -
  have inv: "cs_tasks S k = Some T \<Longrightarrow> task_inv X W b (heaps tr S) (\<lambda>_ _. True) T"
    if "conc_run X W nc b storage_env_ok (conc_init b now s) tr S" for tr S k T
    using tasks_inv [OF that _ conc_init_tasks] by (simp add: clocked_def)
  show "cs_tasks S k = Some T \<Longrightarrow> task_inv X W b (heaps tr S) (\<lambda>_ _. True) T" by (rule inv [OF assms(1)])
  show "storage_ok root S"
    using assms(1)
  proof (induction rule: conc_run.induct)
    case conc_nil
    then show ?case using assms(3) by (simp add: storage_ok_def put_machine_ok_def) (simp add: conc_init_def)
  next
    case (conc_snoc tr S ev S')
    note run = conc_run.conc_snoc [OF conc_snoc.hyps]
    show ?case
    proof (cases "\<exists>k E. ev = EvStep k E")
      case True
      then obtain k E where ev: "ev = EvStep k E" by blast
      from conc_snoc.hyps(3) [unfolded ev] show ?thesis
      proof cases
        case (step_request T T' S1)
        have "cs_tasks S' k = Some T'" using step_request(1) by simp
        then have T': "task_inv X W b (heaps (tr @ [(S, ev)]) S') (\<lambda>_ _. True) T'" by (rule inv [OF run])
        have T: "task_inv X W b (heaps (tr @ [(S, ev)]) S') (\<lambda>_ _. True) T"
          by (rule task_inv_mono [OF inv [OF conc_snoc.hyps(1) step_request(2)]]) (auto simp: heaps_snoc)
        show ?thesis
          using storage_ok_request [OF step_request(3,2) T T' assms(2) conc_snoc.IH] conc_snoc.hyps(2) step_request(1) ev by simp
      qed
    next
      case False
      then show ?thesis using storage_ok_other [OF conc_snoc.IH] put_part_other [OF conc_snoc.hyps(3)] by blast
    qed
  qed
qed

subsection \<open>Commits\<close>

definition commit_of :: "'body conc_state \<times> 'body event \<Rightarrow> (nat \<times> block_id \<times> bytes option) option" where
  "commit_of x = (case x of
      (S, EvStep k E) \<Rightarrow>
        Option.bind (cs_tasks S k) (\<lambda>T. case ct_pc T of
            AtPut i b (PcPersist t) \<Rightarrow>
              if fst (put_call (route_root (ct_route T)) i b (se_call E) (PcPersist t) (sh_fs (cs_shared S))) = PcDone (Inr ())
              then Some (k, i, Some b) else None
          | AtDelete i \<Rightarrow>
              if fst (local_delete (route_root (ct_route T)) (se_fault E) i (sh_fs (cs_shared S))) = Inr ()
              then Some (k, i, None) else None
          | _ \<Rightarrow> None)
    | _ \<Rightarrow> None)"

definition commits :: "('body conc_state \<times> 'body event) list \<Rightarrow> (nat \<times> block_id \<times> bytes option) list" where
  "commits tr = List.map_filter commit_of tr"

definition apply_commit :: "nat \<times> block_id \<times> bytes option \<Rightarrow> (block_id \<rightharpoonup> bytes) \<Rightarrow> (block_id \<rightharpoonup> bytes)" where
  "apply_commit c m = (case c of (_, i, v) \<Rightarrow> m(i := v))"

lemma commits_simps [simp]:
  "commits [] = []"
  "commits (tr @ [x]) = commits tr @ (case commit_of x of None \<Rightarrow> [] | Some c \<Rightarrow> [c])"
  by (simp_all add: commits_def List.map_filter_def split: option.splits)

lemma put_call_success_persists:
  assumes "put_call root i b C pc s = (PcDone (Inr ()), s')" and "\<And>r. pc \<noteq> PcDone r"
  shows "\<exists>t. pc = PcPersist t"
  using assms by (auto simp: put_call_defs split: put_pc.splits list.splits option.splits prod.splits sum.splits)

lemma put_call_commit:
  assumes "put_call root (pt_id T) (pt_payload T) C (pt_pc T) s = (pc', s')" and "task_ok root s T"
    and "CHR ''/'' \<notin> set (ce_random C)" and "\<And>r. pt_pc T \<noteq> PcDone r"
  shows "fs_view root s' = (if pc' = PcDone (Inr ()) then (fs_view root s)(pt_id T \<mapsto> pt_payload T) else fs_view root s)"
proof -
  have id: "block_id_ok (pt_id T)" using assms(2) by (simp add: task_ok_def)
  show ?thesis
  proof (cases "pc' = PcDone (Inr ())")
    case True
    then obtain t where t: "pt_pc T = PcPersist t" using put_call_success_persists assms(1,4) by blast
    then obtain f where f: "fs_files s t = Some f" "ff_data f = pt_payload T" using assms(2) by (auto simp: task_ok_def)
    have "fs_files s' (block_path root (pt_id T)) = Some f"
      using assms(1) t True f by (auto simp: put_call_defs persist_def split: option.splits if_splits)
    then have "fs_view root s' (pt_id T) = Some (pt_payload T)" using id f(2) by (simp add: fs_view_def)
    then show ?thesis using put_call_view [OF assms(1-3)] True by (auto simp: fun_eq_iff)
  next
    case False
    then show ?thesis using put_call_view [OF assms(1-3)] by auto
  qed
qed

lemma put_machine_task: "put_machine_ok root M \<Longrightarrow> pm_tasks M k = Some T \<Longrightarrow> task_ok root (pm_fs M) T"
  unfolding put_machine_ok_def by blast

lemma commit_of_step:
  assumes "conc_step X W nc b S ev S'" and "storage_ok root S" and "storage_env_ok S ev"
    and "\<And>k T. cs_tasks S k = Some T \<Longrightarrow> task_inv X W b H P T" and "bd_storage b = Some root"
  shows "fs_view root (sh_fs (cs_shared S')) =
    (case commit_of (S, ev) of None \<Rightarrow> fs_view root (sh_fs (cs_shared S)) | Some c \<Rightarrow> apply_commit c (fs_view root (sh_fs (cs_shared S))))"
  using assms(1)
proof cases
  case (step_request k T E T' S1)
  note inv = assms(4) [OF step_request(3)]
  have ok: "put_machine_ok root (put_part S)" using assms(2) by (simp add: storage_ok_def)
  have env: "CHR ''/'' \<notin> set (ce_random (se_call E))" "se_fault E \<noteq> Some IoNotFound"
    using assms(3) step_request(1) by (simp_all add: storage_env_ok_def)
  from step_request(4) show ?thesis
  proof (cases rule: request_step_storage)
    case same
    have "commit_of (S, ev) = None"
      using step_request(1,3) same(3,4) by (auto simp: commit_of_def split: request_pc.splits put_pc.splits)
    then show ?thesis using same(1) step_request(2) by simp
  next
    case (start i b')
    then show ?thesis using step_request by (simp add: commit_of_def)
  next
    case (put i p pc pc')
    let ?T = "\<lparr>pt_id = i, pt_payload = p, pt_pc = pc\<rparr>"
    have r: "route_root (ct_route T) = root" using block_pc_root [OF inv assms(5)] put(1) by blast
    have "task_ok root (sh_fs (cs_shared S)) ?T"
      using put_machine_task [OF ok, of k ?T] step_request(3) put(1) by (simp add: put_of_def)
    then have "fs_view root (sh_fs S1) = (if pc' = PcDone (Inr ()) then (fs_view root (sh_fs (cs_shared S)))(i \<mapsto> p)
        else fs_view root (sh_fs (cs_shared S)))"
      using put_call_commit [of root ?T "se_call E" "sh_fs (cs_shared S)" pc' "sh_fs S1"] put env(1) r by auto
    moreover have "pc' = PcDone (Inr ()) \<Longrightarrow> \<exists>t. pc = PcPersist t" using put_call_success_persists put(2,3) by blast
    ultimately show ?thesis
      using step_request put r by (auto simp: commit_of_def apply_commit_def split: put_pc.splits)
  next
    case (delete i res)
    have r: "route_root (ct_route T) = root" "block_id_ok i" using block_pc_root [OF inv assms(5)] delete(1) by blast+
    have "local_ok root (sh_fs (cs_shared S))" using ok by (simp add: put_machine_ok_def)
    from local_delete_effect [OF this r(2) env(2) delete(2) [unfolded r(1)]] show ?thesis
      using step_request delete r by (auto simp: commit_of_def apply_commit_def)
  qed
qed (simp_all add: commit_of_def)

subsection \<open>Answers\<close>

text \<open>An answer that does not come from the storage: neither a block nor the confirmation of a change.\<close>

definition early_answer :: "'body conc_task \<Rightarrow> response \<Rightarrow> bool" where
  "early_answer T resp \<longleftrightarrow> resp_status resp \<noteq> 204 \<and>
     (\<forall>ctx root n. ct_route T = RouteBlock ctx root n \<longrightarrow> resp_status resp \<noteq> 200 \<and>
        (resp_status resp = 404 \<longrightarrow> request_block_id (ct_request T) = None \<or> req_method (ct_request T) \<notin> {''GET'', ''PUT'', ''DELETE''}))"

lemma early_failure [simp]: "early_answer T (failure_response f)"
  by (simp add: early_answer_def handler_defs)

lemma claims_answer: "ct_pc (claims_checked X clock c claims T) = Answered resp \<Longrightarrow> early_answer T resp"
  by (auto simp: claims_checked_def split: sum.splits)

lemma handler_answer:
  assumes "ct_pc (handler_start W S T) = Answered resp" and "ct_pc T = AtHandler"
  shows "early_answer T resp"
proof (cases "ct_route T")
  case (RouteBlock ctx root n)
  then show ?thesis using assms
    by (auto simp: handler_start_def block_start_def Let_def early_answer_def respond_block_404_def respond_block_400_def
        split: option.splits if_splits)
qed (use assms in \<open>auto simp: handler_start_def early_answer_def handler_defs split: option.splits if_splits\<close>)

lemma request_step_answers:
  assumes "request_step X W E T S = (T', S')" and "ct_pc T' = Answered resp"
  obtains (before) "ct_pc T = Answered resp"
  | (put) i b r where "ct_pc T = AtPut i b (PcDone r)" "resp = put_reply r"
  | (delete) i where "ct_pc T = AtDelete i" "resp = delete_reply (fst (local_delete (route_root (ct_route T)) (se_fault E) i (sh_fs S)))"
  | (get) i where "ct_pc T = AtGet i" "resp = get_reply (local_get (route_root (ct_route T)) (se_fault E) i (sh_fs S))"
  | (early) "early_answer T resp" "\<And>i b pc. ct_pc T \<noteq> AtPut i b pc" "\<And>i. ct_pc T \<noteq> AtDelete i" "\<And>r. ct_pc T \<noteq> Answered r"
proof (cases "ct_pc T")
  case (AtPut i b pc)
  then show thesis using assms that(2) by (auto simp: request_step_def put_step_def split: put_pc.splits prod.splits)
next
  case (AtDelete i)
  then show thesis using assms that(3) by (auto simp: request_step_def delete_step_def split: prod.splits)
next
  case (AtGet i)
  then show thesis using assms that(4) by (auto simp: request_step_def)
next
  case AtGuard
  then show thesis using assms that(5)
    by (auto simp: request_step_def guard_start_def split: option.splits if_splits sum.splits)
next
  case (AtToken c)
  then have "early_answer T resp"
    using assms by (auto simp: request_step_def token_step_def split: sum.splits intro: claims_answer)
  then show thesis using that(5) AtToken by simp
next
  case (AtRefresh c header alg e pc)
  from assms(1) [unfolded request_step_refresh [OF AtRefresh]] show thesis
    by (cases rule: on_demand_outcomes) (use assms(2) that(5) AtRefresh in auto)
next
  case (AtRetry c header alg e)
  then have "early_answer T resp"
    using assms by (auto simp: request_step_def retry_step_def split: sum.splits intro: claims_answer)
  then show thesis using that(5) AtRetry by simp
next
  case (AtProof c at)
  then show thesis using assms that(5)
    by (auto simp: request_step_def proof_step_def split: sum.splits option.splits)
next
  case (AtInsert c at p d)
  then obtain R where "insert_step X c at p d T (sh_replay S) = (T', R)"
    using assms(1) by (auto simp: request_step_def split: prod.splits)
  then show thesis using assms(2) that(5) AtInsert by (cases rule: insert_outcomes) auto
next
  case (AtPush c at p d)
  then show thesis using assms by (auto simp: request_step_def push_step_def Let_def)
next
  case AtHandler
  then have "early_answer T resp" using assms by (auto simp: request_step_def intro: handler_answer)
  then show thesis using that(5) AtHandler by simp
qed (use assms that(1) in \<open>auto simp: request_step_def\<close>)

definition committed :: "'body conc_task \<Rightarrow> bool" where
  "committed T = (case ct_pc T of
      AtPut _ _ pc \<Rightarrow> pc = PcDone (Inr ()) | Answered resp \<Rightarrow> resp_status resp = 204 | _ \<Rightarrow> False)"

lemma reply_status:
  "resp_status (put_reply r) = 204 \<longleftrightarrow> r = Inr ()" "resp_status (get_reply q) \<noteq> 204"
  by (auto simp: put_reply_def get_reply_def handler_defs split: sum.splits storage_error.splits)

lemma delete_reply_status:
  "resp_status (delete_reply (fst (local_delete root g i s))) = 204 \<longleftrightarrow> fst (local_delete root g i s) = Inr ()"
  by (auto simp: local_delete_def backend_error_def delete_reply_def handler_defs split: prod.splits sum.splits io_error.splits)

text \<open>The commits of a request: one when it has been made, none before.\<close>

lemma committed_step:
  assumes "request_step X W E T (cs_shared S) = (T', S')" and "cs_tasks S k = Some T"
  shows "committed T' \<longleftrightarrow> committed T \<or> commit_of (S, EvStep k E) \<noteq> None"
    and "commit_of (S, EvStep k E) \<noteq> None \<Longrightarrow> \<not> committed T"
proof -
  show "commit_of (S, EvStep k E) \<noteq> None \<Longrightarrow> \<not> committed T"
    using assms(2) by (auto simp: commit_of_def committed_def split: request_pc.splits put_pc.splits)
  from assms(1) show "committed T' \<longleftrightarrow> committed T \<or> commit_of (S, EvStep k E) \<noteq> None"
  proof (cases rule: request_step_storage)
    case same
    have none: "commit_of (S, EvStep k E) = None"
      using assms(2) same(3,4) by (auto simp: commit_of_def split: request_pc.splits put_pc.splits)
    show ?thesis
    proof (cases "\<exists>resp. ct_pc T' = Answered resp")
      case True
      then obtain resp where resp: "ct_pc T' = Answered resp" by blast
      from assms(1) resp have "committed T' = committed T"
        by (cases rule: request_step_answers)
          (use resp same(3) reply_status in \<open>auto simp: committed_def early_answer_def split: request_pc.splits\<close>)
      then show ?thesis using none by simp
    next
      case False
      then have "\<not> committed T'" using same(2) by (auto simp: committed_def put_of_def split: request_pc.splits)
      moreover have "\<not> committed T"
        using False same(4) assms(1) by (auto simp: committed_def request_step_def split: request_pc.splits)
      ultimately show ?thesis using none by simp
    qed
  next
    case (start i b)
    then show ?thesis using assms(2) by (auto simp: committed_def commit_of_def put_of_Some_iff)
  next
    case (put i b pc pc')
    have "pc' = PcDone (Inr ()) \<Longrightarrow> \<exists>t. pc = PcPersist t" using put_call_success_persists put(2,3) by blast
    then show ?thesis using put assms(2) by (auto simp: committed_def commit_of_def split: put_pc.splits)
  next
    case (delete i res)
    then show ?thesis
      using assms(2) delete_reply_status [of "route_root (ct_route T)" "se_fault E" i "sh_fs (cs_shared S)"]
      by (auto simp: committed_def commit_of_def)
  qed
qed

subsection \<open>Runs\<close>

lemma run_view:
  assumes "conc_run X W nc b storage_env_ok (conc_init b now s) tr S" and "bd_storage b = Some root" and "local_ok root s"
  shows "fs_view root (sh_fs (cs_shared S)) = fold apply_commit (commits tr) (fs_view root s)"
  using assms(1)
proof (induction rule: conc_run.induct)
  case conc_nil
  then show ?case by (simp add: conc_init_def)
next
  case (conc_snoc tr S ev S')
  note inv = run_inv [OF conc_snoc.hyps(1) assms(2,3)]
  from commit_of_step [OF conc_snoc.hyps(3) inv(1) conc_snoc.hyps(2) inv(2) assms(2)] conc_snoc.IH
  show ?case by (simp split: option.splits)
qed

definition commits_of :: "nat \<Rightarrow> ('body conc_state \<times> 'body event) list \<Rightarrow> nat" where
  "commits_of k tr = length (filter (\<lambda>c. fst c = k) (commits tr))"

lemma commit_of_other: "(\<And>k E. ev \<noteq> EvStep k E) \<Longrightarrow> commit_of (S, ev) = None"
  by (cases ev) (auto simp: commit_of_def)

lemma commit_of_cases:
  assumes "commit_of (S, EvStep k E) = Some c"
  obtains (put) T i b t where "cs_tasks S k = Some T" "ct_pc T = AtPut i b (PcPersist t)" "c = (k, i, Some b)"
  | (delete) T i where "cs_tasks S k = Some T" "ct_pc T = AtDelete i" "c = (k, i, None)"
proof -
  obtain T where T: "cs_tasks S k = Some T" using assms by (cases "cs_tasks S k") (auto simp: commit_of_def)
  show thesis
  proof (cases "ct_pc T")
    case (AtPut i b pc)
    then show thesis using assms T put by (cases pc) (auto simp: commit_of_def split: if_splits)
  next
    case (AtDelete i)
    then show thesis using assms T delete by (auto simp: commit_of_def split: if_splits)
  qed (use assms T in \<open>auto simp: commit_of_def\<close>)
qed

lemma commit_of_owner: "commit_of (S, EvStep k E) = Some c \<Longrightarrow> fst c = k"
  by (erule commit_of_cases) simp_all

lemma committed_cancel: "committed (cancel_step T) = committed T"
  by (auto simp: committed_def cancel_step_def split: request_pc.splits)

definition commit_count :: "'body conc_state \<Rightarrow> nat \<Rightarrow> nat" where
  "commit_count S k = (case cs_tasks S k of Some T \<Rightarrow> if committed T then 1 else 0 | None \<Rightarrow> 0)"

lemma run_commit_count:
  assumes "conc_run X W nc b ok (conc_init b now s) tr S"
  shows "commits_of k tr = commit_count S k"
  using assms
proof (induction rule: conc_run.induct)
  case conc_nil
  then show ?case by (simp add: commits_of_def commit_count_def)
next
  case (conc_snoc tr S ev S')
  show ?case
  proof (cases "\<exists>j E. ev = EvStep j E")
    case True
    then obtain j E where ev: "ev = EvStep j E" by blast
    from conc_snoc.hyps(3) [unfolded ev] show ?thesis
    proof cases
      case (step_request T T' S1)
      note step = committed_step [OF step_request(3,2)]
      show ?thesis
        using conc_snoc.IH step step_request(1,2) commit_of_owner [of S j E] ev
        by (auto simp: commits_of_def commit_count_def split: option.splits)
    qed
  next
    case False
    then have none: "commit_of (S, ev) = None" by (intro commit_of_other) blast
    from conc_snoc.hyps(3) have "commit_count S' k = commit_count S k"
      by cases (use False in \<open>auto simp: commit_count_def committed_cancel\<close>, simp add: committed_def)
    then show ?thesis using conc_snoc.IH none by (simp add: commits_of_def)
  qed
qed

text \<open>The request behind a commit.\<close>

definition write_request :: "'body web_ext \<Rightarrow> 'body conc_task \<Rightarrow> block_id \<Rightarrow> bytes option \<Rightarrow> bool" where
  "write_request W T i v \<longleftrightarrow> (\<exists>ctx root n. ct_route T = RouteBlock ctx root n \<and>
     request_block_id (ct_request T) = Some i \<and> ct_accepted T \<noteq> None \<and>
     (if v = None then req_method (ct_request T) = ''DELETE''
      else req_method (ct_request T) = ''PUT'' \<and> put_admits (web_to_bytes W) n (ct_request T) = v))"

lemma put_admits_subject [simp]: "put_admits tb n (route_subject rt sub r) = put_admits tb n r"
  by (simp add: put_admits_def content_length_def header_str_def)

lemma write_request_cong:
  assumes "ct_route T' = ct_route T" and "ct_request T' = ct_request T \<or> (\<exists>sub. ct_request T' = route_subject (ct_route T) sub (ct_request T))"
    and "ct_accepted T \<noteq> None \<Longrightarrow> ct_accepted T' \<noteq> None" and "write_request W T i v"
  shows "write_request W T' i v"
proof -
  have same: "req_method (ct_request T') = req_method (ct_request T)" "request_block_id (ct_request T') = request_block_id (ct_request T)"
    "put_admits tb n (ct_request T') = put_admits tb n (ct_request T)" for tb n
    using assms(2) by auto
  show ?thesis using assms(3,4) unfolding write_request_def assms(1) same by blast
qed

lemma write_request_step:
  assumes "request_step X W E T S = (T', S')" and "write_request W T i v"
  shows "write_request W T' i v"
  using request_step_keeps [OF assms(1)] by (intro write_request_cong [OF _ _ _ assms(2)]) auto

lemma write_request_commit:
  assumes "commit_of (S, EvStep k E) = Some (j, i, v)" and "cs_tasks S k = Some T" and "task_inv X W b H P T"
  shows "write_request W T i v"
  using assms(1)
  by (cases rule: commit_of_cases) (use assms(2,3) in \<open>auto simp: task_inv_def pc_inv_def write_request_def on_block_def\<close>)

lemma run_write_requests:
  assumes "conc_run X W nc b storage_env_ok (conc_init b now s) tr S" and "bd_storage b = Some root" and "local_ok root s"
  shows "(k, i, v) \<in> set (commits tr) \<Longrightarrow> \<exists>T. cs_tasks S k = Some T \<and> write_request W T i v"
  using assms(1)
proof (induction rule: conc_run.induct)
  case conc_nil
  then show ?case by simp
next
  case (conc_snoc tr S ev S')
  show ?case
  proof (cases "(k, i, v) \<in> set (commits tr)")
    case True
    then obtain T where T: "cs_tasks S k = Some T" "write_request W T i v" using conc_snoc.IH by blast
    have "write_request W (cancel_step T) i v" by (rule write_request_cong [OF _ _ _ T(2)]) simp_all
    with conc_snoc.hyps(3) show ?thesis
      by cases (use T write_request_step in \<open>auto split: if_splits\<close>)
  next
    case False
    then have c: "commit_of (S, ev) = Some (k, i, v)" using conc_snoc.prems by (auto split: option.splits)
    then obtain E where ev: "ev = EvStep k E" using commit_of_other commit_of_owner by (metis fst_conv option.distinct(1))
    from conc_snoc.hyps(3) [unfolded ev] show ?thesis
    proof cases
      case (step_request T T' S1)
      have "write_request W T i v"
        by (rule write_request_commit [OF c [unfolded ev] step_request(2) run_inv(2) [OF conc_snoc.hyps(1) assms(2,3) step_request(2)]])
      then show ?thesis using write_request_step [OF step_request(3)] step_request(1) by simp
    qed
  qed
qed

text \<open>The reads: a \<open>GET\<close> answers with what the stored blocks were before one of its own steps.\<close>

definition read_seen ::
    "string \<Rightarrow> ('body conc_state \<times> 'body event) list \<Rightarrow> nat \<Rightarrow> block_id \<Rightarrow> bytes option \<Rightarrow> bool" where
  "read_seen root tr k i v \<longleftrightarrow> (\<exists>S E. (S, EvStep k E) \<in> set tr \<and> fs_view root (sh_fs (cs_shared S)) i = v)"

definition read_ok :: "string \<Rightarrow> ('body conc_state \<times> 'body event) list \<Rightarrow> nat \<Rightarrow> 'body conc_task \<Rightarrow> bool" where
  "read_ok root tr k T \<longleftrightarrow> (\<forall>resp ctx r n i. ct_pc T = Answered resp \<longrightarrow> ct_route T = RouteBlock ctx r n \<longrightarrow>
     request_block_id (ct_request T) = Some i \<longrightarrow> req_method (ct_request T) = ''GET'' \<longrightarrow>
     (resp_status resp = 200 \<longrightarrow> read_seen root tr k i (Some (resp_body resp))) \<and>
     (resp_status resp = 404 \<longrightarrow> read_seen root tr k i None))"

lemma read_seen_snoc: "read_seen root tr k i v \<Longrightarrow> read_seen root (tr @ [x]) k i v"
  by (auto simp: read_seen_def)

lemma read_ok_snoc:
  assumes "read_ok root tr k T"
  shows "read_ok root (tr @ [x]) k T"
  using assms read_seen_snoc unfolding read_ok_def by blast

lemma local_get_view:
  assumes "local_ok root s" and "block_id_ok i" and "g \<noteq> Some IoNotFound"
  shows "resp_status (get_reply (local_get root g i s)) = 200 \<Longrightarrow> fs_view root s i = Some (resp_body (get_reply (local_get root g i s)))"
    and "resp_status (get_reply (local_get root g i s)) = 404 \<Longrightarrow> fs_view root s i = None"
proof -
  have "(resp_status (get_reply (local_get root g i s)) = 200 \<longrightarrow> fs_view root s i = Some (resp_body (get_reply (local_get root g i s)))) \<and>
    (resp_status (get_reply (local_get root g i s)) = 404 \<longrightarrow> fs_view root s i = None)"
  proof (cases g)
    case None
    then show ?thesis using local_get_calm [OF assms(1,2)] by (auto simp: get_reply_def handler_defs split: option.splits)
  next
    case (Some e)
    then show ?thesis using assms(3)
      by (auto simp: local_get_def read_file_def get_reply_def backend_error_def handler_defs split: io_error.splits)
  qed
  then show "resp_status (get_reply (local_get root g i s)) = 200 \<Longrightarrow> fs_view root s i = Some (resp_body (get_reply (local_get root g i s)))"
    and "resp_status (get_reply (local_get root g i s)) = 404 \<Longrightarrow> fs_view root s i = None" by blast+
qed

lemma read_ok_step:
  assumes "request_step X W E T (cs_shared S) = (T', S')" and "task_inv X W b H P T"
    and "bd_storage b = Some root" and "local_ok root (sh_fs (cs_shared S))" and "se_fault E \<noteq> Some IoNotFound"
    and "read_ok root tr k T"
  shows "read_ok root (tr @ [(S, EvStep k E)]) k T'"
  unfolding read_ok_def
proof (intro allI impI)
  fix resp ctx r n i
  assume resp: "ct_pc T' = Answered resp" and "ct_route T' = RouteBlock ctx r n" "request_block_id (ct_request T') = Some i"
    "req_method (ct_request T') = ''GET''"
  then have T: "ct_route T = RouteBlock ctx r n" "request_block_id (ct_request T) = Some i" "req_method (ct_request T) = ''GET''"
    using request_step_keeps(1,2) [OF assms(1)] by (auto simp del: route_subject.simps)
  let ?tr = "tr @ [(S, EvStep k E)]"
  have now: "read_seen root ?tr k i (fs_view root (sh_fs (cs_shared S)) i)" by (auto simp: read_seen_def)
  from assms(1) resp show "(resp_status resp = 200 \<longrightarrow> read_seen root ?tr k i (Some (resp_body resp))) \<and>
      (resp_status resp = 404 \<longrightarrow> read_seen root ?tr k i None)"
  proof (cases rule: request_step_answers)
    case before
    then show ?thesis using assms(6) T read_seen_snoc unfolding read_ok_def by blast
  next
    case (get j)
    have j: "j = i" using assms(2) get(1) T by (simp add: task_inv_def pc_inv_def on_block_def)
    note root = block_pc_root [OF assms(2,3) disjI2 [OF disjI2 [OF get(1)]]]
    show ?thesis
      using local_get_view [OF assms(4) root(2) assms(5)] get(2) root(1) j now by auto
  next
    case early
    then show ?thesis using T by (simp add: early_answer_def)
  next
    case (put j p q)
    then show ?thesis using assms(2) T(3) by (simp add: task_inv_def pc_inv_def on_block_def)
  next
    case (delete j)
    then show ?thesis using assms(2) T(3) by (simp add: task_inv_def pc_inv_def on_block_def)
  qed
qed

lemma run_reads:
  assumes "conc_run X W nc b storage_env_ok (conc_init b now s) tr S" and "bd_storage b = Some root" and "local_ok root s"
  shows "cs_tasks S k = Some T \<Longrightarrow> read_ok root tr k T"
  using assms(1)
proof (induction arbitrary: k T rule: conc_run.induct)
  case conc_nil
  then show ?case by simp
next
  case (conc_snoc tr S ev S')
  note inv = run_inv [OF conc_snoc.hyps(1) assms(2,3)]
  have fs: "local_ok root (sh_fs (cs_shared S))" using inv(1) by (simp add: storage_ok_def put_machine_ok_def)
  have cancel: "read_ok root tr k (cancel_step U)" if "read_ok root tr k U" for k U
    using that by (auto simp: read_ok_def cancel_step_def split: request_pc.splits)
  have new: "read_ok root tr k \<lparr>ct_route = rt, ct_request = r, ct_pc = AtGuard, ct_gone = g, ct_accepted = acc\<rparr>" for k rt r g acc
    by (simp add: read_ok_def)
  from conc_snoc.hyps(3) show ?case
  proof cases
    case (step_request j U E U' S1)
    show ?thesis
    proof (cases "k = j")
      case True
      have "se_fault E \<noteq> Some IoNotFound" using conc_snoc.hyps(2) step_request(1) by (simp add: storage_env_ok_def)
      from read_ok_step [OF step_request(4) inv(2) [OF step_request(3)] assms(2) fs this conc_snoc.IH [OF step_request(3)]]
      show ?thesis using True step_request(1,2) conc_snoc.prems by simp
    next
      case False
      then show ?thesis using step_request(2) conc_snoc.prems conc_snoc.IH by (intro read_ok_snoc) simp
    qed
  qed (use conc_snoc.prems conc_snoc.IH cancel new in \<open>auto intro!: read_ok_snoc split: if_splits\<close>)
qed

end
