(* ===== verification/Concurrent_Sequential.thy ===== *)
theory Concurrent_Sequential
  imports Concurrent_Blocks
begin

section \<open>One request alone\<close>

text \<open>
  The request handling is modelled twice: as the function \<open>server_router\<close>, and cut at the points where
  other tasks can run. Here the two are tied together: what the function answers and leaves behind is what the
  cut model answers and leaves behind when nobody else interferes.
\<close>

subsection \<open>Steps without interference\<close>

text \<open>The environment of the sequential model, for one step. No time passes.\<close>

definition alone_env :: "auth_env \<Rightarrow> io_error option \<Rightarrow> 'body conc_task \<Rightarrow> shared \<Rightarrow> step_env \<Rightarrow> bool" where
  "alone_env A g T S E \<longleftrightarrow> sh_now S = ae_instant A \<and> se_http E = re_http (ae_refresh A) \<and> se_fault E = g \<and>
     se_clock E \<in> {ae_token_clock A, ae_proof_clock A, re_now (ae_refresh A)} \<and> CHR ''/'' \<notin> set (ce_random (se_call E)) \<and>
     (\<forall>c at p d. ct_pc T = AtInsert c at p d \<longrightarrow>
        d = sh_now S + unat (jti_replay_window_secs (ctx_auth_config (cr_ctx c))) * nanos_per_sec)"

inductive solo_step ::
    "'dk ext \<Rightarrow> 'body web_ext \<Rightarrow> auth_env \<Rightarrow> io_error option \<Rightarrow> 'body conc_task \<times> shared \<Rightarrow> 'body conc_task \<times> shared \<Rightarrow> bool"
  for X W A g where
  solo: "alone_env A g T S E \<Longrightarrow> request_step X W E T S = (T', S') \<Longrightarrow> solo_step X W A g (T, S) (T', S')"

lemma solo_run:
  assumes "(solo_step X W A g)\<^sup>*\<^sup>* (T, S) (T', S')" and "\<And>T S E tasks. alone_env A g T S E \<Longrightarrow>
      ok \<lparr>cs_shared = S, cs_tasks = tasks(k \<mapsto> T)\<rparr> (EvStep k E)"
    and "conc_run X W nc b ok S0 tr \<lparr>cs_shared = S, cs_tasks = tasks(k \<mapsto> T)\<rparr>"
  shows "\<exists>tr'. conc_run X W nc b ok S0 (tr @ tr') \<lparr>cs_shared = S', cs_tasks = tasks(k \<mapsto> T')\<rparr>"
  using assms(1)
proof (induction rule: rtranclp_induct2)
  case refl
  then show ?case using assms(3) by (metis append_Nil2)
next
  case (step T1 S1 T2 S2)
  then obtain tr' where run: "conc_run X W nc b ok S0 (tr @ tr') \<lparr>cs_shared = S1, cs_tasks = tasks(k \<mapsto> T1)\<rparr>" by blast
  from step.hyps(2) obtain E where E: "alone_env A g T1 S1 E" "request_step X W E T1 S1 = (T2, S2)"
    by (auto elim: solo_step.cases)
  have "conc_step X W nc b \<lparr>cs_shared = S1, cs_tasks = tasks(k \<mapsto> T1)\<rparr> (EvStep k E) \<lparr>cs_shared = S2, cs_tasks = tasks(k \<mapsto> T2)\<rparr>"
    using step_request [of "\<lparr>cs_shared = S1, cs_tasks = tasks(k \<mapsto> T1)\<rparr>" k T1 X W E T2 S2 nc b] E(2) by simp
  from conc_snoc [OF run assms(2) [OF E(1)] this] show ?case by (metis append.assoc)
qed

definition the_env :: "auth_env \<Rightarrow> io_error option \<Rightarrow> u64 option \<Rightarrow> call_env \<Rightarrow> step_env" where
  "the_env A g clock C = \<lparr>se_clock = clock, se_http = re_http (ae_refresh A), se_call = C, se_fault = g\<rparr>"

lemma the_env_simps [simp]:
  "se_clock (the_env A g clock C) = clock" "se_http (the_env A g clock C) = re_http (ae_refresh A)"
  "se_call (the_env A g clock C) = C" "se_fault (the_env A g clock C) = g"
  by (simp_all add: the_env_def)

lemma solo_token_clock:
  assumes "request_step X W (the_env A g (ae_token_clock A) (the_call None)) T S = (T', S')" and "sh_now S = ae_instant A"
    and "\<And>c at p d. ct_pc T \<noteq> AtInsert c at p d"
  shows "solo_step X W A g (T, S) (T', S')"
  by (rule solo [OF _ assms(1)]) (simp add: alone_env_def assms(2,3) the_call_def)

lemma solo_refresh_clock:
  assumes "on_demand_step X (re_now (ae_refresh A)) (re_http (ae_refresh A)) c header alg e pc T S = (T', S')"
    and "ct_pc T = AtRefresh c header alg e pc" and "sh_now S = ae_instant A"
  shows "solo_step X W A g (T, S) (T', S')"
proof (rule solo)
  show "alone_env A g T S (the_env A g (re_now (ae_refresh A)) (the_call None))"
    by (simp add: alone_env_def assms(2,3) the_call_def)
  show "request_step X W (the_env A g (re_now (ae_refresh A)) (the_call None)) T S = (T', S')"
    using assms(1) by (simp add: request_step_refresh [OF assms(2)])
qed

lemma solo_proof_clock:
  assumes "request_step X W (the_env A g (ae_proof_clock A) (the_call None)) T S = (T', S')" and "sh_now S = ae_instant A"
    and "\<And>c at p d. ct_pc T = AtInsert c at p d \<Longrightarrow>
      d = sh_now S + unat (jti_replay_window_secs (ctx_auth_config (cr_ctx c))) * nanos_per_sec"
  shows "solo_step X W A g (T, S) (T', S')"
  by (rule solo [OF _ assms(1)]) (use assms(2,3) in \<open>auto simp: alone_env_def the_call_def\<close>)

lemma answer_update [simp]: "answer resp (T\<lparr>ct_pc := pc\<rparr>) = answer resp T"
  by (simp add: answer_def)

subsection \<open>The guard\<close>

lemma claims_checked_update [simp]: "claims_checked X clock c claims (T\<lparr>ct_pc := pc\<rparr>) = claims_checked X clock c claims T"
  by (simp add: claims_checked_def split: sum.splits)

lemma solo_refresh:
  assumes "refresh_calls X (re_now (ae_refresh A)) (re_http (ae_refresh A)) (cr_addr c) pc h q h'"
    and "ct_pc T = AtRefresh c header alg e pc" and "sh_contexts S = h" and "sh_now S = ae_instant A"
  shows "(solo_step X W A g)\<^sup>*\<^sup>* (T, S)
    (if q then T\<lparr>ct_pc := AtRetry c header alg e\<rparr> else answer (failure_response e) T, S\<lparr>sh_contexts := h'\<rparr>)"
  using assms
proof (induction arbitrary: T S rule: refresh_calls.induct)
  case (calls_last pc h q h')
  then show ?case
    by (intro r_into_rtranclp solo_refresh_clock [where pc = pc]) (simp_all add: on_demand_step_def)
next
  case (calls_more pc h pc' h1 q h')
  let ?T1 = "T\<lparr>ct_pc := AtRefresh c header alg e pc'\<rparr>" and ?S1 = "S\<lparr>sh_contexts := h1\<rparr>"
  have "solo_step X W A g (T, S) (?T1, ?S1)"
    using calls_more.prems calls_more.hyps(1) by (intro solo_refresh_clock [where pc = pc]) (simp_all add: on_demand_step_def)
  from converse_rtranclp_into_rtranclp [OF this calls_more.IH [of ?T1 ?S1]] calls_more.prems(3) show ?case by (simp cong: if_cong)
qed

lemma solo_token:
  assumes "validate_token X (ae_refresh A) (ae_token_clock A) (sh_contexts S) (cr_addr c) (cr_ctx c) (cr_token c) = Returns (res, h')"
    and "ct_pc T = AtToken c" and "sh_now S = ae_instant A" and "undisturbed (ae_refresh A)"
  shows "(solo_step X W A g)\<^sup>*\<^sup>* (T, S)
    (case res of Inl f \<Rightarrow> answer (failure_response f) T | Inr at \<Rightarrow> T\<lparr>ct_pc := AtProof c at\<rparr>, S\<lparr>sh_contexts := h'\<rparr>)"
proof -
  let ?clock = "ae_token_clock A"
  have same: "S\<lparr>sh_contexts := sh_contexts S\<rparr> = S" by simp
  have one: "(solo_step X W A g)\<^sup>*\<^sup>* (T, S) (token_step X ?clock (sh_contexts S) c T, S)"
    by (rule r_into_rtranclp, rule solo_token_clock) (simp_all add: assms(2,3) request_step_def)
  show ?thesis
  proof (cases "jwt_decode_header X (cr_token c)")
    case (Inl e)
    then have "res = Inl InvalidAlg" "h' = sh_contexts S" using assms(1) by (simp_all add: validate_token_def)
    then show ?thesis using one Inl by (simp add: token_step_def)
  next
    case (Inr header)
    note hd = this
    show ?thesis
    proof (cases "allowlist_alg (hdr_alg header)")
      case (Inl e)
      then have "res = Inl e" "h' = sh_contexts S" using assms(1) hd by (simp_all add: validate_token_def)
      then show ?thesis using one Inl hd by (simp add: token_step_def)
    next
      case (Inr alg)
      note al = this
      have attempt: "token_attempt X h c header alg = try_decode_with_current_jwks X (cr_token c) header
          (token_validation X alg (clock_skew_secs (ctx_auth_config (cr_ctx c))))
          (case h (cr_addr c) of None \<Rightarrow> ctx_jwks (cr_ctx c) | Some c' \<Rightarrow> ctx_jwks c')" for h
        by (simp add: token_attempt_def)
      show ?thesis
      proof (cases "token_attempt X (sh_contexts S) c header alg")
        case (Inr claims)
        then have "res = check_token_claims X ?clock (cr_ctx c) claims" "h' = sh_contexts S"
          using assms(1) hd al by (simp_all add: validate_token_def Let_def attempt)
        then show ?thesis using one Inr hd al by (simp add: token_step_def claims_checked_def)
      next
        case (Inl e)
        let ?T1 = "T\<lparr>ct_pc := AtRefresh c header alg e RLoad\<rparr>" and ?T2 = "T\<lparr>ct_pc := AtRetry c header alg e\<rparr>"
        have first: "(solo_step X W A g)\<^sup>*\<^sup>* (T, S) (?T1, S)" using one Inl hd al by (simp add: token_step_def)
        obtain q h1 where q: "on_demand_refresh X (ae_refresh A) (sh_contexts S) (cr_addr c) = Returns (q, h1)"
          using assms(1) hd al Inl by (auto simp: validate_token_def Let_def attempt result_simps)
        have h: "h' = h1" "res = (if \<not> q then Inl e else (case token_attempt X h1 c header alg of
            Inr claims \<Rightarrow> check_token_claims X ?clock (cr_ctx c) claims | Inl _ \<Rightarrow> Inl e))"
          using assms(1) hd al Inl q by (auto simp: validate_token_def Let_def attempt split: if_splits sum.splits)
        have calls: "refresh_calls X (re_now (ae_refresh A)) (re_http (ae_refresh A)) (cr_addr c) RLoad (sh_contexts S) q h1"
          using on_demand_refresh_calls q assms(4) undisturbed_alone by metis
        have second: "(solo_step X W A g)\<^sup>*\<^sup>* (T, S) (if q then ?T2 else answer (failure_response e) T, S\<lparr>sh_contexts := h1\<rparr>)"
          using rtranclp_trans [OF first solo_refresh [OF calls, of ?T1 header alg e S]] assms(3) by (simp cong: if_cong)
        have third: "solo_step X W A g (?T2, S\<lparr>sh_contexts := h1\<rparr>)
            (retry_step X ?clock h1 c header alg e ?T2, S\<lparr>sh_contexts := h1\<rparr>)"
          by (rule solo_token_clock) (simp_all add: request_step_def assms(3))
        show ?thesis
        proof (cases q)
          case False
          then show ?thesis using second h by simp
        next
          case True
          then have "(solo_step X W A g)\<^sup>*\<^sup>* (T, S) (retry_step X ?clock h1 c header alg e ?T2, S\<lparr>sh_contexts := h1\<rparr>)"
            using second third by (simp add: rtranclp.rtrancl_into_rtrancl)
          then show ?thesis using h True by (simp add: retry_step_def claims_checked_def split: sum.splits)
        qed
      qed
    qed
  qed
qed

lemma try_insert_parts:
  "try_insert st k d = (case try_insert_entries st k d of
     (Inl e, st') \<Rightarrow> (Inl e, st) | (Inr _, st') \<Rightarrow> (Inr (), try_insert_push st' k d))"
  by (auto simp: try_insert_def dest: try_insert_entries_refused split: prod.splits sum.splits)

text \<open>The task and the store after the proof was checked.\<close>

definition after_proof :: "access_token \<Rightarrow> (auth_failure + dpop_proof) \<Rightarrow> 'body conc_task \<Rightarrow> 'body conc_task \<Rightarrow> bool" where
  "after_proof at res T T' = (case res of
      Inl f \<Rightarrow> T' = answer (failure_response f) T
    | Inr _ \<Rightarrow> (\<exists>acc. T' = T\<lparr>ct_pc := AtHandler, ct_request := route_subject (ct_route T) (at_sub at) (ct_request T),
         ct_accepted := Some acc\<rparr>))"

lemma solo_proof:
  assumes "validate_proof X (ae_proof_clock A) (ae_instant A) (cr_ctx c) (sys_store (sh_replay S)) (cr_proof c)
      (req_method (ct_request T)) (cr_uri c) at (cr_token c) = (res, st')"
    and "ct_pc T = AtProof c at" and "sh_now S = ae_instant A"
  shows "\<exists>T'. (solo_step X W A g)\<^sup>*\<^sup>* (T, S) (T', S\<lparr>sh_replay := (sh_replay S)\<lparr>sys_store := st'\<rparr>\<rparr>) \<and> after_proof at res T T'"
proof -
  let ?clock = "ae_proof_clock A" and ?R = "sh_replay S"
  let ?w = "jti_replay_window_secs (ctx_auth_config (cr_ctx c))"
  have one: "(solo_step X W A g)\<^sup>*\<^sup>* (T, S) (proof_step X ?clock (ae_instant A) c at T, S)"
    by (rule r_into_rtranclp, rule solo_proof_clock) (simp_all add: assms(2,3) request_step_def)
  show ?thesis
  proof (cases "check_proof X ?clock (cr_ctx c) (cr_proof c) (req_method (ct_request T)) (cr_uri c) at (cr_token c)")
    case (Inl f)
    then have "res = Inl f" "st' = sys_store ?R" using assms(1) by (simp_all add: validate_proof_def)
    then show ?thesis using one Inl by (auto simp: proof_step_def after_proof_def)
  next
    case (Inr p)
    note chk = this
    show ?thesis
    proof (cases "instant_checked_add (ae_instant A) ?w")
      case None
      then have "res = Inl ProofIatStale" "st' = sys_store ?R" using assms(1) chk by (simp_all add: validate_proof_def Let_def)
      then show ?thesis using one chk None by (auto simp: proof_step_def after_proof_def)
    next
      case (Some d)
      let ?key = "proof_key X c p" and ?T1 = "T\<lparr>ct_pc := AtInsert c at p d\<rparr>"
      have d: "d = sh_now S + unat ?w * nanos_per_sec" using instant_checked_add_Some [OF Some] assms(3) by simp
      have first: "(solo_step X W A g)\<^sup>*\<^sup>* (T, S) (?T1, S)" using one chk Some by (simp add: proof_step_def)
      obtain T2 R2 where i: "insert_step X c at p d ?T1 ?R = (T2, R2)" by fastforce
      have "solo_step X W A g (?T1, S) (T2, S\<lparr>sh_replay := R2\<rparr>)"
        by (rule solo_proof_clock) (simp add: request_step_def i, simp add: assms(3), use d in simp)
      with first have second: "(solo_step X W A g)\<^sup>*\<^sup>* (T, S) (T2, S\<lparr>sh_replay := R2\<rparr>)" by (rule rtranclp.rtrancl_into_rtrancl)
      from i show ?thesis
      proof (cases rule: insert_outcomes)
        case (accepted st)
        have res: "res = Inr p" "st' = try_insert_push st ?key d"
          using assms(1) chk Some accepted(1) by (simp_all add: validate_proof_def try_insert_parts flip: proof_key_def)
        have "solo_step X W A g (T2, S\<lparr>sh_replay := R2\<rparr>)
          (T\<lparr>ct_pc := AtHandler, ct_request := route_subject (ct_route T) (at_sub at) (ct_request T),
             ct_accepted := Some (p, ?key, d)\<rparr>, S\<lparr>sh_replay := ?R\<lparr>sys_store := st'\<rparr>\<rparr>)"
          by (rule solo_proof_clock) (simp_all add: request_step_def push_step_def Let_def accepted res(2) assms(3))
        with second show ?thesis using res(1) unfolding after_proof_def by (auto intro: rtranclp.rtrancl_into_rtrancl)
      next
        case (refused e f)
        have same: "R2 = ?R" using refused(1,3) try_insert_entries_refused by (metis replay_sys.surjective replay_sys.update_convs(1))
        then have "st' = sys_store ?R" "res = Inl (case e of Replayed \<Rightarrow> ProofReplayed | MemoryPressure \<Rightarrow> AuthMemoryPressure)"
          using assms(1) chk Some refused(1)
          by (auto simp: validate_proof_def try_insert_parts split: insert_error.splits simp flip: proof_key_def)
        moreover have "T2 = answer (failure_response (case e of Replayed \<Rightarrow> ProofReplayed | MemoryPressure \<Rightarrow> AuthMemoryPressure)) T"
          using i refused(1) by (auto simp: insert_step_def Let_def split: insert_error.splits)
        ultimately show ?thesis using second same by (auto simp: after_proof_def)
      qed
    qed
  qed
qed

text \<open>The guard as a whole.\<close>

lemma authenticate_common_eq:
  "authenticate_common X A a ctx r h st =
     (case credentials_of X a ctx r of
        Inl f \<Rightarrow> Returns (Inl f, h, st)
      | Inr c \<Rightarrow> bind_outcome (validate_token X (ae_refresh A) (ae_token_clock A) h (cr_addr c) (cr_ctx c) (cr_token c)) (\<lambda>(res, h').
          case res of
             Inl f \<Rightarrow> Returns (Inl f, h', st)
           | Inr at \<Rightarrow>
               (let (res', st') = validate_proof X (ae_proof_clock A) (ae_instant A) (cr_ctx c) st (cr_proof c)
                  (req_method r) (cr_uri c) at (cr_token c) in
                Returns (map_sum id (\<lambda>_. at_sub at) res', h', st'))))"
  unfolding authenticate_common_def credentials_of_def
  by (cases "extract_token r"; cases "extract_proof r"; cases "build_effective_uri X r")
    (simp_all add: bind_result_def cong: sum.case_cong)

definition after_guard :: "(auth_failure + string) \<Rightarrow> 'body conc_task \<Rightarrow> 'body conc_task \<Rightarrow> bool" where
  "after_guard res T T' = (case res of
      Inl f \<Rightarrow> T' = answer (failure_response f) T
    | Inr sub \<Rightarrow> (\<exists>acc. T' = T\<lparr>ct_pc := AtHandler, ct_request := route_subject (ct_route T) sub (ct_request T),
         ct_accepted := Some acc\<rparr>))"

lemma solo_guard:
  assumes "authenticate_common X A a ctx (ct_request T) (sh_contexts S) (sys_store (sh_replay S)) = Returns (res, h', st')"
    and "route_guard (ct_route T) = Some (a, ctx, methods)" and "req_method (ct_request T) \<in> set methods"
    and "ct_pc T = AtGuard" and "sh_now S = ae_instant A" and "undisturbed (ae_refresh A)"
  shows "\<exists>T'. (solo_step X W A g)\<^sup>*\<^sup>* (T, S)
      (T', S\<lparr>sh_contexts := h', sh_replay := (sh_replay S)\<lparr>sys_store := st'\<rparr>\<rparr>) \<and> after_guard res T T'"
proof -
  have one: "(solo_step X W A g)\<^sup>*\<^sup>* (T, S) (guard_start X T, S)"
    by (rule r_into_rtranclp, rule solo_token_clock) (simp_all add: assms(4,5) request_step_def)
  show ?thesis
  proof (cases "credentials_of X a ctx (ct_request T)")
    case (Inl f)
    then have "res = Inl f" "h' = sh_contexts S" "st' = sys_store (sh_replay S)"
      using assms(1) by (simp_all add: authenticate_common_eq)
    then show ?thesis using one Inl assms(2,3) by (auto simp: guard_start_def after_guard_def)
  next
    case (Inr c)
    let ?T1 = "T\<lparr>ct_pc := AtToken c\<rparr>"
    have first: "(solo_step X W A g)\<^sup>*\<^sup>* (T, S) (?T1, S)" using one Inr assms(2,3) by (simp add: guard_start_def)
    obtain tok h1 where tok: "validate_token X (ae_refresh A) (ae_token_clock A) (sh_contexts S) (cr_addr c) (cr_ctx c) (cr_token c) =
        Returns (tok, h1)"
      using assms(1) Inr by (auto simp: authenticate_common_eq result_simps)
    have second: "(solo_step X W A g)\<^sup>*\<^sup>* (T, S)
        (case tok of Inl f \<Rightarrow> answer (failure_response f) T | Inr at \<Rightarrow> T\<lparr>ct_pc := AtProof c at\<rparr>, S\<lparr>sh_contexts := h1\<rparr>)"
      using rtranclp_trans [OF first solo_token [OF tok, of ?T1]] assms(5,6) by (simp split: sum.splits)
    show ?thesis
    proof (cases tok)
      case (Inl f)
      then have "res = Inl f" "h' = h1" "st' = sys_store (sh_replay S)"
        using assms(1) Inr tok by (simp_all add: authenticate_common_eq)
      then show ?thesis using second Inl by (auto simp: after_guard_def)
    next
      case (Inr at)
      let ?T2 = "T\<lparr>ct_pc := AtProof c at\<rparr>" and ?S2 = "S\<lparr>sh_contexts := h1\<rparr>"
      obtain res' where v: "validate_proof X (ae_proof_clock A) (ae_instant A) (cr_ctx c) (sys_store (sh_replay S)) (cr_proof c)
          (req_method (ct_request T)) (cr_uri c) at (cr_token c) = (res', st')" "res = map_sum id (\<lambda>_. at_sub at) res'" "h' = h1"
        using assms(1) \<open>credentials_of X a ctx (ct_request T) = Inr c\<close> tok Inr
        by (auto simp: authenticate_common_eq split: prod.splits)
      obtain T' where T': "(solo_step X W A g)\<^sup>*\<^sup>* (?T2, ?S2) (T', ?S2\<lparr>sh_replay := (sh_replay S)\<lparr>sys_store := st'\<rparr>\<rparr>)" "after_proof at res' ?T2 T'"
        using solo_proof [of X A c ?S2 ?T2 at res' st'] v(1) assms(5) by auto
      have "after_guard res T T'" using T'(2) v(2) by (auto simp: after_proof_def after_guard_def split: sum.splits)
      moreover have "(solo_step X W A g)\<^sup>*\<^sup>* (T, S) (T', S\<lparr>sh_contexts := h', sh_replay := (sh_replay S)\<lparr>sys_store := st'\<rparr>\<rparr>)"
        using rtranclp_trans [OF second, of "(T', ?S2\<lparr>sh_replay := (sh_replay S)\<lparr>sys_store := st'\<rparr>\<rparr>)"] T'(1) Inr v(3) by simp
      ultimately show ?thesis by blast
    qed
  qed
qed

subsection \<open>The handlers\<close>

lemma handle_put_admits:
  "put_admits tb n r = None \<Longrightarrow> handle_put tb ops i sub addr n r s = (respond_block_400, [], s)"
  "put_admits tb n r = Some b \<Longrightarrow> so_put ops i b s = (res, s') \<Longrightarrow> \<exists>log. handle_put tb ops i sub addr n r s = (put_reply res, log, s')"
  by (auto simp: put_admits_def handle_put_def put_reply_def bind_eq_Some_conv split: if_splits option.splits sum.splits storage_error.splits)

lemma solo_calls:
  assumes "(call_step root i b)\<^sup>*\<^sup>* (pc, s) (PcDone r, s')" and "route_root (ct_route T) = root" and "sh_now S = ae_instant A"
  shows "(solo_step X W A g)\<^sup>*\<^sup>* (T\<lparr>ct_pc := AtPut i b pc\<rparr>, S\<lparr>sh_fs := s\<rparr>) (T\<lparr>ct_pc := AtPut i b (PcDone r)\<rparr>, S\<lparr>sh_fs := s'\<rparr>)"
  using assms(1)
proof (induction rule: converse_rtranclp_induct2)
  case refl
  then show ?case by simp
next
  case (step pc s pc1 s1)
  from step.hyps(1) obtain C where C: "CHR ''/'' \<notin> set (ce_random C)" "put_call root i b C pc s = (pc1, s1)"
    by (auto elim: call_step.cases)
  show ?case
  proof (cases "\<exists>q. pc = PcDone q")
    case True
    then have "pc1 = pc" "s1 = s" using C(2) by (auto simp: put_call_def Let_def)
    then show ?thesis using step.IH by simp
  next
    case False
    then have "put_step root C i b pc (T\<lparr>ct_pc := AtPut i b pc\<rparr>) s = (T\<lparr>ct_pc := AtPut i b pc1\<rparr>, s1)"
      using C(2) by (cases pc) (simp_all add: put_step_def)
    then have "solo_step X W A g (T\<lparr>ct_pc := AtPut i b pc\<rparr>, S\<lparr>sh_fs := s\<rparr>) (T\<lparr>ct_pc := AtPut i b pc1\<rparr>, S\<lparr>sh_fs := s1\<rparr>)"
      by (intro solo [where E = "the_env A g (ae_token_clock A) C"])
        (simp_all add: alone_env_def C(1) assms(2,3) request_step_def)
    then show ?thesis using step.IH by (rule converse_rtranclp_into_rtranclp)
  qed
qed

lemma solo_block:
  assumes "handle_block (web_to_bytes W) (local_ops root E g) n (ct_request T) (sh_fs S) = (resp, log, s')"
    and "ct_route T = RouteBlock ctx root n" and "ct_pc T = AtHandler" and "sh_now S = ae_instant A"
    and "local_ok root (sh_fs S)" and "put_env_ok E"
    and "\<And>i b. request_block_id (ct_request T) = Some i \<Longrightarrow> put_admits (web_to_bytes W) n (ct_request T) = Some b \<Longrightarrow> put_env_real E root i b"
  shows "(solo_step X W A g)\<^sup>*\<^sup>* (T, S) (answer resp T, S\<lparr>sh_fs := s'\<rparr>)"
proof -
  let ?r = "ct_request T"
  have root: "route_root (ct_route T) = root" by (simp add: assms(2) route_root_def)
  have one: "(solo_step X W A g)\<^sup>*\<^sup>* (T, S) (block_start W root n T, S)"
    by (rule r_into_rtranclp, rule solo_token_clock) (simp_all add: assms(2-4) request_step_def handler_start_def)
  have final: "(solo_step X W A g)\<^sup>*\<^sup>* (T, S) (T', S')"
    if "(solo_step X W A g)\<^sup>*\<^sup>* (T, S) (T1, S1)" "sh_now S1 = ae_instant A" "\<And>c at p d. ct_pc T1 \<noteq> AtInsert c at p d"
      "request_step X W (the_env A g (ae_token_clock A) (the_call None)) T1 S1 = (T', S')" for T1 S1 T' S'
    using that(1) solo_token_clock [OF that(4,2,3)] by (rule rtranclp.rtrancl_into_rtrancl)
  show ?thesis
  proof (cases "request_block_id ?r")
    case None
    then show ?thesis using one assms(1) by (auto simp: block_start_def handle_block_malformed)
  next
    case (Some i)
    note d = handle_block_dispatch [OF Some]
    consider "req_method ?r = ''GET''" | "req_method ?r = ''PUT''" | "req_method ?r = ''DELETE''"
      | "req_method ?r \<notin> {''GET'', ''PUT'', ''DELETE''}" by blast
    then show ?thesis
    proof cases
      case 1
      then have r: "resp = get_reply (local_get root g i (sh_fs S))" "s' = sh_fs S"
        using assms(1) by (auto simp: d(1) [OF 1] handle_get_def local_ops_def get_reply_def split: sum.splits storage_error.splits)
      have "(solo_step X W A g)\<^sup>*\<^sup>* (T, S) (T\<lparr>ct_pc := AtGet i\<rparr>, S)" using one Some 1 by (simp add: block_start_def)
      from final [OF this assms(4), of "answer resp T" S] show ?thesis using r root by (simp add: request_step_def)
    next
      case 2
      show ?thesis
      proof (cases "put_admits (web_to_bytes W) n ?r")
        case None
        then show ?thesis using one assms(1) 2 Some by (auto simp: d(2) [OF 2] handle_put_admits(1) [OF None] block_start_def)
      next
        case (Some b)
        obtain res s1 where p: "run_put E root i b (sh_fs S) = (res, s1)" by force
        have sp: "so_put (local_ops root E g) i b (sh_fs S) = (res, s1)" by (simp add: local_ops_def p)
        obtain lg where "handle_put (web_to_bytes W) (local_ops root E g) i (subject_from_request ?r) (address_from_request ?r)
            n ?r (sh_fs S) = (put_reply res, lg, s1)"
          using handle_put_admits(2) [OF Some sp] by blast
        then have r: "resp = put_reply res" "s' = s1" using assms(1) by (simp_all add: d(2) [OF 2])
        let ?ps = "PcDirs (path_prefixes [] (shard_dir root i))"
        have first: "(solo_step X W A g)\<^sup>*\<^sup>* (T, S) (T\<lparr>ct_pc := AtPut i b ?ps\<rparr>, S\<lparr>sh_fs := sh_fs S\<rparr>)"
          using one \<open>request_block_id ?r = Some i\<close> 2 Some by (simp add: block_start_def)
        have calls: "(call_step root i b)\<^sup>*\<^sup>* (?ps, sh_fs S) (PcDone res, s1)"
          using calls_run_put [OF assms(5) request_block_id_ok assms(6,7) p] \<open>request_block_id ?r = Some i\<close> Some by blast
        from final [OF rtranclp_trans [OF first solo_calls [OF calls root assms(4)]], of "answer resp T" "S\<lparr>sh_fs := s'\<rparr>"] show ?thesis
          using r assms(4) by (simp add: request_step_def put_step_def)
      qed
    next
      case 3
      obtain res s1 where del: "local_delete root g i (sh_fs S) = (res, s1)" by force
      then have r: "resp = delete_reply res" "s' = s1"
        using assms(1) by (auto simp: d(3) [OF 3] handle_delete_def local_ops_def delete_reply_def split: sum.splits storage_error.splits)
      have "(solo_step X W A g)\<^sup>*\<^sup>* (T, S) (T\<lparr>ct_pc := AtDelete i\<rparr>, S)" using one Some 3 by (simp add: block_start_def)
      from final [OF this assms(4), of "answer resp T" "S\<lparr>sh_fs := s'\<rparr>"] show ?thesis
        using r root del by (simp add: request_step_def delete_step_def)
    next
      case 4
      then show ?thesis using one assms(1) Some by (auto simp: d(4) [OF 4] block_start_def)
    qed
  qed
qed

subsection \<open>The router\<close>

definition inner_service :: "'body web_ext \<Rightarrow> put_env \<Rightarrow> io_error option \<Rightarrow> route \<Rightarrow> ('body, fs) service" where
  "inner_service W E g rt = (case rt of
      RouteBlock _ root n \<Rightarrow> block_service W (local_ops root E g) n
    | _ \<Rightarrow> plain_service W rt)"

definition route_service ::
    "'dk ext \<Rightarrow> 'body web_ext \<Rightarrow> auth_env \<Rightarrow> put_env \<Rightarrow> io_error option \<Rightarrow> route \<Rightarrow> ('body, fs) service" where
  "route_service X W A E g rt = (case route_guard rt of
      None \<Rightarrow> inner_service W E g rt
    | Some (a, ctx, methods) \<Rightarrow> guard_call (route_subject rt) (\<lambda>m. m \<in> set methods) X A a ctx (inner_service W E g rt))"

lemma route_subject_fun:
  "route_subject (RouteWhoami ctx) = (\<lambda>sub r. r\<lparr>ext_vault_subject := Some (vault_subject_new sub)\<rparr>)"
  "route_subject (RouteBlock ctx root n) = (\<lambda>sub r. r\<lparr>ext_vault_subject := Some (vault_subject_new sub)\<rparr>)"
  "route_subject (RouteAdmin ctx) = (\<lambda>sub r. r\<lparr>ext_admin_subject := Some (admin_subject_new sub)\<rparr>)"
  by (simp_all add: fun_eq_iff)

lemma route_service_simps:
  "route_service X W A E g RouteHealth = handle_health W"
  "route_service X W A E g RouteFallback = fallback_404"
  "route_service X W A E g (RouteWhoami ctx) = vault_guard_call [''GET''] X A vault_addr ctx (handle_whoami W)"
  "route_service X W A E g (RouteBlock ctx root n) = vault_guard_call block_methods X A vault_addr ctx (block_service W (local_ops root E g) n)"
  "route_service X W A E g (RouteAdmin ctx) = admin_guard_call X A admin_addr ctx (handle_admin_whoami W)"
  by (simp_all add: route_service_def inner_service_def vault_guard_call_def admin_guard_call_def route_subject_fun)

text \<open>The router dispatches on the same table.\<close>

lemma server_router_route:
  assumes "r' = r\<lparr>ext_effective_address := Some (request_effective_address nc (trusted_proxies (bd_config b)) r)\<rparr>"
  shows "server_router X W nc b A E g r s = route_service X W A E g (route_of W b r') r' s"
proof -
  let ?rs = "router_routes X A W (block_size_bytes (bd_config b)) (map_option (Pair vault_addr) (bd_contexts b vault_addr))
    (map_option (Pair admin_addr) (bd_contexts b admin_addr)) True (map_option (\<lambda>root. local_ops root E g) (bd_storage b))"
  have "?rs = map (\<lambda>(p, rt). (p, route_service X W A E g rt)) (route_table b)"
    by (simp add: router_routes_def vault_routes_def whoami_routes_def block_routes_def admin_routes_def route_table_def
        route_service_simps split: option.splits)
  then have "map fst ?rs = map fst (route_table b)" "map_of ?rs p = map_option (route_service X W A E g) (map_of (route_table b) p)" for p
    by (simp_all add: map_of_map comp_def case_prod_beta)
  then have "dispatch W ?rs fallback_404 r' s = route_service X W A E g (route_of W b r') r' s"
    by (cases "web_route W (map fst (route_table b)) (req_path r')")
      (simp_all add: dispatch_def route_of_def route_service_simps split: option.splits)
  then show ?thesis by (simp add: server_router_def build_router_def proxy_middleware_def assms)
qed

lemma solo_inner:
  assumes "inner_service W E g (ct_route T) (ct_request T) (shared_state S) = Returns (resp, log, s')"
    and "ct_pc T = AtHandler" and "sh_now S = ae_instant A" and "put_env_ok E"
    and "\<And>ctx root n. ct_route T = RouteBlock ctx root n \<Longrightarrow> local_ok root (sh_fs S) \<and>
      (\<forall>i b. request_block_id (ct_request T) = Some i \<longrightarrow> put_admits (web_to_bytes W) n (ct_request T) = Some b \<longrightarrow> put_env_real E root i b)"
  shows "\<exists>S'. (solo_step X W A g)\<^sup>*\<^sup>* (T, S) (answer resp T, S') \<and> shared_state S' = s' \<and> sh_now S' = sh_now S"
proof (cases "\<exists>ctx root n. ct_route T = RouteBlock ctx root n")
  case True
  then obtain ctx root n where rt: "ct_route T = RouteBlock ctx root n" by blast
  obtain fs' where h: "handle_block (web_to_bytes W) (local_ops root E g) n (ct_request T) (sh_fs S) = (resp, log, fs')"
      "s' = (shared_state S)\<lparr>ss_fs := fs'\<rparr>"
    using assms(1) rt by (auto simp: inner_service_def block_service_def shared_state_def split: prod.splits)
  have "(solo_step X W A g)\<^sup>*\<^sup>* (T, S) (answer resp T, S\<lparr>sh_fs := fs'\<rparr>)"
    by (rule solo_block [OF h(1) rt assms(2,3) _ assms(4)]) (use assms(5) [OF rt] in blast)+
  then show ?thesis using h(2) by (intro exI [of _ "S\<lparr>sh_fs := fs'\<rparr>"]) (simp add: shared_state_def)
next
  case False
  then have inner: "inner_service W E g (ct_route T) = plain_service W (ct_route T)"
    "handler_start W S T = (case plain_service W (ct_route T) (ct_request T) (shared_state S) of
       Returns (resp, _, _) \<Rightarrow> answer resp T | Panics \<Rightarrow> T\<lparr>ct_pc := Dropped\<rparr>)"
    by (auto simp: inner_service_def handler_start_def split: route.splits)
  have "s' = shared_state S"
    using assms(1) False by (cases "ct_route T") (auto simp: inner_service_def handler_defs split: if_splits option.splits)
  moreover have "solo_step X W A g (T, S) (answer resp T, S)"
    by (rule solo_token_clock) (use assms(1-3) inner in \<open>simp_all add: request_step_def\<close>)
  ultimately show ?thesis by blast
qed

lemma shared_state_guarded:
  "shared_state (S\<lparr>sh_contexts := h, sh_replay := (sh_replay S)\<lparr>sys_store := st\<rparr>\<rparr>) =
   (shared_state S)\<lparr>ss_contexts := h, ss_replay := st\<rparr>"
  by (simp add: shared_state_def)

lemma solo_route:
  assumes "route_service X W A E g (ct_route T) (ct_request T) (shared_state S) = Returns (resp, log, s')"
    and "ct_pc T = AtGuard" and "sh_now S = ae_instant A" and "put_env_ok E"
    and "\<And>ctx root n. ct_route T = RouteBlock ctx root n \<Longrightarrow> local_ok root (sh_fs S) \<and>
      (\<forall>i b. request_block_id (ct_request T) = Some i \<longrightarrow> put_admits (web_to_bytes W) n (ct_request T) = Some b \<longrightarrow> put_env_real E root i b)"
    and "undisturbed (ae_refresh A)"
  shows "\<exists>T' S'. (solo_step X W A g)\<^sup>*\<^sup>* (T, S) (T', S') \<and> ct_pc T' = Answered resp \<and> shared_state S' = s'"
proof -
  let ?bypass = "T\<lparr>ct_pc := AtHandler\<rparr>"
  have skip: ?thesis
    if start: "guard_start X T = ?bypass"
      and inner: "inner_service W E g (ct_route T) (ct_request T) (shared_state S) = Returns (resp, log, s')"
  proof -
    have one: "(solo_step X W A g)\<^sup>*\<^sup>* (T, S) (?bypass, S)"
      by (rule r_into_rtranclp, rule solo_token_clock) (simp_all add: assms(2,3) request_step_def start)
    obtain S' where "(solo_step X W A g)\<^sup>*\<^sup>* (?bypass, S) (answer resp ?bypass, S')" "shared_state S' = s'"
      using solo_inner [of W E g ?bypass S resp log s' A X] inner assms(3-5) by auto
    then show ?thesis using rtranclp_trans [OF one] by (metis answer_simps(1))
  qed
  show ?thesis
  proof (cases "route_guard (ct_route T)")
    case None
    then show ?thesis using skip assms(1) by (simp add: guard_start_def route_service_def)
  next
    case (Some q)
    obtain a ctx methods where q: "q = (a, ctx, methods)" by (cases q) auto
    have gc: "guard_call (route_subject (ct_route T)) (\<lambda>m. m \<in> set methods) X A a ctx (inner_service W E g (ct_route T))
        (ct_request T) (shared_state S) = Returns (resp, log, s')"
      using assms(1) Some q by (simp add: route_service_def)
    have st: "ss_contexts (shared_state S) = sh_contexts S" "ss_replay (shared_state S) = sys_store (sh_replay S)"
      by (simp_all add: shared_state_def)
    from gc show ?thesis
    proof (cases rule: guard_call_cases)
      case bypass
      then show ?thesis using skip Some q by (simp add: guard_start_def)
    next
      case (failed f h')
      let ?S1 = "S\<lparr>sh_contexts := h', sh_replay := (sh_replay S)\<lparr>sys_store := sys_store (sh_replay S)\<rparr>\<rparr>"
      obtain T' where T': "(solo_step X W A g)\<^sup>*\<^sup>* (T, S) (T', ?S1)" "after_guard (Inl f) T T'"
        using solo_guard [OF failed(2) [unfolded st] Some [unfolded q] failed(1) assms(2,3,6)] by blast
      have "ct_pc T' = Answered resp" using T'(2) failed(3) by (simp add: after_guard_def)
      moreover have "shared_state ?S1 = s'" using failed(3) by (simp add: shared_state_def)
      ultimately show ?thesis using T'(1) by blast
    next
      case (passed sub h' st')
      let ?S1 = "S\<lparr>sh_contexts := h', sh_replay := (sh_replay S)\<lparr>sys_store := st'\<rparr>\<rparr>"
      obtain T1 where T1: "(solo_step X W A g)\<^sup>*\<^sup>* (T, S) (T1, ?S1)" "after_guard (Inr sub) T T1"
        using solo_guard [OF passed(2) [unfolded st] Some [unfolded q] passed(1) assms(2,3,6)] by blast
      have f: "ct_route T1 = ct_route T" "ct_request T1 = route_subject (ct_route T) sub (ct_request T)" "ct_pc T1 = AtHandler"
        using T1(2) by (auto simp: after_guard_def)
      have "inner_service W E g (ct_route T1) (ct_request T1) (shared_state ?S1) = Returns (resp, log, s')"
        using passed(3) f(1,2) by (simp add: shared_state_guarded)
      then obtain S' where "(solo_step X W A g)\<^sup>*\<^sup>* (T1, ?S1) (answer resp T1, S')" "shared_state S' = s'"
        using solo_inner [of W E g T1 ?S1 resp log s' A X] f(3) assms(3-5) by (auto simp: f(1,2) simp del: route_subject.simps)
      then show ?thesis using rtranclp_trans [OF T1(1)] by (metis answer_simps(1))
    qed
  qed
qed

lemma solo_keeps:
  assumes "(solo_step X W A g)\<^sup>*\<^sup>* (T, S) (T', S')"
  shows "ct_route T' = ct_route T \<and> extract_proof (ct_request T') = extract_proof (ct_request T) \<and>
    request_block_id (ct_request T') = request_block_id (ct_request T)"
  using assms
proof (induction rule: rtranclp_induct2)
  case (step T1 S1 T2 S2)
  from step.hyps(2) obtain E where "request_step X W E T1 S1 = (T2, S2)" by (auto elim: solo_step.cases)
  from request_step_keeps(1,2) [OF this] step.IH show ?case by (auto simp del: route_subject.simps)
qed simp

lemma alone_run:
  assumes router: "server_router X W nc b A E g r (shared_state S) = Returns (resp, log, s')"
    and r': "r' = r\<lparr>ext_effective_address := Some (request_effective_address nc (trusted_proxies (bd_config b)) r)\<rparr>"
    and fresh: "tasks k = None" and now: "sh_now S = ae_instant A" and env: "put_env_ok E"
    and calm: "undisturbed (ae_refresh A)"
    and root: "\<And>root. bd_storage b = Some root \<Longrightarrow> local_ok root (sh_fs S)"
    and real: "\<And>root i p. bd_storage b = Some root \<Longrightarrow> request_block_id r = Some i \<Longrightarrow>
      put_admits (web_to_bytes W) (block_size_bytes (bd_config b)) r = Some p \<Longrightarrow> put_env_real E root i p"
    and ok: "ok \<lparr>cs_shared = S, cs_tasks = tasks\<rparr> (EvArrive k r)"
      "\<And>T S E tasks. alone_env A g T S E \<Longrightarrow> ok \<lparr>cs_shared = S, cs_tasks = tasks(k \<mapsto> T)\<rparr> (EvStep k E)"
    and before: "conc_run X W nc b ok S0 tr \<lparr>cs_shared = S, cs_tasks = tasks\<rparr>"
  shows "\<exists>tr' T S'. conc_run X W nc b ok S0 (tr @ tr') \<lparr>cs_shared = S', cs_tasks = tasks(k \<mapsto> T)\<rparr> \<and>
    ct_pc T = Answered resp \<and> shared_state S' = s' \<and> sh_now S' = sh_now S \<and> sh_jobs S' = sh_jobs S \<and> ct_route T = route_of W b r' \<and>
    extract_proof (ct_request T) = extract_proof r' \<and> request_block_id (ct_request T) = request_block_id r'"
proof -
  let ?T = "\<lparr>ct_route = route_of W b r', ct_request = r', ct_pc = AtGuard, ct_gone = False, ct_accepted = None\<rparr>"
  let ?S = "\<lparr>cs_shared = S, cs_tasks = tasks\<rparr>"
  have "conc_step X W nc b ?S (EvArrive k r) \<lparr>cs_shared = S, cs_tasks = tasks(k \<mapsto> ?T)\<rparr>"
    using step_arrive [where S = ?S and k = k and r = r and r' = r' and nc = nc and b = b and X = X and W = W] fresh r' by simp
  from conc_snoc [OF before ok(1) this]
  have arrived: "conc_run X W nc b ok S0 (tr @ [(?S, EvArrive k r)]) \<lparr>cs_shared = S, cs_tasks = tasks(k \<mapsto> ?T)\<rparr>" .
  have same: "request_block_id r' = request_block_id r" "put_admits tb n r' = put_admits tb n r" for tb n
    by (simp_all add: r' request_block_id_def put_admits_def content_length_def header_str_def)
  have block: "local_ok root (sh_fs S) \<and> (\<forall>i p. request_block_id r' = Some i \<longrightarrow> put_admits (web_to_bytes W) n r' = Some p \<longrightarrow> put_env_real E root i p)"
    if "route_of W b r' = RouteBlock ctx root n" for ctx root n
    using that route_of_ok [of b W r'] root real by (auto simp: route_ok_def same)
  have "route_service X W A E g (ct_route ?T) (ct_request ?T) (shared_state S) = Returns (resp, log, s')"
    using router by (simp add: server_router_route [OF r'])
  from solo_route [OF this _ now env _ calm] obtain T' S' where solo: "(solo_step X W A g)\<^sup>*\<^sup>* (?T, S) (T', S')"
      "ct_pc T' = Answered resp" "shared_state S' = s'"
    using block by auto
  have "sh_now S' = sh_now S \<and> sh_jobs S' = sh_jobs S" using solo(1)
    by (induction rule: rtranclp_induct2) (auto elim!: solo_step.cases dest: request_step_shared)
  then show ?thesis using solo_run [OF solo(1) ok(2) arrived] solo_keeps [OF solo(1)] solo(2,3) by auto
qed

end
