(* ===== verification/Concurrent_Types.thy ===== *)
theory Concurrent_Types
  imports Concurrent_Safety
begin

section \<open>The types of responses\<close>

text \<open>
  The interface of the server as a typing of its answers: for each route and method the statuses that can occur, and
  for each status the headers and whether there is a body. Every answer that any request ever gets has the type of its route and
  method, so that a client can rely on it and an observer learns no more than it says.
\<close>

fun allowed_statuses :: "route \<Rightarrow> string \<Rightarrow> u16 list" where
  "allowed_statuses RouteFallback m = [404]"
| "allowed_statuses RouteHealth m = (if m = ''GET'' then [200] else [404])"
| "allowed_statuses (RouteWhoami _) m = (if m = ''GET'' then [200, 401, 503] else [404])"
| "allowed_statuses (RouteAdmin _) m = (if m = ''GET'' then [200, 401, 503] else [404])"
| "allowed_statuses (RouteBlock _ _ _) m =
     (if m = ''GET'' then [200, 401, 404, 503]
      else if m = ''PUT'' then [204, 400, 401, 404, 503]
      else if m = ''DELETE'' then [204, 401, 404, 503]
      else [404])"

definition content_type_of :: "route \<Rightarrow> string" where
  "content_type_of rt = (case rt of RouteBlock _ _ _ \<Rightarrow> ''application/octet-stream'' | _ \<Rightarrow> ''application/json'')"

definition response_typed :: "route \<Rightarrow> string \<Rightarrow> response \<Rightarrow> bool" where
  "response_typed rt m resp \<longleftrightarrow> resp_status resp \<in> set (allowed_statuses rt m) \<and>
     (resp_status resp \<noteq> 200 \<longrightarrow> resp_body resp = []) \<and>
     map_of (resp_headers resp) ''content-type'' = (if resp_status resp = 200 then Some (content_type_of rt) else None) \<and>
     map_of (resp_headers resp) ''www-authenticate'' = (if resp_status resp = 401 then Some www_authenticate_value else None) \<and>
     (map_of (resp_headers resp) ''retry-after'' \<noteq> None \<longrightarrow> resp_status resp = 503)"

definition task_typed :: "'body conc_task \<Rightarrow> bool" where
  "task_typed T \<longleftrightarrow> (\<forall>resp. ct_pc T = Answered resp \<longrightarrow> response_typed (ct_route T) (req_method (ct_request T)) resp)"

subsection \<open>The response constructors\<close>

lemma failure_typed:
  assumes "route_guard rt = Some (a, ctx, methods)" and "m \<in> set methods"
  shows "response_typed rt m (failure_response f)"
  using assms by (cases rt) (auto simp: response_typed_def handler_defs block_methods_def)

lemma block_typed:
  "response_typed (RouteBlock ctx root n) m respond_block_404"
  "m = ''PUT'' \<Longrightarrow> response_typed (RouteBlock ctx root n) m respond_block_400"
  "m = ''GET'' \<Longrightarrow> response_typed (RouteBlock ctx root n) m (get_reply g)"
  "m = ''PUT'' \<Longrightarrow> response_typed (RouteBlock ctx root n) m (put_reply p)"
  "m = ''DELETE'' \<Longrightarrow> response_typed (RouteBlock ctx root n) m (delete_reply d)"
  by (auto simp: response_typed_def handler_defs content_type_of_def get_reply_def put_reply_def delete_reply_def
      split: sum.splits storage_error.splits)

lemma plain_typed:
  assumes "plain_service W rt r S = Returns (resp, log, S')" and "\<And>ctx root n. rt \<noteq> RouteBlock ctx root n"
  shows "response_typed rt (req_method r) resp"
  using assms by (cases rt) (auto simp: response_typed_def handler_defs content_type_of_def split: if_splits option.splits)

subsection \<open>The steps\<close>

lemma task_typed_answer: "task_typed (answer resp T) \<longleftrightarrow> response_typed (ct_route T) (req_method (ct_request T)) resp"
  by (simp add: task_typed_def answer_def)

lemma task_typed_other: "(\<And>resp. ct_pc T \<noteq> Answered resp) \<Longrightarrow> task_typed T"
  by (simp add: task_typed_def)

lemma creds_typed: "creds_ok X T c \<Longrightarrow> task_typed (answer (failure_response f) T)"
  by (auto simp: creds_ok_def task_typed_answer intro: failure_typed)

lemma claims_checked_typed: "creds_ok X T c \<Longrightarrow> task_typed (claims_checked X clock c claims T)"
  using creds_typed by (auto simp: claims_checked_def intro: task_typed_other split: sum.splits)

lemma handler_typed: "task_typed (handler_start W S T)"
proof (cases "ct_route T")
  case (RouteBlock ctx root n)
  then show ?thesis
    by (auto simp: handler_start_def block_start_def Let_def task_typed_answer block_typed split: option.splits intro!: task_typed_other)
qed (use plain_typed [of W "ct_route T" "ct_request T" "shared_state S"] in
    \<open>auto simp: handler_start_def task_typed_answer intro: task_typed_other split: outcome.splits\<close>)

lemma guard_typed: "task_typed (guard_start X T)"
  by (auto simp: guard_start_def task_typed_answer intro: failure_typed task_typed_other split: option.splits sum.splits)

lemma request_step_typed:
  assumes step: "request_step X W E T S = (T', S')" and inv: "task_inv X W b H P T" and typed: "task_typed T"
  shows "task_typed T'"
proof (cases "ct_pc T")
  case AtGuard
  then show ?thesis using step guard_typed by (auto simp: request_step_def)
next
  case (AtToken c)
  then have "creds_ok X T c" using inv by (simp add: task_inv_def pc_inv_def)
  then show ?thesis using step AtToken creds_typed claims_checked_typed
    by (auto simp: request_step_def token_step_def intro: task_typed_other split: sum.splits prod.splits)
next
  case (AtRefresh c header alg e pc)
  then have creds: "creds_ok X T c" using inv by (simp add: task_inv_def pc_inv_def)
  from step [unfolded request_step_refresh [OF AtRefresh]] show ?thesis
    by (cases rule: on_demand_outcomes) (use creds_typed [OF creds] in \<open>auto intro: task_typed_other\<close>)
next
  case (AtRetry c header alg e)
  then have "creds_ok X T c" using inv by (simp add: task_inv_def pc_inv_def)
  then show ?thesis using step AtRetry creds_typed claims_checked_typed
    by (auto simp: request_step_def retry_step_def split: sum.splits)
next
  case (AtProof c at)
  then have "creds_ok X T c" using inv by (simp add: task_inv_def pc_inv_def)
  then show ?thesis using step AtProof creds_typed
    by (auto simp: request_step_def proof_step_def intro: task_typed_other split: sum.splits option.splits)
next
  case (AtInsert c at p d)
  then have "creds_ok X T c" using inv by (simp add: task_inv_def pc_inv_def shown_def)
  then show ?thesis using step AtInsert creds_typed
    by (auto simp: request_step_def insert_step_def Let_def intro: task_typed_other split: prod.splits sum.splits insert_error.splits)
next
  case (AtGet i)
  then show ?thesis using step inv
    by (auto simp: request_step_def task_typed_answer task_inv_def pc_inv_def on_block_def block_typed)
next
  case (AtDelete i)
  then show ?thesis using step inv
    by (auto simp: request_step_def delete_step_def task_typed_answer task_inv_def pc_inv_def on_block_def block_typed split: prod.splits)
next
  case (AtPut i bytes pc)
  then show ?thesis using step inv
    by (cases pc) (auto simp: request_step_def put_step_def task_typed_answer task_inv_def pc_inv_def on_block_def block_typed
        intro: task_typed_other split: prod.splits)
qed (use step typed handler_typed in \<open>auto simp: request_step_def push_step_def Let_def intro: task_typed_other\<close>)

lemma cancel_typed: "task_typed T \<Longrightarrow> task_typed (cancel_step T)"
  by (auto simp: task_typed_def cancel_step_def split: request_pc.splits)

lemma run_typed:
  assumes "conc_run X W nc b ok S0 tr S" and "cs_tasks S0 = Map.empty"
  shows "cs_tasks S k = Some T \<Longrightarrow> task_typed T"
  using assms(1)
proof (induction arbitrary: k T rule: conc_run.induct)
  case conc_nil
  then show ?case using assms(2) by simp
next
  case (conc_snoc tr S ev S')
  have inv: "cs_tasks S j = Some U \<Longrightarrow> task_inv X W b (heaps tr S) (\<lambda>_ _. True) U" for j U
    by (rule tasks_inv [OF conc_snoc.hyps(1) _ assms(2)]) (simp_all add: clocked_def)
  from conc_snoc.hyps(3) show ?case
  proof cases
    case (step_arrive k' r' r)
    then show ?thesis using conc_snoc.prems conc_snoc.IH by (cases "k = k'") (auto intro: task_typed_other)
  next
    case (step_request k' U E U' S1)
    have "task_typed U'" by (rule request_step_typed [OF step_request(4) inv [OF step_request(3)] conc_snoc.IH [OF step_request(3)]])
    then show ?thesis using step_request(2) conc_snoc.prems conc_snoc.IH by (cases "k = k'") auto
  next
    case (step_cancel k' U)
    then show ?thesis using cancel_typed conc_snoc.prems conc_snoc.IH by (cases "k = k'") auto
  qed (use conc_snoc in auto)
qed

end
