(* ===== verification/Concurrent_Progress.thy ===== *)
theory Concurrent_Progress
  imports Concurrent_Safety
begin

section \<open>Progress of requests\<close>

text \<open>
  No request runs for ever: each has a rank that every step of its own decreases, whatever the environment answers,
  whatever faults occur and whatever other requests do in between. A request that has taken as many steps as
  its rank at the start is finished.
\<close>

fun put_rank :: "nat \<Rightarrow> put_pc \<Rightarrow> nat" where
  "put_rank n (PcDirs ps) = 8 + n + length ps"
| "put_rank n PcChmodTop = 7 + n"
| "put_rank n PcChmodShard = 6 + n"
| "put_rank n PcTemp = 5 + n"
| "put_rank n (PcWrite _ rest) = 4 + length rest"
| "put_rank n (PcSync _) = 3"
| "put_rank n (PcPersist _) = 2"
| "put_rank n (PcDrop _ _) = 1"
| "put_rank n (PcDone _) = 0"

text \<open>A refresh: load, claim, address, fetch, check, store and completion; a wait is shorter.\<close>

fun refresh_rank :: "refresh_pc \<Rightarrow> nat" where
  "refresh_rank RLoad = 6"
| "refresh_rank (RClaim _ _) = 5"
| "refresh_rank (RUri _) = 4"
| "refresh_rank (RFetch _ _) = 3"
| "refresh_rank (RCheck _ _) = 2"
| "refresh_rank (RStore _ _) = 1"
| "refresh_rank (RComplete _ _) = 0"
| "refresh_rank (RWait _) = 1"
| "refresh_rank (RRecheck _) = 0"

text \<open>The steps that a handler can need at most: a put of a whole block, if the identifier is well-formed.\<close>

definition handler_rank :: "route \<Rightarrow> 'body request \<Rightarrow> nat" where
  "handler_rank rt r = (case rt of
      RouteBlock _ root n \<Rightarrow>
        (case request_block_id r of
           Some i \<Rightarrow> 2 + put_rank (unat n) (PcDirs (path_prefixes [] (shard_dir root i)))
         | None \<Rightarrow> 1)
    | _ \<Rightarrow> 1)"

definition request_rank :: "'body conc_task \<Rightarrow> nat" where
  "request_rank T = (let n = handler_rank (ct_route T) (ct_request T) in
     case ct_pc T of
      AtGuard \<Rightarrow> n + 13
    | AtToken _ \<Rightarrow> n + 12
    | AtRefresh _ _ _ _ pc \<Rightarrow> n + 5 + refresh_rank pc
    | AtRetry _ _ _ _ \<Rightarrow> n + 4
    | AtProof _ _ \<Rightarrow> n + 3
    | AtInsert _ _ _ _ \<Rightarrow> n + 2
    | AtPush _ _ _ _ \<Rightarrow> n + 1
    | AtHandler \<Rightarrow> n
    | AtGet _ \<Rightarrow> 1
    | AtDelete _ \<Rightarrow> 1
    | AtPut _ b pc \<Rightarrow> 1 + put_rank (length b) pc
    | Answered _ \<Rightarrow> 0
    | Dropped \<Rightarrow> 0)"

definition finished :: "'body conc_task \<Rightarrow> bool" where
  "finished T \<longleftrightarrow> ct_pc T = Dropped \<or> (\<exists>resp. ct_pc T = Answered resp)"

lemma handler_rank_pos: "0 < handler_rank rt r"
  by (simp add: handler_rank_def split: route.splits option.splits)

lemma request_rank_0_iff: "request_rank T = 0 \<longleftrightarrow> finished T"
  using handler_rank_pos [of "ct_route T" "ct_request T"]
  by (auto simp: request_rank_def finished_def Let_def split: request_pc.splits)

lemma handler_rank_subject [simp]: "handler_rank rt (route_subject rt' sub r) = handler_rank rt r"
  by (cases rt) (simp_all add: handler_rank_def request_block_id_def)

subsection \<open>Every step counts\<close>

lemma on_io_rank:
  assumes "on_io x f g = (pc', s')" and "\<And>e. put_rank n (f e) < m" and "\<And>v. put_rank n (g v) < m"
  shows "put_rank n pc' < m"
  using assms by (auto simp: on_io_def split: prod.splits sum.splits)

lemma put_call_rank:
  assumes "put_call root i payload C pc s = (pc', s')" and "\<And>r. pc \<noteq> PcDone r"
  shows "put_rank (length payload) pc' < put_rank (length payload) pc"
proof -
  have failed: "put_rank n (put_failed e) = 0" for n e by (simp add: put_failed_def)
  show ?thesis
  proof (cases pc)
    case (PcDirs ps)
    then show ?thesis using assms(1) by (cases ps) (auto simp: put_call_def Let_def failed elim!: on_io_rank)
  next
    case (PcWrite temp rest)
    then show ?thesis using assms(1) by (cases rest) (auto simp: put_call_def Let_def failed elim!: on_io_rank)
  qed (use assms in \<open>auto simp: put_call_def Let_def failed elim!: on_io_rank\<close>)
qed

lemma rank_answer [simp]: "request_rank (answer resp T) = 0"
  by (simp add: request_rank_def answer_def Let_def)

lemma rank_claims_checked: "request_rank (claims_checked X clock c claims T) \<le> handler_rank (ct_route T) (ct_request T) + 3"
  by (simp add: claims_checked_def split: sum.splits) (simp add: request_rank_def Let_def)

lemma refresh_call_rank:
  "refresh_call X clock http pc h a = Returns (Inl pc', h') \<Longrightarrow> refresh_rank pc' < refresh_rank pc"
  by (cases pc) (auto simp: refresh_call_def Let_def bind_outcome_def split: option.splits prod.splits outcome.splits sum.splits if_splits)

lemma rank_at_refresh:
  "request_rank (T\<lparr>ct_pc := AtRefresh c header alg e pc\<rparr>) = handler_rank (ct_route T) (ct_request T) + 5 + refresh_rank pc"
  by (simp add: request_rank_def)

lemma rank_token_step: "request_rank (token_step X clock h c T) \<le> handler_rank (ct_route T) (ct_request T) + 11"
  by (auto simp: token_step_def rank_at_refresh split: sum.splits prod.splits intro: le_trans [OF rank_claims_checked])

lemma put_admits_length: "put_admits tb n r = Some bytes \<Longrightarrow> length bytes = unat n"
  by (auto simp: put_admits_def bind_eq_Some_conv split: if_splits)

lemma rank_block_start:
  assumes "ct_route T = RouteBlock ctx root n"
  shows "request_rank (block_start W root n T) < handler_rank (ct_route T) (ct_request T)"
proof (cases "request_block_id (ct_request T)")
  case None
  then show ?thesis using assms by (simp add: block_start_def handler_rank_def)
next
  case (Some i)
  then show ?thesis
    using assms by (auto simp: block_start_def handler_rank_def Let_def split: option.splits)
      (auto simp: request_rank_def Let_def dest: put_admits_length)
qed

lemma rank_handler_start: "request_rank (handler_start W S T) < handler_rank (ct_route T) (ct_request T)"
proof (cases "ct_route T")
  case (RouteBlock ctx root n)
  then show ?thesis using rank_block_start [OF RouteBlock, of W] by (simp add: handler_start_def)
qed (auto simp: handler_start_def handler_rank_def request_rank_def Let_def answer_def split: outcome.splits)

lemma request_step_rank:
  assumes "request_step X W E T S = (T', S')" and "\<not> finished T"
  shows "request_rank T' < request_rank T"
proof -
  let ?n = "handler_rank (ct_route T) (ct_request T)"
  note defs = request_rank_def Let_def
  show ?thesis
  proof (cases "ct_pc T")
    case AtGuard
    then show ?thesis using assms(1) handler_rank_pos [of "ct_route T" "ct_request T"]
      by (auto simp: request_step_def guard_start_def split: option.splits sum.splits) (auto simp: defs)
  next
    case (AtToken c)
    then have "request_rank T = ?n + 12" by (simp add: defs)
    moreover have "request_rank T' \<le> ?n + 11" using assms(1) AtToken rank_token_step by (auto simp: request_step_def)
    ultimately show ?thesis by simp
  next
    case (AtRefresh c header alg e pc)
    then have rank: "request_rank T = ?n + 5 + refresh_rank pc" by (simp add: defs)
    from assms(1) [unfolded request_step_refresh [OF AtRefresh]] show ?thesis
      by (cases rule: on_demand_outcomes) (use rank in \<open>auto simp: rank_at_refresh dest: refresh_call_rank\<close>, auto simp: defs)
  next
    case (AtRetry c header alg e)
    then have "request_rank T = ?n + 4" by (simp add: defs)
    moreover have "request_rank T' \<le> ?n + 3"
      using assms(1) AtRetry rank_claims_checked [of X _ c _ T] by (auto simp: request_step_def retry_step_def split: sum.splits)
    ultimately show ?thesis by simp
  next
    case (AtInsert c at p d)
    then obtain R where "insert_step X c at p d T (sh_replay S) = (T', R)"
      using assms(1) by (auto simp: request_step_def split: prod.splits)
    then show ?thesis using AtInsert handler_rank_pos [of "ct_route T" "ct_request T"]
      by (cases rule: insert_outcomes) (auto simp: defs answer_def)
  next
    case (AtHandler)
    then show ?thesis using assms(1) rank_handler_start [of W S T] by (auto simp: request_step_def) (auto simp: defs)
  next
    case (AtPut i bytes pc)
    then show ?thesis using assms(1) put_call_rank [of "route_root (ct_route T)" i bytes "se_call E" pc "sh_fs S"]
      by (cases pc) (auto simp: request_step_def put_step_def split: prod.splits, auto simp: defs)
  qed (use assms in \<open>auto simp: request_step_def proof_step_def push_step_def delete_step_def finished_def
        split: sum.splits option.splits prod.splits\<close>, auto simp: defs)
qed

subsection \<open>Runs\<close>

definition own_steps :: "nat \<Rightarrow> ('body conc_state \<times> 'body event) list \<Rightarrow> nat" where
  "own_steps k tr = length (filter (\<lambda>(_, ev). \<exists>E. ev = EvStep k E) tr)"

lemma own_steps_simps [simp]:
  "own_steps k [] = 0" "own_steps k (tr @ [(S, ev)]) = own_steps k tr + (if \<exists>E. ev = EvStep k E then 1 else 0)"
  by (simp_all add: own_steps_def)

definition start_rank :: "'body conc_task \<Rightarrow> nat" where
  "start_rank T = handler_rank (ct_route T) (ct_request T) + 13"

lemma start_rank_step: "request_step X W E T S = (T', S') \<Longrightarrow> start_rank T' = start_rank T"
  using request_step_keeps(1,2) [of X W E T S T' S'] by (auto simp: start_rank_def)

lemma start_rank_cancel: "start_rank (cancel_step T) = start_rank T"
  by (simp add: start_rank_def)

lemma cancel_rank: "request_rank (cancel_step T) \<le> request_rank T"
  by (auto simp: request_rank_def cancel_step_def Let_def split: request_pc.splits)

lemma finished_stays: "request_step X W E T S = (T', S') \<Longrightarrow> finished T \<Longrightarrow> T' = T"
  by (auto simp: request_step_def finished_def)

text \<open>Steps taken and steps left together never exceed the rank at the start; a task that is not there has taken none.\<close>

lemma run_rank:
  assumes "conc_run X W nc b ok S0 tr S" and "cs_tasks S0 = Map.empty"
  shows "(\<forall>T. cs_tasks S k = Some T \<longrightarrow> finished T \<or> own_steps k tr + request_rank T \<le> start_rank T) \<and>
    (cs_tasks S k = None \<longrightarrow> own_steps k tr = 0)"
  using assms(1)
proof (induction rule: conc_run.induct)
  case conc_nil
  then show ?case using assms(2) by simp
next
  case (conc_snoc tr S ev S')
  have cancel: "finished (cancel_step T) \<or> own_steps k tr + request_rank (cancel_step T) \<le> start_rank (cancel_step T)"
    if "cs_tasks S k = Some T" for T
    using conc_snoc.IH that cancel_rank [of T] request_rank_0_iff [of T] request_rank_0_iff [of "cancel_step T"]
    by (auto simp: start_rank_cancel)
  from conc_snoc.hyps(3) show ?case
  proof cases
    case (step_request j T E T' S1)
    show ?thesis
    proof (cases "j = k")
      case True
      have "finished T' \<or> own_steps k tr + 1 + request_rank T' \<le> start_rank T'"
      proof (cases "finished T")
        case True
        then show ?thesis using finished_stays [OF step_request(4)] by simp
      next
        case False
        then show ?thesis
          using request_step_rank [OF step_request(4)] start_rank_step [OF step_request(4)] conc_snoc.IH step_request(3) \<open>j = k\<close> by auto
      qed
      then show ?thesis using step_request(1,2) True by auto
    qed (use step_request conc_snoc.IH in auto)
  next
    case (step_arrive j r' r)
    then show ?thesis using conc_snoc.IH by (auto simp: start_rank_def request_rank_def Let_def split: if_splits)
  next
    case (step_cancel j T)
    then show ?thesis using conc_snoc.IH cancel by (cases "j = k") auto
  qed (use conc_snoc.IH in auto)
qed

end
