(* ===== verification/Concurrent_Contexts.thy ===== *)
theory Concurrent_Contexts
  imports Concurrent_Safety
begin

section \<open>The contexts under concurrent refreshes\<close>

text \<open>
  Any number of requests and both scheduled tasks refresh the key sets at once, one atomic action after
  the other. A key set on its way into a context is in one of two stages, fetched or checked; this
  theory shows how a step of the machine moves it, what holds of the contexts in every reachable state, and what
  else is needed for the two key sets to stay disjoint: no check of one context while a checked key set of the other waits.
\<close>

subsection \<open>Key sets on their way\<close>

definition jwks_good :: "'a crypto_ext_scheme \<Rightarrow> jwks \<Rightarrow> bool" where
  "jwks_good X j \<longleftrightarrow> jwks_wf X j \<and> \<not> jwks_is_empty j"

datatype stage = NoKeys | Candidate nat jwks | Checked nat jwks

fun refresh_stage :: "nat \<Rightarrow> refresh_pc \<Rightarrow> stage" where
  "refresh_stage a (RCheck _ j) = Candidate a j"
| "refresh_stage a (RStore _ j) = Checked a j"
| "refresh_stage a _ = NoKeys"

fun job_stage :: "nat \<Rightarrow> scheduled_pc \<Rightarrow> stage" where
  "job_stage a (SCheck j) = Candidate a j"
| "job_stage a (SStore j) = Checked a j"
| "job_stage a _ = NoKeys"

definition task_stage :: "'body conc_task \<Rightarrow> stage" where
  "task_stage T = (case ct_pc T of AtRefresh c _ _ _ pc \<Rightarrow> refresh_stage (cr_addr c) pc | _ \<Rightarrow> NoKeys)"

text \<open>Who may hold a key set: a request, by its number, or the scheduled task of a context.\<close>

fun stage_of :: "'body conc_state \<Rightarrow> nat + nat \<Rightarrow> stage" where
  "stage_of S (Inl k) = (case cs_tasks S k of None \<Rightarrow> NoKeys | Some T \<Rightarrow> task_stage T)"
| "stage_of S (Inr a) = job_stage a (sh_jobs (cs_shared S) a)"

fun holder :: "'body event \<Rightarrow> (nat + nat) option" where
  "holder (EvStep k _) = Some (Inl k)"
| "holder (EvRefreshKeys a _) = Some (Inr a)"
| "holder _ = None"

text \<open>What a check depends on.\<close>

definition ctx_core :: "oidc_context \<Rightarrow> audience_tag \<times> nat option \<times> jwks" where
  "ctx_core c = (ctx_tag c, other c, ctx_jwks c)"

definition same_core :: "ctx_heap \<Rightarrow> ctx_heap \<Rightarrow> bool" where
  "same_core h h' \<longleftrightarrow> (\<forall>a. map_option ctx_core (h' a) = map_option ctx_core (h a))"

inductive stage_step :: "'a crypto_ext_scheme \<Rightarrow> ctx_heap \<times> stage \<Rightarrow> ctx_heap \<times> stage \<Rightarrow> bool" for X where
  stage_same: "same_core h h' \<Longrightarrow> stage_step X (h, st) (h', st)"
| stage_drop: "same_core h h' \<Longrightarrow> stage_step X (h, st) (h', NoKeys)"
| stage_fetch: "jwks_good X j \<Longrightarrow> stage_step X (h, NoKeys) (h, Candidate a j)"
| stage_check: "h a = Some c \<Longrightarrow> install_check h c j = Inr () \<Longrightarrow> stage_step X (h, Candidate a j) (h, Checked a j)"
| stage_store: "stage_step X (h, Checked a j) (jwks_store h a j, NoKeys)"

lemma same_core_refl [simp, intro!]: "same_core h h"
  by (simp add: same_core_def)

lemma same_core_updates:
  "same_core h (snd (claim_cas h a prev now))" "same_core h (completed_store h a now)" "same_core h (discovery_store h a d)"
  by (auto simp: same_core_def ctx_core_def claim_cas_def completed_store_def discovery_store_def split: option.splits)

lemma is_ok_unit: "is_ok (x :: 'e + unit) \<longleftrightarrow> x = Inr ()"
  by (cases x) simp_all

lemma fetch_jwks_good: "fetch_jwks X http uri = Returns (Inr j) \<Longrightarrow> jwks_good X j"
  using fetch_jwks_Inr by (auto simp: jwks_good_def)

lemma jwks_store_None: "h a = None \<Longrightarrow> jwks_store h a j = h"
  by (simp add: jwks_store_def)

lemma refresh_call_stage:
  assumes "refresh_call X clock http pc h a = Returns (rest, h')"
  shows "stage_step X (h, refresh_stage a pc) (h', case rest of Inl pc' \<Rightarrow> refresh_stage a pc' | Inr _ \<Rightarrow> NoKeys)"
proof (cases "h a")
  case None
  then show ?thesis using assms by (auto simp: refresh_call_def intro: stage_drop)
next
  case (Some c)
  show ?thesis
  proof (cases pc)
    case (RClaim prev now)
    then obtain q where "claim_cas h a prev now = (q, h')" "rest = Inl (if q then RUri now else RWait prev)"
      using assms Some by (auto simp: refresh_call_def split: prod.splits)
    then show ?thesis using same_core_updates(1) [of h a prev now] RClaim by (auto intro: stage_same)
  next
    case (RFetch now uri)
    then obtain r where r: "fetch_jwks X http uri = Returns r" "h' = h"
        "rest = Inl (case r of Inr j \<Rightarrow> RCheck now j | Inl _ \<Rightarrow> RComplete now False)"
      using assms Some by (auto simp: refresh_call_def result_simps)
    then show ?thesis using RFetch fetch_jwks_good [of X http uri]
      by (cases r) (auto intro: stage_same stage_fetch)
  next
    case (RCheck now j)
    then show ?thesis using assms Some stage_check [of h a c j X]
      by (auto simp: refresh_call_def is_ok_unit intro: stage_drop split: if_splits)
  next
    case (RStore now j)
    then show ?thesis using assms Some by (auto simp: refresh_call_def intro: stage_store)
  next
    case (RComplete now r)
    then show ?thesis using assms Some same_core_updates(2) [of h a now] by (auto simp: refresh_call_def intro: stage_same)
  qed (use assms Some in \<open>auto simp: refresh_call_def Let_def intro: stage_same split: if_splits\<close>)
qed

lemma scheduled_call_stage:
  assumes "scheduled_call X http pc h a = (pc', h')"
  shows "stage_step X (h, job_stage a pc) (h', job_stage a pc')"
proof (cases "h a")
  case None
  then show ?thesis using assms by (auto simp: scheduled_call_def intro: stage_drop)
next
  case (Some c)
  show ?thesis
  proof (cases pc)
    case (SFetch uri)
    then show ?thesis using assms Some fetch_jwks_good [of X http uri]
      by (auto simp: scheduled_call_def intro: stage_same stage_fetch split: outcome.splits sum.splits)
  next
    case (SCheck j)
    then show ?thesis using assms Some stage_check [of h a c j X]
      by (auto simp: scheduled_call_def is_ok_unit intro: stage_drop split: if_splits)
  next
    case (SStore j)
    then show ?thesis using assms Some by (auto simp: scheduled_call_def intro: stage_store)
  qed (use assms Some in \<open>auto simp: scheduled_call_def intro: stage_same\<close>)
qed

lemma task_stage_simps [simp]:
  "task_stage (answer resp T) = NoKeys" "task_stage (T\<lparr>ct_gone := g\<rparr>) = task_stage T"
  "task_stage (T\<lparr>ct_pc := AtRefresh c header alg e pc\<rparr>) = refresh_stage (cr_addr c) pc"
  "task_stage (T\<lparr>ct_pc := AtRetry c header alg e\<rparr>) = NoKeys" "task_stage (T\<lparr>ct_pc := Dropped\<rparr>) = NoKeys"
  by (simp_all add: task_stage_def)

lemma task_stage_cancel [simp]: "task_stage (cancel_step T) = task_stage T"
proof (cases "ct_pc T")
  case (AtRefresh c header alg e pc)
  then show ?thesis by (cases pc) (simp_all add: task_stage_def cancel_step_def)
qed (simp_all add: task_stage_def cancel_step_def)

text \<open>The steps of a request outside a refresh do not touch the contexts.\<close>

lemma request_step_contexts:
  assumes "request_step X W E T S = (T', S')" and "\<And>c header alg e pc. ct_pc T \<noteq> AtRefresh c header alg e pc"
  shows "sh_contexts S' = sh_contexts S"
proof (cases "ct_pc T")
  case (AtRefresh c header alg e pc)
  then show ?thesis using assms(2) by blast
qed (use assms(1) in \<open>auto simp: request_step_def split: prod.splits\<close>)

lemma pc_after_token:
  "ct_pc (claims_checked X clock c claims T) \<noteq> AtRefresh c' header alg e pc"
  "ct_pc (handler_start W S T) \<noteq> AtRefresh c' header alg e pc"
  by (simp add: claims_checked_def split: sum.splits)
    (cases "ct_route T"; simp add: handler_start_def block_start_def Let_def split: outcome.splits prod.splits option.splits)

lemma request_step_enters:
  assumes "request_step X W E T S = (T', S')" and "ct_pc T' = AtRefresh c header alg e pc"
    and "\<And>c header alg e pc. ct_pc T \<noteq> AtRefresh c header alg e pc"
  shows "pc = RLoad \<and> ct_pc T = AtToken c"
proof (cases "ct_pc T")
  case (AtInsert c at p d)
  then obtain R where "insert_step X c at p d T (sh_replay S) = (T', R)"
    using assms(1) by (auto simp: request_step_def split: prod.splits)
  then show ?thesis using assms(2) by (cases rule: insert_outcomes) simp_all
next
  case (AtPut i bytes pc')
  then show ?thesis using assms(1,2) by (cases pc') (auto simp: request_step_def put_step_def split: prod.splits)
next
  case AtGuard
  then show ?thesis using assms(1,2) by (auto simp: request_step_def guard_start_def split: option.splits prod.splits sum.splits if_splits)
next
  case (AtToken c')
  then show ?thesis using assms(1,2)
    by (auto simp: request_step_def token_step_def pc_after_token split: sum.splits prod.splits)
qed (use assms in \<open>auto simp: pc_after_token request_step_def retry_step_def proof_step_def push_step_def delete_step_def Let_def
      split: sum.splits option.splits prod.splits\<close>)

lemma request_step_stage:
  assumes "request_step X W E T S = (T', S')"
  shows "stage_step X (sh_contexts S, task_stage T) (sh_contexts S', task_stage T')"
proof (cases "\<exists>c header alg e pc. ct_pc T = AtRefresh c header alg e pc")
  case True
  then obtain c header alg e pc where pc: "ct_pc T = AtRefresh c header alg e pc" by blast
  then have st: "task_stage T = refresh_stage (cr_addr c) pc" by (simp add: task_stage_def)
  from assms [unfolded request_step_refresh [OF pc]] show ?thesis
  proof (cases rule: on_demand_outcomes)
    case panicked
    then show ?thesis by (simp add: stage_drop)
  qed (use refresh_call_stage [of X "se_clock E" "se_http E" pc "sh_contexts S" "cr_addr c"] st in force)+
next
  case False
  then have no: "\<And>c header alg e pc. ct_pc T \<noteq> AtRefresh c header alg e pc" by blast
  have "task_stage T = NoKeys" using no by (auto simp: task_stage_def split: request_pc.splits)
  moreover have "task_stage T' = NoKeys"
    using request_step_enters [OF assms _ no] by (cases "ct_pc T'") (auto simp: task_stage_def)
  ultimately show ?thesis using request_step_contexts [OF assms no] by (simp add: stage_same)
qed

text \<open>A step of the machine moves at most one key set, that of its holder.\<close>

lemma conc_step_stages:
  assumes "conc_step X W nc b S ev S'"
  obtains x where "\<And>y. y \<noteq> x \<Longrightarrow> stage_of S' y = stage_of S y"
    and "stage_step X (sh_contexts (cs_shared S), stage_of S x) (sh_contexts (cs_shared S'), stage_of S' x)"
    and "holder ev = Some x \<or> stage_of S' x = stage_of S x"
proof -
  note moved = that
  let ?h = "sh_contexts (cs_shared S)" and ?h' = "sh_contexts (cs_shared S')"
  have quiet: thesis if "stage_of S' = stage_of S" "same_core ?h ?h'"
    using moved [of "Inl 0"] that by (simp add: stage_same)
  have same: "stage_of S' = stage_of S"
    if "\<And>k. stage_of S' (Inl k) = stage_of S (Inl k)" "sh_jobs (cs_shared S') = sh_jobs (cs_shared S)"
  proof
    fix x show "stage_of S' x = stage_of S x" using that by (cases x) auto
  qed
  from assms show thesis
  proof cases
    case (step_refresh http a pc h)
    show thesis
    proof (rule moved [of "Inr a"])
      show "stage_of S' y = stage_of S y" if "y \<noteq> Inr a" for y using step_refresh that by (cases y) auto
      show "stage_step X (?h, stage_of S (Inr a)) (?h', stage_of S' (Inr a))"
        using scheduled_call_stage [OF step_refresh(3)] step_refresh(2) by simp
    qed (simp add: step_refresh(1))
  next
    case (step_discovery http a h)
    then show thesis
      by (intro quiet same) (auto simp: do_discovery_refresh_def same_core_updates Let_def split: option.splits sum.splits)
  next
    case (step_request k T E T' S1)
    show thesis
    proof (rule moved [of "Inl k"])
      show "stage_of S' y = stage_of S y" if "y \<noteq> Inl k" for y
        using step_request that request_step_shared(2) [OF step_request(4)] by (cases y) auto
      show "stage_step X (?h, stage_of S (Inl k)) (?h', stage_of S' (Inl k))"
        using request_step_stage [OF step_request(4)] step_request(2,3) by simp
    qed (simp add: step_request(1))
  next
    case (step_arrive k r' r)
    then show thesis by (intro quiet same) (auto simp: task_stage_def)
  next
    case (step_cancel k T)
    then show thesis by (intro quiet same) auto
  qed (intro quiet same; simp)+
qed

subsection \<open>What holds whatever the interleaving\<close>

text \<open>Everything that \<open>contexts_ok\<close> says except that the key sets are disjoint.\<close>

definition contexts_valid :: "'a crypto_ext_scheme \<Rightarrow> ctx_heap \<Rightarrow> bool" where
  "contexts_valid X h \<longleftrightarrow> (\<exists>v a. h vault_addr = Some v \<and> h admin_addr = Some a \<and>
     ctx_tag v = Vault \<and> ctx_tag a = Admin \<and> other v = Some admin_addr \<and> other a = Some vault_addr \<and>
     jwks_good X (ctx_jwks v) \<and> jwks_good X (ctx_jwks a))"

definition keys_disjoint :: "ctx_heap \<Rightarrow> bool" where
  "keys_disjoint h \<longleftrightarrow> (\<exists>v a. h vault_addr = Some v \<and> h admin_addr = Some a \<and> jwks_disjoint (ctx_jwks v) (ctx_jwks a))"

lemma contexts_ok_split: "contexts_ok X h \<longleftrightarrow> contexts_valid X h \<and> keys_disjoint h"
  by (auto simp: contexts_ok_def contexts_valid_def keys_disjoint_def jwks_good_def)

lemma same_coreD:
  assumes "same_core h h'" and "h a = Some c"
  obtains c' where "h' a = Some c'" "ctx_tag c' = ctx_tag c" "other c' = other c" "ctx_jwks c' = ctx_jwks c"
proof -
  have "map_option ctx_core (h' a) = Some (ctx_core c)" using assms by (simp add: same_core_def)
  then show thesis using that by (auto simp: ctx_core_def)
qed

lemma same_core_valid:
  assumes "same_core h h'" and "contexts_valid X h"
  shows "contexts_valid X h'"
proof -
  obtain v a where h: "h vault_addr = Some v" "h admin_addr = Some a" and ok: "ctx_tag v = Vault" "ctx_tag a = Admin"
      "other v = Some admin_addr" "other a = Some vault_addr" "jwks_good X (ctx_jwks v)" "jwks_good X (ctx_jwks a)"
    using assms(2) by (auto simp: contexts_valid_def)
  from same_coreD [OF assms(1) h(1)] same_coreD [OF assms(1) h(2)] obtain v' a' where
    "h' vault_addr = Some v'" "ctx_tag v' = ctx_tag v" "other v' = other v" "ctx_jwks v' = ctx_jwks v"
    "h' admin_addr = Some a'" "ctx_tag a' = ctx_tag a" "other a' = other a" "ctx_jwks a' = ctx_jwks a"
    by metis
  then show ?thesis using ok by (simp add: contexts_valid_def)
qed

lemma same_core_disjoint: "same_core h h' \<Longrightarrow> keys_disjoint h \<Longrightarrow> keys_disjoint h'"
  unfolding keys_disjoint_def by (metis same_coreD)

lemma jwks_store_valid: "contexts_valid X h \<Longrightarrow> jwks_good X j \<Longrightarrow> contexts_valid X (jwks_store h a j)"
  by (auto simp: contexts_valid_def jwks_store_def split: option.splits)

fun stage_good :: "'a crypto_ext_scheme \<Rightarrow> stage \<Rightarrow> bool" where
  "stage_good X NoKeys = True"
| "stage_good X (Candidate _ j) = jwks_good X j"
| "stage_good X (Checked _ j) = jwks_good X j"

lemma stage_step_valid:
  assumes "stage_step X (h, st) (h', st')" and "contexts_valid X h" and "stage_good X st"
  shows "contexts_valid X h' \<and> stage_good X st'"
  using assms by cases (auto intro: same_core_valid jwks_store_valid)

definition refreshes_valid :: "'a crypto_ext_scheme \<Rightarrow> 'body conc_state \<Rightarrow> bool" where
  "refreshes_valid X S \<longleftrightarrow> contexts_valid X (sh_contexts (cs_shared S)) \<and> (\<forall>x. stage_good X (stage_of S x))"

lemma refreshes_valid_step:
  assumes "conc_step X W nc b S ev S'" and "refreshes_valid X S"
  shows "refreshes_valid X S'"
proof -
  obtain x where x: "\<And>y. y \<noteq> x \<Longrightarrow> stage_of S' y = stage_of S y"
    "stage_step X (sh_contexts (cs_shared S), stage_of S x) (sh_contexts (cs_shared S'), stage_of S' x)"
    using conc_step_stages [OF assms(1)] by metis
  have "contexts_valid X (sh_contexts (cs_shared S')) \<and> stage_good X (stage_of S' x)"
    using stage_step_valid [OF x(2)] assms(2) by (simp add: refreshes_valid_def)
  moreover have "stage_good X (stage_of S' y)" if "y \<noteq> x" for y
    using x(1) [OF that] assms(2) by (simp add: refreshes_valid_def)
  ultimately show ?thesis unfolding refreshes_valid_def by metis
qed

lemma claim_cas_https: "contexts_https h \<Longrightarrow> contexts_https (snd (claim_cas h a prev now))"
  by (auto simp: contexts_https_def claim_cas_def split: option.splits)

lemma store_https: "contexts_https h \<Longrightarrow> contexts_https (completed_store h a now)"
  "contexts_https h \<Longrightarrow> contexts_https (jwks_store h a j)"
  by (auto simp: contexts_https_def completed_store_def jwks_store_def split: option.splits)

lemma refresh_call_https:
  assumes "refresh_call X clock http pc h a = Returns (rest, h')" and "contexts_https h"
  shows "contexts_https h'"
proof (cases "h a")
  case None
  then show ?thesis using assms by (simp add: refresh_call_def)
next
  case (Some c)
  show ?thesis
  proof (cases pc)
    case (RClaim prev now)
    then show ?thesis using assms Some claim_cas_https [of h a prev now] by (auto simp: refresh_call_def split: prod.splits)
  qed (use assms Some in \<open>auto simp: refresh_call_def Let_def result_simps intro: store_https\<close>)
qed

lemma contexts_https_step:
  assumes "conc_step X W nc b S ev S'" and "contexts_https (sh_contexts (cs_shared S))"
  shows "contexts_https (sh_contexts (cs_shared S'))"
  using assms(1)
proof cases
  case (step_refresh http a pc h)
  then show ?thesis using assms(2)
    by (auto simp: scheduled_call_def intro: store_https split: option.splits scheduled_pc.splits outcome.splits sum.splits)
next
  case (step_discovery http a h)
  then show ?thesis using assms(2) fetch_discovery_https [of X http]
    by (auto simp: do_discovery_refresh_def discovery_store_def contexts_https_def Let_def split: option.splits sum.splits if_splits)
next
  case (step_request k T E T' S1)
  have "contexts_https (sh_contexts S1)"
  proof (cases "ct_pc T")
    case (AtRefresh c header alg e pc)
    from step_request(4) [unfolded request_step_refresh [OF AtRefresh]] show ?thesis
      by (cases rule: on_demand_outcomes) (use assms(2) in \<open>auto dest: refresh_call_https\<close>)
  qed (use assms(2) step_request(4) in \<open>auto simp: request_step_def split: prod.splits\<close>)
  then show ?thesis using step_request(2) by simp
qed (use assms(2) in simp_all)

interpretation valid_runs: run_invariant X W nc b ok "\<lambda>_ S. refreshes_valid X S \<and> contexts_https (sh_contexts (cs_shared S))"
  for X :: "'dk ext" and W :: "'body web_ext" and nc :: "'net \<Rightarrow> ip_addr \<Rightarrow> bool" and b ok
  by unfold_locales (blast intro: refreshes_valid_step contexts_https_step)

subsection \<open>When installations are apart\<close>

text \<open>
  The event does not check a key set for one context while a key set that has passed its check for the other context
  still waits to be stored.
\<close>

definition installs_apart :: "'body conc_state \<Rightarrow> 'body event \<Rightarrow> bool" where
  "installs_apart S ev \<longleftrightarrow> (\<forall>x a j y a' j'. holder ev = Some x \<longrightarrow> stage_of S x = Candidate a j \<longrightarrow>
     stage_of S y = Checked a' j' \<longrightarrow> a' = a)"

definition peer :: "nat \<Rightarrow> nat" where
  "peer a = (if a = vault_addr then admin_addr else vault_addr)"

definition checked_fits :: "ctx_heap \<Rightarrow> nat \<Rightarrow> jwks \<Rightarrow> bool" where
  "checked_fits h a j \<longleftrightarrow> (a = vault_addr \<or> a = admin_addr \<longrightarrow>
     (\<exists>c. h (peer a) = Some c \<and> jwks_disjoint j (ctx_jwks c)))"

definition installs_ok :: "'body conc_state \<Rightarrow> bool" where
  "installs_ok S \<longleftrightarrow> keys_disjoint (sh_contexts (cs_shared S)) \<and>
     (\<forall>x a j. stage_of S x = Checked a j \<longrightarrow> checked_fits (sh_contexts (cs_shared S)) a j) \<and>
     (\<forall>x y a j a' j'. stage_of S x = Checked a j \<longrightarrow> stage_of S y = Checked a' j' \<longrightarrow> a' = a)"

lemma jwks_disjoint_sym: "jwks_disjoint j k \<longleftrightarrow> jwks_disjoint k j"
  by (auto simp: jwks_disjoint_def)

lemma same_core_fits: "same_core h h' \<Longrightarrow> checked_fits h a j \<Longrightarrow> checked_fits h' a j"
  unfolding checked_fits_def by (metis same_coreD)

lemma jwks_store_fits: "checked_fits h a j \<Longrightarrow> checked_fits (jwks_store h a k) a j"
  by (auto simp: checked_fits_def peer_def jwks_store_other)

lemma jwks_store_disjoint: "keys_disjoint h \<Longrightarrow> checked_fits h a j \<Longrightarrow> keys_disjoint (jwks_store h a j)"
  by (auto simp: keys_disjoint_def checked_fits_def peer_def jwks_store_def jwks_disjoint_sym [of j] split: option.splits)

lemma check_fits:
  assumes "contexts_valid X h" and "h a = Some c" and "install_check h c j = Inr ()"
  shows "checked_fits h a j"
  using assms
  by (auto simp: contexts_valid_def checked_fits_def peer_def install_check_def check_disjoint_jwks_iff jwks_disjoint_sym [of j])

lemma installs_ok_step:
  assumes "conc_step X W nc b S ev S'" and "installs_apart S ev" and "installs_ok S"
    and "contexts_valid X (sh_contexts (cs_shared S))"
  shows "installs_ok S'"
proof -
  let ?h = "sh_contexts (cs_shared S)" and ?h' = "sh_contexts (cs_shared S')"
  obtain x where other: "\<And>y. y \<noteq> x \<Longrightarrow> stage_of S' y = stage_of S y"
    and own: "stage_step X (?h, stage_of S x) (?h', stage_of S' x)"
    and by_x: "holder ev = Some x \<or> stage_of S' x = stage_of S x"
    using conc_step_stages [OF assms(1)] by metis
  have dis: "keys_disjoint ?h" and fits: "\<And>y a j. stage_of S y = Checked a j \<Longrightarrow> checked_fits ?h a j"
    and one: "\<And>y z a j a' j'. stage_of S y = Checked a j \<Longrightarrow> stage_of S z = Checked a' j' \<Longrightarrow> a' = a"
    using assms(3) unfolding installs_ok_def by blast+
  have unchanged: ?thesis
    if core: "same_core ?h ?h'" and sub: "\<And>a j. stage_of S' x = Checked a j \<Longrightarrow> stage_of S x = Checked a j"
  proof -
    have sub': "stage_of S y = Checked a j" if "stage_of S' y = Checked a j" for y a j
      using that sub other by (cases "y = x") auto
    show ?thesis
      unfolding installs_ok_def
      using same_core_disjoint [OF core dis] same_core_fits [OF core fits] sub' one by blast
  qed
  from own show ?thesis
  proof cases
    case (stage_check a c j)
    have x: "holder ev = Some x" using by_x stage_check by auto
    have apart: "a' = a" if "stage_of S y = Checked a' j'" for y a' j'
      using assms(2) x stage_check(1) that unfolding installs_apart_def by blast
    have fits_j: "checked_fits ?h a j" using check_fits [OF assms(4)] stage_check by simp
    have fits': "checked_fits ?h a' j' \<and> a' = a" if "stage_of S' y = Checked a' j'" for y a' j'
      using that stage_check fits_j fits apart other by (cases "y = x") auto
    then show ?thesis using dis stage_check(2) unfolding installs_ok_def by (metis (no_types, lifting))
  next
    case (stage_store a j)
    have fits': "checked_fits ?h' a' j' \<and> a' = a" if "stage_of S' y = Checked a' j'" for y a' j'
    proof -
      have y: "stage_of S y = Checked a' j'" using that stage_store other by (cases "y = x") auto
      then have "a' = a" using one stage_store(1) by blast
      then show ?thesis using jwks_store_fits fits [OF y] stage_store(2) by simp
    qed
    moreover have "keys_disjoint ?h'" using jwks_store_disjoint [OF dis fits] stage_store by simp
    ultimately show ?thesis unfolding installs_ok_def by blast
  qed (use unchanged in auto)
qed

end
