(* ===== verification/Concurrent_Claims.thy ===== *)
theory Concurrent_Claims
  imports Concurrent_Contexts
begin

section \<open>How often the issuer is asked\<close>

text \<open>
  The requests of a run that need new keys compete for the refresh slot of their context. This theory has the
  claims and the fetches of a run, read off its events, and their invariants: a claim changes the slot, nothing else does,
  and a request fetches at most once, after a claim of its own.
\<close>

subsection \<open>Claims and fetches\<close>

text \<open>
  What the requests of a run did with the refresh slot of a context: the claims that were won, and the requests that
  were sent to the issuer, each with the number of the request and its time, oldest first.
\<close>

definition refresh_at :: "'body conc_state \<Rightarrow> 'body event \<Rightarrow> nat \<Rightarrow> (nat \<times> refresh_pc) option" where
  "refresh_at S ev a = (case ev of
      EvStep k _ \<Rightarrow> (case cs_tasks S k of
          Some T \<Rightarrow> (case ct_pc T of
              AtRefresh c _ _ _ pc \<Rightarrow> if cr_addr c = a then Some (k, pc) else None
            | _ \<Rightarrow> None)
        | None \<Rightarrow> None)
    | _ \<Rightarrow> None)"

definition claim_won :: "nat \<Rightarrow> 'body conc_state \<times> 'body event \<Rightarrow> (nat \<times> u64) option" where
  "claim_won a SE = (case SE of (S, ev) \<Rightarrow> (case refresh_at S ev a of
      Some (k, RClaim prev now) \<Rightarrow> if fst (claim_cas (sh_contexts (cs_shared S)) a prev now) then Some (k, now) else None
    | _ \<Rightarrow> None))"

definition fetch_sent :: "nat \<Rightarrow> 'body conc_state \<times> 'body event \<Rightarrow> (nat \<times> u64) option" where
  "fetch_sent a SE = (case SE of (S, ev) \<Rightarrow> (case refresh_at S ev a of
      Some (k, RFetch now _) \<Rightarrow> Some (k, now)
    | _ \<Rightarrow> None))"

definition slot_claims :: "nat \<Rightarrow> ('body conc_state \<times> 'body event) list \<Rightarrow> (nat \<times> u64) list" where
  "slot_claims a tr = List.map_filter (claim_won a) tr"

definition slot_fetches :: "nat \<Rightarrow> ('body conc_state \<times> 'body event) list \<Rightarrow> (nat \<times> u64) list" where
  "slot_fetches a tr = List.map_filter (fetch_sent a) tr"

lemma claims_snoc:
  "slot_claims a (tr @ [se]) = slot_claims a tr @ (case claim_won a se of Some c \<Rightarrow> [c] | None \<Rightarrow> [])"
  "slot_fetches a (tr @ [se]) = slot_fetches a tr @ (case fetch_sent a se of Some c \<Rightarrow> [c] | None \<Rightarrow> [])"
  by (simp_all add: slot_claims_def slot_fetches_def map_filter_def split: option.splits)

text \<open>How a request comes to stand where it stands in a refresh.\<close>

lemma cancel_step_refresh:
  "ct_pc (cancel_step T) = AtRefresh c header alg e pc \<Longrightarrow> ct_pc T = AtRefresh c header alg e pc"
  by (auto simp: cancel_step_def split: request_pc.splits if_splits)

lemma conc_step_refreshing:
  assumes "conc_step X W nc b S ev S'" and "cs_tasks S' k = Some T'" and "ct_pc T' = AtRefresh c header alg e pc'"
  obtains (stayed) T where "cs_tasks S k = Some T" "ct_pc T = AtRefresh c header alg e pc'"
  | (entered) "pc' = RLoad"
  | (moved) E T pc where "ev = EvStep k E" "cs_tasks S k = Some T" "ct_pc T = AtRefresh c header alg e pc"
      "refresh_call X (se_clock E) (se_http E) pc (sh_contexts (cs_shared S)) (cr_addr c) =
        Returns (Inl pc', sh_contexts (cs_shared S'))"
  using assms(1)
proof cases
  case (step_request j T E T1 S1)
  show thesis
  proof (cases "j = k")
    case False
    then show thesis using stayed assms(2,3) step_request(2) by simp
  next
    case True
    then have T1: "T1 = T'" using step_request(2) assms(2) by simp
    show thesis
    proof (cases "\<exists>c header alg e pc. ct_pc T = AtRefresh c header alg e pc")
      case False
      then show thesis using entered request_step_enters [OF step_request(4)] T1 assms(3) by blast
    next
      case True
      then obtain c0 header0 alg0 e0 pc where pc: "ct_pc T = AtRefresh c0 header0 alg0 e0 pc" by blast
      from step_request(4) [unfolded request_step_refresh [OF pc]] show thesis
        by (cases rule: on_demand_outcomes) (use T1 assms(3) pc step_request moved \<open>j = k\<close> in auto)
    qed
  qed
next
  case (step_cancel j T)
  then show thesis using stayed assms(2,3) by (cases "j = k") (auto dest: cancel_step_refresh)
next
  case (step_arrive j r' r)
  then show thesis using stayed assms(2,3) by (cases "j = k") auto
qed (use stayed assms(2,3) in auto)

lemma refresh_call_claim:
  assumes "refresh_call X clock http pc h a = Returns (Inl (RClaim prev now), h')"
  shows "pc = RLoad \<and> (\<exists>c. h a = Some c \<and> spaced (on_demand_refresh_min_interval_secs (ctx_auth_config c)) now prev)"
  using assms not_less_saturating_add
  by (cases pc) (auto simp: refresh_call_def Let_def bind_outcome_def split: option.splits prod.splits outcome.splits if_splits sum.splits)

lemma refresh_call_uri:
  assumes "refresh_call X clock http pc h a = Returns (Inl (RUri now), h')"
  shows "\<exists>prev. pc = RClaim prev now \<and> fst (claim_cas h a prev now)"
  using assms
  by (cases pc) (auto simp: refresh_call_def Let_def bind_outcome_def split: option.splits prod.splits outcome.splits if_splits sum.splits)

lemma refresh_call_fetch:
  assumes "refresh_call X clock http pc h a = Returns (Inl (RFetch now uri), h')"
  shows "pc = RUri now"
  using assms
  by (cases pc) (auto simp: refresh_call_def Let_def bind_outcome_def split: option.splits prod.splits outcome.splits if_splits sum.splits)

lemma refresh_call_panics: "refresh_call X clock http pc h a = Panics \<Longrightarrow> \<exists>now uri. pc = RFetch now uri"
  by (cases pc) (auto simp: refresh_call_def Let_def split: option.splits prod.splits)

lemma refresh_call_cas:
  "refresh_call X clock http (RClaim prev now) h a = Returns (rest, h') \<Longrightarrow> h' = snd (claim_cas h a prev now)"
  by (auto simp: refresh_call_def claim_cas_def split: option.splits prod.splits)

subsection \<open>The claims of a run\<close>

definition slot :: "ctx_heap \<Rightarrow> nat \<Rightarrow> (u64 \<times> u64) option" where
  "slot h a = map_option (\<lambda>c. (last_on_demand_refresh c, on_demand_refresh_min_interval_secs (ctx_auth_config c))) (h a)"

lemma slot_stores [simp]:
  "slot (jwks_store h a j) b = slot h b" "slot (completed_store h a now) b = slot h b" "slot (discovery_store h a d) b = slot h b"
  by (auto simp: slot_def jwks_store_def completed_store_def discovery_store_def split: option.splits)

lemma slot_claim:
  assumes "claim_cas h a prev now = (q, h')"
  shows "slot h' b = (if b = a \<and> q then map_option (\<lambda>(_, i). (now, i)) (slot h a) else slot h b)" and "q \<Longrightarrow> \<exists>i. slot h a = Some (prev, i)"
  using assms by (auto simp: slot_def claim_cas_def split: option.splits if_splits)

lemma refresh_call_slot:
  assumes "refresh_call X clock http pc h a = Returns (rest, h')" and "\<And>prev now. pc \<noteq> RClaim prev now"
  shows "slot h' b = slot h b"
  using assms
  by (cases pc) (auto simp: refresh_call_def Let_def result_simps split: option.splits)

lemma scheduled_call_slot: "scheduled_call X http pc h a = (pc', h') \<Longrightarrow> slot h' b = slot h b"
  by (auto simp: scheduled_call_def split: option.splits scheduled_pc.splits outcome.splits sum.splits)

text \<open>The slot of a context is changed by won claims only.\<close>

lemma conc_step_slot:
  assumes "conc_step X W nc b S ev S'"
  shows "case claim_won a (S, ev) of
      None \<Rightarrow> slot (sh_contexts (cs_shared S')) a = slot (sh_contexts (cs_shared S)) a
    | Some (k, now) \<Rightarrow> \<exists>prev i T c header alg e. slot (sh_contexts (cs_shared S)) a = Some (prev, i) \<and>
        slot (sh_contexts (cs_shared S')) a = Some (now, i) \<and>
        cs_tasks S k = Some T \<and> ct_pc T = AtRefresh c header alg e (RClaim prev now) \<and> cr_addr c = a"
  using assms
proof cases
  case (step_request k T E T' S1)
  let ?h = "sh_contexts (cs_shared S)"
  show ?thesis
  proof (cases "\<exists>c header alg e pc. ct_pc T = AtRefresh c header alg e pc")
    case False
    then have "claim_won a (S, ev) = None"
      using step_request(1,3) by (auto simp: claim_won_def refresh_at_def split: request_pc.splits)
    then show ?thesis using request_step_contexts [OF step_request(4)] False step_request(2) by auto
  next
    case True
    then obtain c header alg e pc where pc: "ct_pc T = AtRefresh c header alg e pc" by blast
    have at: "refresh_at S ev a = (if cr_addr c = a then Some (k, pc) else None)"
      using step_request(1,3) pc by (simp add: refresh_at_def)
    have call: "sh_contexts S1 = ?h \<and> (\<forall>prev now. pc \<noteq> RClaim prev now) \<or>
        (\<exists>rest. refresh_call X (se_clock E) (se_http E) pc ?h (cr_addr c) = Returns (rest, sh_contexts S1))"
    proof -
      from step_request(4) [unfolded request_step_refresh [OF pc]] show ?thesis
        by (cases rule: on_demand_outcomes) (auto dest: refresh_call_panics)
    qed
    show ?thesis
    proof (cases "\<exists>prev now. pc = RClaim prev now")
      case False
      then have "claim_won a (S, ev) = None" by (auto simp: claim_won_def at split: refresh_pc.splits)
      then show ?thesis using call refresh_call_slot False step_request(2) by fastforce
    next
      case True
      then obtain prev now where cl: "pc = RClaim prev now" by blast
      obtain q h' where q: "claim_cas ?h (cr_addr c) prev now = (q, h')" by force
      have h': "sh_contexts S1 = h'" using call refresh_call_cas q by (fastforce simp: cl)
      show ?thesis
      proof (cases "cr_addr c = a \<and> q")
        case True
        then have "claim_won a (S, ev) = Some (k, now)" using q by (simp add: claim_won_def at cl)
        then show ?thesis using slot_claim [OF q] True step_request(2,3) pc cl h' by auto
      next
        case False
        then have "claim_won a (S, ev) = None" using q by (auto simp: claim_won_def at cl)
        then show ?thesis using slot_claim(1) [OF q, of a] False step_request(2) h' by auto
      qed
    qed
  qed
next
  case (step_refresh http a' pc h)
  then show ?thesis using scheduled_call_slot [OF step_refresh(3)] by (simp add: claim_won_def refresh_at_def)
next
  case (step_discovery http a' h)
  then show ?thesis
    by (auto simp: claim_won_def refresh_at_def do_discovery_refresh_def Let_def split: option.splits sum.splits)
qed (simp_all add: claim_won_def refresh_at_def)

definition slot_inv :: "nat \<Rightarrow> u64 \<Rightarrow> ('body conc_state \<times> 'body event) list \<Rightarrow> 'body conc_state \<Rightarrow> bool" where
  "slot_inv a i tr S \<longleftrightarrow>
     (\<exists>prev. slot (sh_contexts (cs_shared S)) a = Some (prev, i) \<and> (slot_claims a tr \<noteq> [] \<longrightarrow> snd (last (slot_claims a tr)) = prev)) \<and>
     sorted_wrt (\<lambda>x y. spaced i (snd y) (snd x)) (slot_claims a tr) \<and>
     (\<forall>k T c header alg e prev now. cs_tasks S k = Some T \<longrightarrow> ct_pc T = AtRefresh c header alg e (RClaim prev now) \<longrightarrow>
        cr_addr c = a \<longrightarrow> spaced i now prev)"

lemma sorted_wrt_last:
  assumes "sorted_wrt P xs" and "x \<in> set xs"
  shows "x = last xs \<or> P x (last xs)"
proof -
  have "xs \<noteq> []" using assms(2) by auto
  then have "sorted_wrt P (butlast xs @ [last xs])" "x \<in> set (butlast xs @ [last xs])" using assms by simp_all
  then show ?thesis by (auto simp: sorted_wrt_append)
qed

lemma slot_inv_step:
  assumes "conc_step X W nc b S ev S'" and "slot_inv a i tr S"
  shows "slot_inv a i (tr @ [(S, ev)]) S'"
proof -
  obtain prev0 where slot0: "slot (sh_contexts (cs_shared S)) a = Some (prev0, i)" "slot_claims a tr \<noteq> [] \<longrightarrow> snd (last (slot_claims a tr)) = prev0"
    and srt: "sorted_wrt (\<lambda>x y. spaced i (snd y) (snd x)) (slot_claims a tr)"
    and tasks: "\<And>k T c header alg e prev now. cs_tasks S k = Some T \<Longrightarrow> ct_pc T = AtRefresh c header alg e (RClaim prev now) \<Longrightarrow>
        cr_addr c = a \<Longrightarrow> spaced i now prev"
    using assms(2) unfolding slot_inv_def by blast
  have tasks': "spaced i now prev"
    if T: "cs_tasks S' k = Some T" "ct_pc T = AtRefresh c header alg e (RClaim prev now)" "cr_addr c = a" for k T c header alg e prev now
    using assms(1) T(1,2)
  proof (cases rule: conc_step_refreshing)
    case (moved E U pc)
    then obtain c' where "sh_contexts (cs_shared S) a = Some c'" "spaced (on_demand_refresh_min_interval_secs (ctx_auth_config c')) now prev"
      using refresh_call_claim T(3) by blast
    then show ?thesis using slot0(1) by (simp add: slot_def)
  qed (use tasks T(3) in auto)
  show ?thesis
  proof (cases "claim_won a (S, ev)")
    case None
    then have "slot (sh_contexts (cs_shared S')) a = Some (prev0, i)" using conc_step_slot [OF assms(1), of a] slot0(1) by simp
    then show ?thesis using slot0(2) srt tasks' None unfolding slot_inv_def claims_snoc by auto
  next
    case (Some kn)
    obtain k now where kn: "kn = (k, now)" by fastforce
    from conc_step_slot [OF assms(1), of a] slot0(1) obtain T c header alg e where
      new: "slot (sh_contexts (cs_shared S')) a = Some (now, i)" and
      T: "cs_tasks S k = Some T" "ct_pc T = AtRefresh c header alg e (RClaim prev0 now)" "cr_addr c = a"
      by (auto simp: Some kn)
    have sp: "spaced i now prev0" by (rule tasks [OF T])
    have all: "spaced i now (snd x)" if "x \<in> set (slot_claims a tr)" for x
    proof -
      have "slot_claims a tr \<noteq> []" using that by auto
      then have "snd (last (slot_claims a tr)) = prev0" using slot0(2) by simp
      then show ?thesis using sorted_wrt_last [OF srt that] sp spaced_trans [OF sp] by auto
    qed
    then show ?thesis using new srt tasks' Some kn unfolding slot_inv_def claims_snoc by (auto simp: sorted_wrt_append)
  qed
qed

subsection \<open>The requests to the issuer\<close>

fun before_fetch :: "refresh_pc \<Rightarrow> bool" where
  "before_fetch RLoad = True"
| "before_fetch (RClaim _ _) = True"
| "before_fetch (RUri _) = True"
| "before_fetch (RFetch _ _) = True"
| "before_fetch _ = False"

fun claimed_at :: "refresh_pc \<Rightarrow> u64 option" where
  "claimed_at (RUri now) = Some now"
| "claimed_at (RFetch now _) = Some now"
| "claimed_at _ = None"

definition unfetched :: "'body conc_state \<Rightarrow> nat \<Rightarrow> bool" where
  "unfetched S k = (case cs_tasks S k of
      None \<Rightarrow> True
    | Some T \<Rightarrow> (case ct_pc T of
        AtGuard \<Rightarrow> True
      | AtToken _ \<Rightarrow> True
      | AtRefresh _ _ _ _ pc \<Rightarrow> before_fetch pc
      | _ \<Rightarrow> False))"

lemma pc_after_guard:
  "ct_pc (claims_checked X clock c claims T) \<noteq> AtGuard" "ct_pc (claims_checked X clock c claims T) \<noteq> AtToken c'"
  "ct_pc (handler_start W S T) \<noteq> AtGuard" "ct_pc (handler_start W S T) \<noteq> AtToken c'"
  by (simp_all add: claims_checked_def split: sum.splits)
    (cases "ct_route T"; simp add: handler_start_def block_start_def Let_def split: outcome.splits prod.splits option.splits)+

lemma request_step_early:
  assumes "request_step X W E T S = (T', S')" and "ct_pc T' = AtGuard \<or> ct_pc T' = AtToken c"
  shows "ct_pc T = AtGuard"
proof (cases "ct_pc T")
  case (AtRefresh c header alg e pc)
  from assms(1) [unfolded request_step_refresh [OF AtRefresh]] show ?thesis
    by (cases rule: on_demand_outcomes) (use assms(2) in auto)
next
  case (AtInsert c at p d)
  then obtain R where "insert_step X c at p d T (sh_replay S) = (T', R)"
    using assms(1) by (auto simp: request_step_def split: prod.splits)
  then show ?thesis using assms(2) by (cases rule: insert_outcomes) auto
next
  case (AtPut i bytes pc')
  then show ?thesis using assms by (cases pc') (auto simp: request_step_def put_step_def split: prod.splits)
qed (use assms in \<open>auto simp: pc_after_guard request_step_def token_step_def retry_step_def proof_step_def push_step_def
      delete_step_def Let_def split: sum.splits option.splits prod.splits\<close>)

lemma refresh_call_before:
  "refresh_call X clock http pc h a = Returns (Inl pc', h') \<Longrightarrow> before_fetch pc' \<Longrightarrow> before_fetch pc \<and> (\<forall>now uri. pc \<noteq> RFetch now uri)"
  by (cases pc) (auto simp: refresh_call_def Let_def bind_outcome_def split: option.splits prod.splits outcome.splits if_splits sum.splits)

lemma unfetched_request:
  assumes "request_step X W E T S = (T', S')" and "cs_tasks S0 k = Some T" and "cs_tasks S1 k = Some T'" and "unfetched S1 k"
  shows "unfetched S0 k \<and> (\<forall>c header alg e now uri. ct_pc T \<noteq> AtRefresh c header alg e (RFetch now uri))"
proof (cases "\<exists>c header alg e pc. ct_pc T = AtRefresh c header alg e pc")
  case True
  then obtain c header alg e pc where pc: "ct_pc T = AtRefresh c header alg e pc" by blast
  from assms(1) [unfolded request_step_refresh [OF pc]] show ?thesis
    by (cases rule: on_demand_outcomes) (use assms(2-4) pc in \<open>auto simp: unfetched_def dest: refresh_call_before\<close>)
next
  case False
  then have no: "\<And>c header alg e pc. ct_pc T \<noteq> AtRefresh c header alg e pc" by blast
  have "ct_pc T = AtGuard \<or> (\<exists>c. ct_pc T = AtToken c)"
    using assms(3,4) request_step_early [OF assms(1)] request_step_enters [OF assms(1) _ no]
    by (auto simp: unfetched_def split: request_pc.splits)
  then show ?thesis using no assms(2) by (auto simp: unfetched_def)
qed

lemma unfetched_step:
  assumes "conc_step X W nc b S ev S'" and "unfetched S' k"
  shows "unfetched S k \<and> fetch_sent a (S, ev) \<noteq> Some (k, now)"
  using assms(1)
proof cases
  case (step_request j T E T' S1)
  show ?thesis
  proof (cases "j = k")
    case True
    have "cs_tasks S' k = Some T'" "cs_tasks S k = Some T" using step_request(2,3) True by simp_all
    from unfetched_request [OF step_request(4) this(2,1) assms(2)] show ?thesis
      using step_request(1,3) by (auto simp: fetch_sent_def refresh_at_def split: option.splits request_pc.splits refresh_pc.splits if_splits)
  next
    case False
    then show ?thesis using assms(2) step_request
      by (auto simp: unfetched_def fetch_sent_def refresh_at_def split: request_pc.splits refresh_pc.splits if_splits)
  qed
next
  case (step_cancel j T)
  then show ?thesis using assms(2)
    by (cases "j = k") (auto simp: unfetched_def fetch_sent_def refresh_at_def cancel_step_def split: request_pc.splits if_splits)
next
  case (step_arrive j r' r)
  then show ?thesis using assms(2) by (auto simp: unfetched_def fetch_sent_def refresh_at_def split: if_splits)
qed (use assms(2) in \<open>auto simp: unfetched_def fetch_sent_def refresh_at_def\<close>)

definition fetch_inv :: "nat \<Rightarrow> ('body conc_state \<times> 'body event) list \<Rightarrow> 'body conc_state \<Rightarrow> bool" where
  "fetch_inv a tr S \<longleftrightarrow> distinct (map fst (slot_fetches a tr)) \<and> set (slot_fetches a tr) \<subseteq> set (slot_claims a tr) \<and>
     (\<forall>k T c header alg e pc now. cs_tasks S k = Some T \<longrightarrow> ct_pc T = AtRefresh c header alg e pc \<longrightarrow> cr_addr c = a \<longrightarrow>
        claimed_at pc = Some now \<longrightarrow> (k, now) \<in> set (slot_claims a tr)) \<and>
     (\<forall>k. unfetched S k \<longrightarrow> k \<notin> fst ` set (slot_fetches a tr))"

lemma claimed_at_step:
  assumes "refresh_call X clock http pc h a = Returns (Inl pc', h')" and "claimed_at pc' = Some now"
  shows "claimed_at pc = Some now \<or> (\<exists>prev. pc = RClaim prev now \<and> fst (claim_cas h a prev now))"
  using assms refresh_call_uri [of X clock http pc h a now h'] refresh_call_fetch [of X clock http pc h a now _ h']
  by (cases pc') auto

lemma fetch_sentD:
  assumes "fetch_sent a (S, ev) = Some (k, now)"
  obtains T c header alg e uri E where "ev = EvStep k E" "cs_tasks S k = Some T" "ct_pc T = AtRefresh c header alg e (RFetch now uri)" "cr_addr c = a"
  using assms by (auto simp: fetch_sent_def refresh_at_def split: option.splits refresh_pc.splits event.splits request_pc.splits if_splits)

lemma fetch_inv_step:
  assumes "conc_step X W nc b S ev S'" and "fetch_inv a tr S"
  shows "fetch_inv a (tr @ [(S, ev)]) S'"
proof -
  let ?tr = "tr @ [(S, ev)]"
  have dis: "distinct (map fst (slot_fetches a tr))" and sub: "set (slot_fetches a tr) \<subseteq> set (slot_claims a tr)"
    and claimed: "\<And>k T c header alg e pc now. cs_tasks S k = Some T \<Longrightarrow> ct_pc T = AtRefresh c header alg e pc \<Longrightarrow> cr_addr c = a \<Longrightarrow>
        claimed_at pc = Some now \<Longrightarrow> (k, now) \<in> set (slot_claims a tr)"
    and fresh: "\<And>k. unfetched S k \<Longrightarrow> k \<notin> fst ` set (slot_fetches a tr)"
    using assms(2) unfolding fetch_inv_def by blast+
  have grows: "set (slot_claims a tr) \<subseteq> set (slot_claims a ?tr)" by (auto simp: claims_snoc)
  have sent: "k \<notin> fst ` set (slot_fetches a tr) \<and> (k, now) \<in> set (slot_claims a tr)" if "fetch_sent a (S, ev) = Some (k, now)" for k now
    using that
  proof (cases rule: fetch_sentD)
    case (1 T c header alg e uri E)
    then have "unfetched S k" by (simp add: unfetched_def)
    then show ?thesis using fresh claimed [OF 1(2-4)] by simp
  qed
  have "distinct (map fst (slot_fetches a ?tr)) \<and> set (slot_fetches a ?tr) \<subseteq> set (slot_claims a ?tr)"
    using dis sub sent grows by (auto simp: claims_snoc(2) split: option.splits)
  moreover have "(k, now) \<in> set (slot_claims a ?tr)"
    if T: "cs_tasks S' k = Some T" "ct_pc T = AtRefresh c header alg e pc" "cr_addr c = a" "claimed_at pc = Some now" for k T c header alg e pc now
    using assms(1) T(1,2)
  proof (cases rule: conc_step_refreshing)
    case (moved E U pc0)
    from claimed_at_step [OF moved(4) T(4)] show ?thesis
    proof (elim disjE exE conjE)
      assume "claimed_at pc0 = Some now"
      then show ?thesis using claimed [OF moved(2,3) T(3)] grows by blast
    next
      fix prev assume "pc0 = RClaim prev now" "fst (claim_cas (sh_contexts (cs_shared S)) (cr_addr c) prev now)"
      then have "claim_won a (S, ev) = Some (k, now)" using moved(1-3) T(3) by (simp add: claim_won_def refresh_at_def)
      then show ?thesis by (simp add: claims_snoc(1))
    qed
  qed (use claimed T(3,4) grows in auto)
  moreover have "k \<notin> fst ` set (slot_fetches a ?tr)" if "unfetched S' k" for k
  proof -
    have "unfetched S k" "\<forall>now. fetch_sent a (S, ev) \<noteq> Some (k, now)" using unfetched_step [OF assms(1) that] by blast+
    then show ?thesis using fresh by (cases "fetch_sent a (S, ev)") (auto simp: claims_snoc(2))
  qed
  ultimately show ?thesis unfolding fetch_inv_def by blast
qed

interpretation slot_runs: run_invariant X W nc b ok "slot_inv a i"
  for X :: "'dk ext" and W :: "'body web_ext" and nc :: "'net \<Rightarrow> ip_addr \<Rightarrow> bool" and b ok a i
  by unfold_locales (rule slot_inv_step)

interpretation fetch_runs: run_invariant X W nc b ok "fetch_inv a"
  for X :: "'dk ext" and W :: "'body web_ext" and nc :: "'net \<Rightarrow> ip_addr \<Rightarrow> bool" and b ok a
  by unfold_locales (rule fetch_inv_step)

end
