(* ===== verification/Concurrent_Properties.thy ===== *)
theory Concurrent_Properties
  imports Concurrent_Sequential Concurrent_Types Concurrent_Progress Concurrent_Claims
begin

section \<open>Properties of the concurrent server\<close>

text \<open>
  The statements about requests in flight, with an example: the write request of the sequential
  example arrives twice, with the same token and proof.
\<close>

subsection \<open>An example\<close>

lemma demo_put_env_real: "put_env_real calm_put root i p"
  by (simp add: put_env_real_def calm_put_def)

lemma demo_boot_facts:
  "bd_storage demo_write_boot = Some ''/srv''" "bd_contexts demo_write_boot vault_addr = Some demo_write_context"
  "bd_replay demo_write_boot = replay_store_new (auth (bd_config demo_write_boot))"
  by (simp_all add: demo_write_boot_def)

lemma demo_route:
  "route_of demo_block_web demo_write_boot r = RouteBlock demo_write_context ''/srv'' (block_size_bytes (bd_config demo_write_boot))"
  by (simp add: route_of_def route_table_def demo_boot_facts demo_block_web_def split: option.splits)

lemma demo_conc_init: "shared_state (cs_shared (conc_init demo_write_boot 0 demo_fs)) = booted_state demo_write_boot demo_fs"
  by (simp add: shared_state_def conc_init_def booted_state_def)

lemma demo_perform_router:
  "demo_perform s = Returns (Some resp, s') \<Longrightarrow>
   \<exists>log. server_router demo_write_ext demo_block_web (\<lambda>_ _. False) demo_write_boot demo_auth_env calm_put None demo_write_request s =
     Returns (resp, log, s')"
  by (auto simp: perform_def demo_write_def bind_outcome_def split: outcome.splits)

definition demo_task :: "bytes conc_task \<Rightarrow> bool" where
  "demo_task T \<longleftrightarrow> ct_route T = RouteBlock demo_write_context ''/srv'' (block_size_bytes (bd_config demo_write_boot)) \<and>
     extract_proof (ct_request T) = Inr ''prf'' \<and> request_block_id (ct_request T) = Some demo_id"

lemma demo_alone:
  assumes "demo_perform (shared_state S) = Returns (Some resp, s')" and "tasks k = None" and "sh_now S = 0"
    and "local_ok ''/srv'' (sh_fs S)"
    and "\<And>S tasks k. ok \<lparr>cs_shared = S, cs_tasks = tasks\<rparr> (EvArrive k demo_write_request)"
    and "\<And>T S E tasks k. alone_env demo_auth_env None T S E \<Longrightarrow> ok \<lparr>cs_shared = S, cs_tasks = tasks(k \<mapsto> T)\<rparr> (EvStep k E)"
    and "conc_run demo_write_ext demo_block_web (\<lambda>_ _. False) demo_write_boot ok S0 tr \<lparr>cs_shared = S, cs_tasks = tasks\<rparr>"
  shows "\<exists>tr' T S'. conc_run demo_write_ext demo_block_web (\<lambda>_ _. False) demo_write_boot ok S0 (tr @ tr')
      \<lparr>cs_shared = S', cs_tasks = tasks(k \<mapsto> T)\<rparr> \<and> ct_pc T = Answered resp \<and> shared_state S' = s' \<and> sh_now S' = 0 \<and>
    demo_task T"
proof -
  let ?e = "Some (request_effective_address (\<lambda>_ _. False) (trusted_proxies (bd_config demo_write_boot)) demo_write_request)"
  let ?r = "demo_write_request\<lparr>ext_effective_address := ?e\<rparr>"
  have id: "extract_proof ?r = Inr ''prf''" "request_block_id ?r = Some demo_id"
    using demo_write_extract(2) demo_block_request_id [of "''PUT''" "[1, 2, 3]"]
    by (simp_all add: extract_proof_ext) (simp add: demo_write_request_def request_block_id_def demo_block_request_def)
  obtain log where r: "server_router demo_write_ext demo_block_web (\<lambda>_ _. False) demo_write_boot demo_auth_env calm_put None
      demo_write_request (shared_state S) = Returns (resp, log, s')"
    using demo_perform_router [OF assms(1)] by blast
  have now: "sh_now S = ae_instant demo_auth_env" using assms(3) by (simp add: demo_auth_env_def)
  have root: "local_ok root (sh_fs S)" if "bd_storage demo_write_boot = Some root" for root
    using that assms(4) demo_boot_facts(1) by simp
  have calm: "undisturbed (ae_refresh demo_auth_env)" by (simp add: undisturbed_def demo_auth_env_def demo_refresh_env_def)
  from alone_run [OF r refl assms(2) now calm_put_ok(1) calm root demo_put_env_real assms(5,6,7)]
  show ?thesis unfolding demo_route id assms(3) demo_task_def by blast
qed

text \<open>Both requests, one after the other, in the machine.\<close>

lemma demo_conc_run:
  assumes "\<And>S tasks k. ok \<lparr>cs_shared = S, cs_tasks = tasks\<rparr> (EvArrive k demo_write_request)"
    and "\<And>T S E tasks k. alone_env demo_auth_env None T S E \<Longrightarrow> ok \<lparr>cs_shared = S, cs_tasks = tasks(k \<mapsto> T)\<rparr> (EvStep k E)"
  shows "\<exists>tr S T U resp. conc_run demo_write_ext demo_block_web (\<lambda>_ _. False) demo_write_boot ok (conc_init demo_write_boot 0 demo_fs) tr
      \<lparr>cs_shared = S, cs_tasks = [0 \<mapsto> T, Suc 0 \<mapsto> U]\<rparr> \<and> ct_pc T = Answered respond_block_204 \<and> ct_pc U = Answered resp \<and>
    demo_task T \<and> demo_task U"
proof -
  let ?S0 = "cs_shared (conc_init demo_write_boot 0 demo_fs :: bytes conc_state)"
  obtain s1 where s1: "demo_perform (booted_state demo_write_boot demo_fs) = Returns (Some respond_block_204, s1)"
    "ss_contexts s1 vault_addr = Some demo_write_context" "ss_replay s1 = demo_write_store" using demo_write_first by blast
  obtain resp s2 where s2: "demo_perform s1 = Returns (Some resp, s2)" using demo_write_second [OF s1(2,3)] by blast
  have w: "to_bytes_documented (web_to_bytes demo_block_web) Some" using demo_to_bytes_documented by (simp add: demo_block_web_def)
  have act: "action_ok demo_write_ext demo_write"
    by (simp add: action_ok_def demo_write_def env_fine_def env_keeps_def demo_auth_env_def demo_refresh_env_def calm_put_ok)
  have fs1: "local_ok ''/srv'' (ss_fs s1)"
    using perform_ok [OF s1(1) demo_write_ok act w] demo_boot_facts(1) by (simp add: server_ok_def)
  have S0: "demo_perform (shared_state ?S0) = Returns (Some respond_block_204, s1)" "sh_now ?S0 = 0" "local_ok ''/srv'' (sh_fs ?S0)"
    using s1(1) demo_fs_ok by (simp_all add: demo_conc_init) (simp_all add: conc_init_def)
  have "\<lparr>cs_shared = ?S0, cs_tasks = Map.empty\<rparr> = conc_init demo_write_boot 0 demo_fs" by (simp add: conc_init_def)
  then have "conc_run demo_write_ext demo_block_web (\<lambda>_ _. False) demo_write_boot ok (conc_init demo_write_boot 0 demo_fs) []
      \<lparr>cs_shared = ?S0, cs_tasks = Map.empty\<rparr>"
    using conc_nil by metis
  from demo_alone [OF S0(1) _ S0(2,3) assms this, of 0] obtain tr1 T S1 where
    run1: "conc_run demo_write_ext demo_block_web (\<lambda>_ _. False) demo_write_boot ok (conc_init demo_write_boot 0 demo_fs) tr1
        \<lparr>cs_shared = S1, cs_tasks = [0 \<mapsto> T]\<rparr>"
      "ct_pc T = Answered respond_block_204" "shared_state S1 = s1" "sh_now S1 = 0" "demo_task T"
    by auto
  have S1: "demo_perform (shared_state S1) = Returns (Some resp, s2)" "local_ok ''/srv'' (sh_fs S1)"
    using s2 fs1 run1(3) by (auto simp: shared_state_def)
  from demo_alone [OF S1(1) _ run1(4) S1(2) assms run1(1), of "Suc 0"] obtain tr2 U S2 where
    "conc_run demo_write_ext demo_block_web (\<lambda>_ _. False) demo_write_boot ok (conc_init demo_write_boot 0 demo_fs) (tr1 @ tr2)
        \<lparr>cs_shared = S2, cs_tasks = [0 \<mapsto> T, Suc 0 \<mapsto> U]\<rparr>" "ct_pc U = Answered resp" "demo_task U"
    by auto
  with run1(2,5) show ?thesis by blast
qed

lemma demo_timely:
  "timely (100 * nanos_per_sec) 0 \<lparr>cs_shared = S, cs_tasks = tasks\<rparr> (EvArrive k r)"
  "alone_env demo_auth_env None T S E \<Longrightarrow> timely (100 * nanos_per_sec) 0 \<lparr>cs_shared = S, cs_tasks = tasks(k \<mapsto> T)\<rparr> (EvStep k E)"
  by (auto simp: timely_def alone_env_def demo_auth_env_def demo_refresh_env_def clocks_agree_def nanos_per_sec_def split: request_pc.splits)

lemma demo_storage_env:
  "storage_env_ok \<lparr>cs_shared = S, cs_tasks = tasks\<rparr> (EvArrive k r)"
  "alone_env demo_auth_env None T S E \<Longrightarrow> storage_env_ok \<lparr>cs_shared = S, cs_tasks = tasks(k \<mapsto> T)\<rparr> (EvStep k E)"
  by (auto simp: storage_env_ok_def alone_env_def)

subsection \<open>Properties\<close>

text \<open>
  C2. Concurrent requests cannot share a proof. Whatever requests are in flight and however their steps, the
  clean-ups, the refreshes and disconnecting clients interleave: if the replay window is at least the freshness, twice
  the clock skew, one second and the longest time that a request takes from checking its proof to
  inserting its identifier, then the guard of a context never lets two requests pass with the same
  proof. Only a request that has passed is ever answered with a subject, with a block, or with 204.
\<close>

theorem concurrent_proof_once:
  assumes run: "conc_run X W nc b (timely off stall) (conc_init b now s) tr S"
    and store: "bd_replay b = replay_store_new (auth (bd_config b))"
    and cfg: "auth_config_ok (ctx_auth_config ctx)"
    and window: "unat (dpop_freshness_secs (ctx_auth_config ctx)) + 2 * unat (clock_skew_secs (ctx_auth_config ctx)) + 1 + stall
      \<le> unat (jti_replay_window_secs (ctx_auth_config ctx))"
    and payload: "proof_decodes_payload X raw_proof"
  shows "(\<forall>k l T U. cs_tasks S k = Some T \<longrightarrow> cs_tasks S l = Some U \<longrightarrow> passed_with ctx raw_proof T \<longrightarrow>
      passed_with ctx raw_proof U \<longrightarrow> k = l) \<and>
    (\<forall>k T resp. cs_tasks S k = Some T \<longrightarrow> ct_pc T = Answered resp \<longrightarrow> resp_status resp \<in> {200, 204} \<longrightarrow>
       ct_route T = RouteHealth \<or> ct_accepted T \<noteq> None)"
proof -
  have "kept S \<and> (\<forall>k l T U. cs_tasks S k = Some T \<longrightarrow> cs_tasks S l = Some U \<longrightarrow> passed_with ctx raw_proof T \<longrightarrow>
      passed_with ctx raw_proof U \<longrightarrow> k = l)"
    using run
  proof (induction rule: conc_run.induct)
    case conc_nil
    then show ?case using conc_init_replay [OF store] by simp
  next
    case (conc_snoc tr S ev S')
    note inv = tasks_inv [OF conc_snoc.hyps(1) timely_clocked conc_init_tasks]
      and rep = run_replay_ok [OF conc_snoc.hyps(1) conc_init_replay(1) [OF store]]
    have "k = l" if "cs_tasks S' k = Some T" "cs_tasks S' l = Some U" "passed_with ctx raw_proof T" "passed_with ctx raw_proof U" for k l T U
      by (rule proof_once_step [OF conc_snoc.hyps(3,2) cfg window payload _ _ _ that])
        (use inv conc_snoc.IH in blast)+
    then show ?case using kept_step [OF conc_snoc.hyps(3) rep] conc_snoc.IH by blast
  qed
  moreover have "ct_route T = RouteHealth \<or> ct_accepted T \<noteq> None"
    if "cs_tasks S k = Some T" "ct_pc T = Answered resp" "resp_status resp \<in> {200, 204}" for k T resp
    using tasks_inv [OF run timely_clocked conc_init_tasks that(1)] that(2,3) by (auto simp: task_inv_def pc_inv_def on_block_def)
  ultimately show ?thesis by blast
qed

text \<open>Witness: the write request arrives twice; the first has passed, the second has not.\<close>

theorem concurrent_proof_once_witness:
  "\<exists>tr S T U. conc_run demo_write_ext demo_block_web (\<lambda>_ _. False) demo_write_boot (timely (100 * nanos_per_sec) 0)
       (conc_init demo_write_boot 0 demo_fs) tr S \<and> cs_tasks S 0 = Some T \<and> cs_tasks S 1 = Some U \<and>
     passed_with demo_write_context ''prf'' T \<and> \<not> passed_with demo_write_context ''prf'' U"
proof -
  obtain tr S T U resp where run: "conc_run demo_write_ext demo_block_web (\<lambda>_ _. False) demo_write_boot (timely (100 * nanos_per_sec) 0)
       (conc_init demo_write_boot 0 demo_fs) tr \<lparr>cs_shared = S, cs_tasks = [0 \<mapsto> T, Suc 0 \<mapsto> U]\<rparr>"
      "ct_pc T = Answered respond_block_204" "demo_task T"
    using demo_conc_run [where ok = "timely (100 * nanos_per_sec) 0", OF demo_timely] by blast
  have cfg: "auth_config_ok (ctx_auth_config demo_write_context)"
    "unat (dpop_freshness_secs (ctx_auth_config demo_write_context)) + 2 * unat (clock_skew_secs (ctx_auth_config demo_write_context)) + 1 + 0
      \<le> unat (jti_replay_window_secs (ctx_auth_config demo_write_context))"
    by (simp_all add: demo_write_context_def demo_wide_config_def auth_config_ok_def auth_config_default_def)
  have pay: "proof_decodes_payload demo_write_ext ''prf''" by (simp add: proof_decodes_payload_def)
  note once = concurrent_proof_once [OF run(1) demo_boot_facts(3) cfg pay]
  have "ct_accepted T \<noteq> None"
    using conjunct2 [OF once, rule_format, of 0 T respond_block_204] run(2,3) by (simp add: respond_block_204_def demo_task_def)
  then have T: "passed_with demo_write_context ''prf'' T" using run(3) by (simp add: passed_with_def demo_task_def)
  then have "\<not> passed_with demo_write_context ''prf'' U"
    using conjunct1 [OF once, rule_format, of 0 T "Suc 0" U] by auto
  with run(1) T show ?thesis by fastforce
qed

text \<open>
  C1. Concurrent requests on blocks are linearisable. In every run, with any interleaving of the steps of
  any number of requests and any faults, the stored blocks are those at the start changed by the
  commits (renames of complete files and removals) in their order. A request that was answered with 204 has exactly one
  commit among its own steps, one that was answered otherwise has none; a \<open>GET\<close> that was answered with
  200 returns what was stored before one of its own steps, and one that was answered with 404 read that nothing was stored.
\<close>

theorem concurrent_blocks_linearisable:
  assumes "conc_run X W nc b storage_env_ok (conc_init b now s) tr S" and "bd_storage b = Some root" and "local_ok root s"
  shows "fs_view root (sh_fs (cs_shared S)) = fold apply_commit (commits tr) (fs_view root s) \<and>
    (\<forall>k T resp. cs_tasks S k = Some T \<longrightarrow> ct_pc T = Answered resp \<longrightarrow>
       commits_of k tr = (if resp_status resp = 204 then 1 else 0) \<and> read_ok root tr k T)"
proof (intro conjI allI impI)
  show "fs_view root (sh_fs (cs_shared S)) = fold apply_commit (commits tr) (fs_view root s)" by (rule run_view [OF assms])
  fix k T resp assume T: "cs_tasks S k = Some T" "ct_pc T = Answered resp"
  then show "commits_of k tr = (if resp_status resp = 204 then 1 else 0)"
    using run_commit_count [OF assms(1), of k] by (simp add: commit_count_def committed_def)
  show "read_ok root tr k T" by (rule run_reads [OF assms T(1)])
qed

text \<open>Witness: the write of the example has one commit.\<close>

theorem concurrent_blocks_linearisable_witness:
  "\<exists>tr S T. conc_run demo_write_ext demo_block_web (\<lambda>_ _. False) demo_write_boot storage_env_ok (conc_init demo_write_boot 0 demo_fs) tr S \<and>
     cs_tasks S 0 = Some T \<and> ct_pc T = Answered respond_block_204 \<and> commits_of 0 tr = 1 \<and>
     fs_view ''/srv'' (sh_fs (cs_shared S)) = fold apply_commit (commits tr) (fs_view ''/srv'' demo_fs)"
proof -
  obtain tr S T U resp where run: "conc_run demo_write_ext demo_block_web (\<lambda>_ _. False) demo_write_boot storage_env_ok
       (conc_init demo_write_boot 0 demo_fs) tr \<lparr>cs_shared = S, cs_tasks = [0 \<mapsto> T, Suc 0 \<mapsto> U]\<rparr>"
      "ct_pc T = Answered respond_block_204"
    using demo_conc_run [where ok = storage_env_ok, OF demo_storage_env] by blast
  note lin = concurrent_blocks_linearisable [OF run(1) demo_boot_facts(1) demo_fs_ok]
  have "commits_of 0 tr = 1"
    using conjunct2 [OF lin, rule_format, of 0 T respond_block_204] run(2) by (simp add: respond_block_204_def)
  with conjunct1 [OF lin] run show ?thesis
    by (intro exI [of _ tr] exI [of _ "\<lparr>cs_shared = S, cs_tasks = [0 \<mapsto> T, Suc 0 \<mapsto> U]\<rparr>"] exI [of _ T]) auto
qed

lemma put_admits_iff:
  assumes "to_bytes_documented tb body_data"
  shows "put_admits tb n r = Some p \<longleftrightarrow> put_accepts body_data n r p"
proof (cases "unat n + 1 < 2 ^ 64")
  case True
  then have "checked_add n 1 = Some (n + 1)" "unat (n + 1) = unat n + 1"
    using unat_plus_no_overflow [of n 1] by (simp_all add: checked_add_def)
  then show ?thesis
    using assms True by (auto simp: put_admits_def to_bytes_documented_def put_accepts_def split: option.splits if_splits)
next
  case False
  then have "checked_add n 1 = None" by (simp add: checked_add_def)
  then show ?thesis using False by (simp add: put_admits_def put_accepts_def)
qed

lemma accepted_authenticated:
  assumes "subtle_decides_eq X" and "sha256_len32 X" and "task_inv X W b H P T" and "ct_accepted T \<noteq> None"
    and "route_guard (ct_route T) = Some (a, ctx, methods)"
  shows "\<exists>A sub. \<exists>h \<in> H. authenticated X A ctx (current_keys h a ctx) (ct_request T) sub"
proof -
  obtain p key d where "ct_accepted T = Some (p, key, d)" using assms(4) by (cases "ct_accepted T") auto
  then obtain c at where sh: "shown X H P T c at p d" using assms(3) unfolding task_inv_def accepted_ok_def by blast
  then have c: "cr_addr c = a" "cr_ctx c = ctx" "credentials_of X a ctx (ct_request T) = Inr c"
    using assms(5) by (auto simp: shown_def creds_ok_def)
  from sh obtain h clock header alg claims where t: "h \<in> H" "header_ok X c header alg" "token_attempt X h c header alg = Inr claims"
      "check_token_claims X clock ctx claims = Inr at"
    using c(2) unfolding shown_def token_good_def by blast
  from sh obtain clock' where p: "check_proof X clock' ctx (cr_proof c) (req_method (ct_request T)) (cr_uri c) at (cr_token c) = Inr p"
    using c(2) unfolding shown_def proof_good_def by blast
  have "token_attempt X h c header alg = try_decode_with_current_jwks X (cr_token c) header
      (token_validation X alg (clock_skew_secs (ctx_auth_config ctx))) (current_keys h a ctx)"
    unfolding token_attempt_def current_keys_def c(1,2) ..
  with t(3) obtain cand dk where k: "cand \<in> set (lookup_candidates (current_keys h a ctx) (hdr_kid header))"
      "decoding_key_from_jwk X (jwk_raw cand) = Inr dk"
      "jwt_decode_token X (cr_token c) dk (token_validation X alg (clock_skew_secs (ctx_auth_config ctx))) = Inr claims"
    by (auto elim: try_decode_Inr)
  have fits: "token_fits X clock ctx claims at" using t(4) check_token_claims_iff [OF assms(1)] by blast
  then have "length (cnf_jkt at) = 32" by (auto simp: token_fits_def Let_def)
  then have "proof_fits X clock' ctx (cr_proof c) (req_method (ct_request T)) (cr_uri c) at (cr_token c) p"
    using p check_proof_iff [OF assms(1,2)] by blast
  then have "authenticated X (demo_auth_env\<lparr>ae_token_clock := clock, ae_proof_clock := clock'\<rparr>) ctx (current_keys h a ctx) (ct_request T) (at_sub at)"
    using credentials_of_parts(3-5) [OF c(3)] t(2) k fits unfolding authenticated_def header_ok_def by simp blast
  then show ?thesis using t(1) by blast
qed

text \<open>
  C3. Under concurrency too, every change of the stored blocks is authorised. Whatever the interleaving, each
  commit belongs to a request in flight for that block: a \<open>PUT\<close> whose complete body of the configured size is what was stored, or a
  \<open>DELETE\<close>; and its token was verified with keys that the vault context had at some point of the
  run, and its proof fits that token and the request.
\<close>

theorem concurrent_writes_authenticated:
  assumes "subtle_decides_eq X" and "sha256_len32 X" and "to_bytes_documented (web_to_bytes W) body_data"
    and "conc_run X W nc b storage_env_ok (conc_init b now s) tr S" and "bd_storage b = Some root" and "local_ok root s"
    and "(k, i, v) \<in> set (commits tr)"
  shows "\<exists>T ctx A sub. \<exists>h \<in> heaps tr S. cs_tasks S k = Some T \<and> request_block_id (ct_request T) = Some i \<and>
    (case v of
       Some p \<Rightarrow> req_method (ct_request T) = ''PUT'' \<and> put_accepts body_data (block_size_bytes (bd_config b)) (ct_request T) p
     | None \<Rightarrow> req_method (ct_request T) = ''DELETE'') \<and>
    bd_contexts b vault_addr = Some ctx \<and> authenticated X A ctx (current_keys h vault_addr ctx) (ct_request T) sub"
proof -
  obtain T where T: "cs_tasks S k = Some T" "write_request W T i v" using run_write_requests [OF assms(4-7)] by blast
  then obtain ctx r n where w: "ct_route T = RouteBlock ctx r n" "request_block_id (ct_request T) = Some i" "ct_accepted T \<noteq> None"
      "if v = None then req_method (ct_request T) = ''DELETE''
       else req_method (ct_request T) = ''PUT'' \<and> put_admits (web_to_bytes W) n (ct_request T) = v"
    unfolding write_request_def by blast
  note inv = run_inv(2) [OF assms(4-6) T(1)]
  have b: "bd_contexts b vault_addr = Some ctx" "n = block_size_bytes (bd_config b)"
    using inv w(1) by (simp_all add: task_inv_def route_ok_def)
  have v: "case v of
       Some p \<Rightarrow> req_method (ct_request T) = ''PUT'' \<and> put_accepts body_data (block_size_bytes (bd_config b)) (ct_request T) p
     | None \<Rightarrow> req_method (ct_request T) = ''DELETE''"
    using w(4) put_admits_iff [OF assms(3)] b(2) by (auto split: option.splits)
  have "\<exists>A sub. \<exists>h \<in> heaps tr S. authenticated X A ctx (current_keys h vault_addr ctx) (ct_request T) sub"
    by (rule accepted_authenticated [OF assms(1,2) inv w(3)]) (simp add: w(1))
  with T(1) w(2) v b(1) show ?thesis by blast
qed

text \<open>Witness: the write of the example.\<close>

theorem concurrent_writes_authenticated_witness:
  "\<exists>tr S T i v A sub h. conc_run demo_write_ext demo_block_web (\<lambda>_ _. False) demo_write_boot storage_env_ok (conc_init demo_write_boot 0 demo_fs) tr S \<and>
     (0, i, v) \<in> set (commits tr) \<and> cs_tasks S 0 = Some T \<and>
     authenticated demo_write_ext A demo_write_context (current_keys h vault_addr demo_write_context) (ct_request T) sub"
proof -
  obtain tr S T U resp where run: "conc_run demo_write_ext demo_block_web (\<lambda>_ _. False) demo_write_boot storage_env_ok
       (conc_init demo_write_boot 0 demo_fs) tr \<lparr>cs_shared = S, cs_tasks = [0 \<mapsto> T, Suc 0 \<mapsto> U]\<rparr>"
      "ct_pc T = Answered respond_block_204"
    using demo_conc_run [where ok = storage_env_ok, OF demo_storage_env] by blast
  have "commits_of 0 tr = 1"
    using run_commit_count [OF run(1), of 0] run(2) by (simp add: commit_count_def committed_def respond_block_204_def)
  then have "\<exists>c \<in> set (commits tr). fst c = 0"
    unfolding commits_of_def by (metis (mono_tags, lifting) filter_False list.size(3) zero_neq_one)
  then obtain i v where c: "(0, i, v) \<in> set (commits tr)" by auto
  have w: "to_bytes_documented (web_to_bytes demo_block_web) Some" using demo_to_bytes_documented by (simp add: demo_block_web_def)
  show ?thesis
    using concurrent_writes_authenticated [OF demo_write_ext_laws w run(1) demo_boot_facts(1) demo_fs_ok c] run(1) c demo_boot_facts(2)
    by fastforce
qed

text \<open>
  The two models of a request agree. Whatever \<open>server_router\<close> does with a request as one function, with any
  faults and no other task in between, the machine of requests in flight can do from the same state by steps of that
  request only: it answers with the same response and leaves the same contexts, replay store and file system.
\<close>

theorem request_alone_is_router:
  assumes "server_router X W nc b A E g r (shared_state S) = Returns (resp, log, s')"
    and "tasks k = None" and "sh_now S = ae_instant A" and "put_env_ok E" and "undisturbed (ae_refresh A)"
    and "\<And>root. bd_storage b = Some root \<Longrightarrow> local_ok root (sh_fs S)"
    and "\<And>root i p. bd_storage b = Some root \<Longrightarrow> request_block_id r = Some i \<Longrightarrow>
      put_admits (web_to_bytes W) (block_size_bytes (bd_config b)) r = Some p \<Longrightarrow> put_env_real E root i p"
  shows "\<exists>tr T S'. conc_run X W nc b (\<lambda>_ ev. ev = EvArrive k r \<or> (\<exists>F. ev = EvStep k F)) \<lparr>cs_shared = S, cs_tasks = tasks\<rparr> tr
      \<lparr>cs_shared = S', cs_tasks = tasks(k \<mapsto> T)\<rparr> \<and> ct_pc T = Answered resp \<and> shared_state S' = s'"
  using alone_run [where ok = "\<lambda>_ ev. ev = EvArrive k r \<or> (\<exists>F. ev = EvStep k F)" and tr = "[]" and k = k and tasks = tasks,
      OF assms(1) refl assms(2-7) _ _ conc_nil] by auto

text \<open>Witness: the write of the example.\<close>

theorem request_alone_is_router_witness:
  "\<exists>tr T S'. conc_run demo_write_ext demo_block_web (\<lambda>_ _. False) demo_write_boot
      (\<lambda>_ ev. ev = EvArrive 0 demo_write_request \<or> (\<exists>F. ev = EvStep 0 F)) (conc_init demo_write_boot 0 demo_fs) tr
      \<lparr>cs_shared = S', cs_tasks = [0 \<mapsto> T]\<rparr> \<and> ct_pc T = Answered respond_block_204"
proof -
  let ?S = "cs_shared (conc_init demo_write_boot 0 demo_fs :: bytes conc_state)"
  obtain s1 log where r: "server_router demo_write_ext demo_block_web (\<lambda>_ _. False) demo_write_boot demo_auth_env calm_put None
      demo_write_request (shared_state ?S) = Returns (respond_block_204, log, s1)"
    using demo_write_first demo_perform_router unfolding demo_conc_init by blast
  have now: "sh_now ?S = ae_instant demo_auth_env" by (simp add: conc_init_def demo_auth_env_def)
  have root: "local_ok root (sh_fs ?S)" if "bd_storage demo_write_boot = Some root" for root
    using that demo_boot_facts(1) demo_fs_ok by (simp add: conc_init_def)
  have init: "\<lparr>cs_shared = ?S, cs_tasks = Map.empty\<rparr> = conc_init demo_write_boot 0 demo_fs" by (simp add: conc_init_def)
  have calm: "undisturbed (ae_refresh demo_auth_env)" by (simp add: undisturbed_def demo_auth_env_def demo_refresh_env_def)
  from request_alone_is_router [OF r _ now calm_put_ok(1) calm root demo_put_env_real, of Map.empty 0] show ?thesis
    unfolding init by auto
qed

subsection \<open>The states of the concurrent server\<close>

lemma conc_init_stages: "stage_of (conc_init b now s) x = NoKeys"
  by (cases x) (simp_all add: conc_init_def)

lemma run_refreshes_valid:
  assumes "conc_run X W nc b ok (conc_init b now s) tr S" and "contexts_valid X (bd_contexts b)" and "contexts_https (bd_contexts b)"
  shows "refreshes_valid X S \<and> contexts_https (sh_contexts (cs_shared S))"
  by (rule valid_runs.inv_run [OF assms(1)]) (use assms(2,3) in \<open>simp add: refreshes_valid_def conc_init_stages, simp add: conc_init_def\<close>)

lemma run_installs_ok:
  assumes "conc_run X W nc b ok (conc_init b now s) tr S" and "contexts_ok X (bd_contexts b)" and "contexts_https (bd_contexts b)"
    and "\<forall>(S', ev) \<in> set tr. installs_apart S' ev"
  shows "installs_ok S"
  using assms(1,4)
proof (induction rule: conc_run.induct)
  case conc_nil
  then show ?case using assms(2) by (simp add: installs_ok_def conc_init_stages contexts_ok_split) (simp add: conc_init_def)
next
  case (conc_snoc tr S ev S')
  have "contexts_valid X (bd_contexts b)" using assms(2) by (simp add: contexts_ok_split)
  then have "contexts_valid X (sh_contexts (cs_shared S))"
    using run_refreshes_valid [OF conc_snoc.hyps(1) _ assms(3)] by (simp add: refreshes_valid_def)
  then show ?case using installs_ok_step [OF conc_snoc.hyps(3)] conc_snoc.IH conc_snoc.prems by simp
qed

text \<open>
  C4. Every state that the concurrent server can reach is in order. From a successful start-up on a storage
  root in order, whatever requests are in flight, refreshes and clean-ups half done and clients gone: both contexts have
  non-empty well-formed key sets, fetched from https addresses, and as long as no key set was checked for one
  context while a checked one for the other waited to be stored, these have no common key; the replay store
  has at most the configured number of entries and its published length is their number; no file or directory stands
  where a block or a shard belongs, with every stored block synced; and every put in progress has a
  temporary file of its own that holds exactly what it has written so far.
\<close>

theorem concurrent_states_ok:
  assumes "bootstrap X B s = Returns (Inr b, log, s')" and "probe_env_ok (be_probe B)"
    and "bd_storage b = Some root" and "local_ok root s"
    and "conc_run X W nc b storage_env_ok (conc_init b now s') tr S"
  shows "contexts_valid X (sh_contexts (cs_shared S)) \<and> contexts_https (sh_contexts (cs_shared S)) \<and>
    ((\<forall>(S', ev) \<in> set tr. installs_apart S' ev) \<longrightarrow> contexts_ok X (sh_contexts (cs_shared S))) \<and>
    rs_len (sys_store (sh_replay (cs_shared S))) = length (rs_entries (sys_store (sh_replay (cs_shared S)))) \<and>
    length (rs_entries (sys_store (sh_replay (cs_shared S)))) \<le> unat (max_replay_entries (auth (bd_config b))) \<and>
    put_machine_ok root (put_part S)"
proof -
  have boot: "server_ok X b (booted_state b s')" using bootstrap_server_ok [OF assms(1,2)] assms(3,4) by simp
  have root: "local_ok root s'" using boot assms(3) by (simp add: server_ok_def booted_state_def)
  have fine: "contexts_ok X (bd_contexts b)" "contexts_https (bd_contexts b)" "contexts_valid X (bd_contexts b)"
    using boot by (simp_all add: server_ok_def booted_state_def contexts_fine_def contexts_ok_split)
  have store: "bd_replay b = replay_store_new (auth (bd_config b))"
    using assms(1) by (cases rule: bootstrap_cases) auto
  have "sys_inv (auth (bd_config b)) (sh_replay (cs_shared S))"
    using run_replay_ok [OF assms(5) conc_init_replay(1) [OF store]] by (rule replay_okD(1))
  then show ?thesis
    using run_inv(1) [OF assms(5,3) root] run_refreshes_valid [OF assms(5) fine(3,2)] run_installs_ok [OF assms(5) fine(1,2)]
    by (simp add: sys_inv_def storage_ok_def refreshes_valid_def contexts_ok_split installs_ok_def)
qed

text \<open>Witness: the example's start-up, after which the vault's refresh task wakes up.\<close>

theorem concurrent_states_ok_witness:
  "\<exists>(b :: unit booted) s' S. conc_run demo_init_ext demo_block_web (\<lambda>_ _. False) b storage_env_ok
       (conc_init b 0 s') [(conc_init b 0 s', EvRefreshKeys vault_addr (demo_http 2))] S \<and>
     contexts_ok demo_init_ext (sh_contexts (cs_shared S)) \<and> put_machine_ok ''/data'' (put_part S)"
proof -
  obtain b log s' where b: "bootstrap demo_init_ext demo_boot demo_disk = Returns (Inr b, log, s')" "bd_storage b = Some ''/data''"
    using demo_boot_run by fastforce
  have p: "probe_env_ok (be_probe demo_boot)" by (simp add: probe_env_ok_def demo_boot_def calm_probe_def)
  let ?S0 = "conc_init b 0 s' :: bytes conc_state" and ?ev = "EvRefreshKeys vault_addr (demo_http 2)"
  obtain pc h where "scheduled_call demo_init_ext (demo_http 2) (sh_jobs (cs_shared ?S0) vault_addr) (sh_contexts (cs_shared ?S0)) vault_addr = (pc, h)"
    by fastforce
  then obtain S where "conc_step demo_init_ext demo_block_web (\<lambda>_ _. False) b ?S0 ?ev S" using step_refresh by blast
  then have run: "conc_run demo_init_ext demo_block_web (\<lambda>_ _. False) b storage_env_ok ?S0 [(?S0, ?ev)] S"
    using conc_snoc [OF conc_nil, of storage_env_ok ?S0 ?ev demo_init_ext demo_block_web "\<lambda>_ _. False" b S]
    by (simp add: storage_env_ok_def)
  have "installs_apart ?S0 ?ev" by (simp add: installs_apart_def conc_init_stages)
  with concurrent_states_ok [OF b(1) p b(2) demo_disk_ok run] run show ?thesis by auto
qed

text \<open>
  C7. Every answer has the type of its route and method. In every run, an answered request has one of the statuses that its
  route allows for its method; only a 200 has a body, and then the content type of its route; \<open>WWW-Authenticate\<close> comes
  with every 401 and with nothing else, and \<open>Retry-After\<close> only with 503. In particular a method that a route does
  not serve is answered with an empty 404.
\<close>

theorem responses_typed:
  assumes "conc_run X W nc b ok (conc_init b now s) tr S" and "cs_tasks S k = Some T" and "ct_pc T = Answered resp"
  shows "response_typed (ct_route T) (req_method (ct_request T)) resp"
  using run_typed [OF assms(1) conc_init_tasks assms(2)] assms(3) by (simp add: task_typed_def)

text \<open>Witness: the write of the example.\<close>

theorem responses_typed_witness:
  "\<exists>tr S T. conc_run demo_write_ext demo_block_web (\<lambda>_ _. False) demo_write_boot storage_env_ok (conc_init demo_write_boot 0 demo_fs) tr S \<and>
     cs_tasks S 0 = Some T \<and> ct_pc T = Answered respond_block_204 \<and>
     response_typed (ct_route T) (req_method (ct_request T)) respond_block_204"
proof -
  obtain tr S T U resp where run: "conc_run demo_write_ext demo_block_web (\<lambda>_ _. False) demo_write_boot storage_env_ok
       (conc_init demo_write_boot 0 demo_fs) tr \<lparr>cs_shared = S, cs_tasks = [0 \<mapsto> T, Suc 0 \<mapsto> U]\<rparr>"
      "ct_pc T = Answered respond_block_204"
    using demo_conc_run [where ok = storage_env_ok, OF demo_storage_env] by blast
  have "response_typed (ct_route T) (req_method (ct_request T)) respond_block_204"
    by (rule responses_typed [OF run(1) _ run(2), of 0]) simp
  with run show ?thesis by fastforce
qed

text \<open>
  C5. Every request finishes. However requests are interleaved, whatever the issuer, the clocks and the file system do, and
  whoever disconnects: a request in flight can always take its next step, each step of its own brings it nearer to its
  end, and after at most fourteen steps, or for a well-formed block identifier twenty-three steps plus one for each byte of a block and each
  directory above it, it has been answered (or its task has ended without an answer). No request is held up by another one: the only wait, for the refresh of
  another request, ends with its timeout.
\<close>

theorem requests_finish:
  assumes "conc_run X W nc b ok (conc_init b now s) tr S" and "cs_tasks S k = Some T"
  shows "(\<forall>E. \<exists>S'. conc_step X W nc b S (EvStep k E) S') \<and>
    (start_rank T \<le> own_steps k tr \<longrightarrow> finished T) \<and>
    (finished T \<or> own_steps k tr + request_rank T \<le> start_rank T) \<and>
    start_rank T = (case (ct_route T, request_block_id (ct_request T)) of
        (RouteBlock _ root n, Some i) \<Rightarrow> 23 + unat n + length (path_prefixes [] (shard_dir root i))
      | _ \<Rightarrow> 14)"
proof -
  have rank: "finished T \<or> own_steps k tr + request_rank T \<le> start_rank T"
    using run_rank [OF assms(1) conc_init_tasks] assms(2) by blast
  have "\<exists>S'. conc_step X W nc b S (EvStep k E) S'" for E
    using step_request [of S k T X W E] assms(2) by (metis surj_pair)
  moreover have "start_rank T \<le> own_steps k tr \<longrightarrow> finished T"
    using rank request_rank_0_iff [of T] by auto
  moreover have "start_rank T = (case (ct_route T, request_block_id (ct_request T)) of
        (RouteBlock _ root n, Some i) \<Rightarrow> 23 + unat n + length (path_prefixes [] (shard_dir root i))
      | _ \<Rightarrow> 14)"
    by (auto simp: start_rank_def handler_rank_def split: route.splits option.splits)
  ultimately show ?thesis using rank by blast
qed

text \<open>Witness: the write of the example, just arrived.\<close>

theorem requests_finish_witness:
  "\<exists>tr S T. conc_run demo_write_ext demo_block_web (\<lambda>_ _. False) demo_write_boot (\<lambda>_ _. True) (conc_init demo_write_boot 0 demo_fs) tr S \<and>
     cs_tasks S 0 = Some T \<and> \<not> finished T \<and> own_steps 0 tr + request_rank T \<le> start_rank T"
proof -
  let ?S0 = "conc_init demo_write_boot 0 demo_fs :: bytes conc_state"
  obtain S T where S: "conc_step demo_write_ext demo_block_web (\<lambda>_ _. False) demo_write_boot ?S0 (EvArrive 0 demo_write_request) S"
      "cs_tasks S 0 = Some T" "ct_pc T = AtGuard"
    using step_arrive [where S = ?S0 and k = 0 and r = demo_write_request and nc = "\<lambda>_ _. False" and b = demo_write_boot and
      X = demo_write_ext and W = demo_block_web, OF _ refl]
    by (fastforce simp: conc_init_def)
  have run: "conc_run demo_write_ext demo_block_web (\<lambda>_ _. False) demo_write_boot (\<lambda>_ _. True) ?S0 ([] @ [(?S0, EvArrive 0 demo_write_request)]) S"
    by (rule conc_snoc [OF conc_nil _ S(1)]) simp
  have "\<not> finished T" using S(3) by (simp add: finished_def)
  with requests_finish [OF run S(2)] run S(2) show ?thesis by blast
qed

end
