(* ===== verification/Concurrent_Refresh.thy ===== *)
theory Concurrent_Refresh
  imports Concurrent_Properties
begin

section \<open>Refreshes of a running server\<close>

text \<open>
  What the refreshes of a running server can do and cannot do: two of them can leave a common key in both contexts, and
  however many requests need new keys, the issuer of a context is asked at most once per interval on their behalf.
\<close>

subsection \<open>Overlapping refreshes\<close>

lemma job_step:
  assumes "\<exists>tr. conc_run X W nc b ok S0 tr \<lparr>cs_shared = S\<lparr>sh_contexts := h, sh_jobs := J\<rparr>, cs_tasks = tasks\<rparr>"
    and "scheduled_call X http (J a) h a = (pc, h')" and "\<And>S. ok S (EvRefreshKeys a http)"
  shows "\<exists>tr. conc_run X W nc b ok S0 tr \<lparr>cs_shared = S\<lparr>sh_contexts := h', sh_jobs := J(a := pc)\<rparr>, cs_tasks = tasks\<rparr>"
proof -
  let ?S = "\<lparr>cs_shared = S\<lparr>sh_contexts := h, sh_jobs := J\<rparr>, cs_tasks = tasks\<rparr>"
  obtain tr where run: "conc_run X W nc b ok S0 tr ?S" using assms(1) by blast
  have "conc_step X W nc b ?S (EvRefreshKeys a http) \<lparr>cs_shared = S\<lparr>sh_contexts := h', sh_jobs := J(a := pc)\<rparr>, cs_tasks = tasks\<rparr>"
    using step_refresh [of X http ?S a pc h' W nc b] assms(2) by simp
  then show ?thesis using conc_snoc [OF run assms(3)] by blast
qed

text \<open>Two ticks whose checks both come before the stores.\<close>

lemma jobs_overlap:
  assumes "\<exists>tr. conc_run X W nc b ok S0 tr \<lparr>cs_shared = S\<lparr>sh_contexts := [vault_addr \<mapsto> v, admin_addr \<mapsto> a], sh_jobs := (\<lambda>_. SIdle)\<rparr>, cs_tasks = tasks\<rparr>"
    and ok: "\<And>S x. ok S (EvRefreshKeys x http)" and fetch: "\<And>u. fetch_jwks X http u = Returns (Inr j)"
    and check: "is_ok (install_check [vault_addr \<mapsto> v, admin_addr \<mapsto> a] v j)" "is_ok (install_check [vault_addr \<mapsto> v, admin_addr \<mapsto> a] a j)"
  shows "\<exists>tr. conc_run X W nc b ok S0 tr
    \<lparr>cs_shared = S\<lparr>sh_contexts := [vault_addr \<mapsto> v\<lparr>ctx_jwks := j\<rparr>, admin_addr \<mapsto> a\<lparr>ctx_jwks := j\<rparr>], sh_jobs := (\<lambda>_. SIdle)\<rparr>, cs_tasks = tasks\<rparr>"
proof -
  let ?h = "[vault_addr \<mapsto> v, admin_addr \<mapsto> a]" and ?v = "v\<lparr>ctx_jwks := j\<rparr>" and ?a = "a\<lparr>ctx_jwks := j\<rparr>"
  let ?uv = "jwks_uri (ctx_discovery v)" and ?ua = "jwks_uri (ctx_discovery a)"
  let ?J = "\<lambda>p q. (\<lambda>_. SIdle)(vault_addr := p, admin_addr := q)"
  let ?run = "\<lambda>h J. \<exists>tr. conc_run X W nc b ok S0 tr \<lparr>cs_shared = S\<lparr>sh_contexts := h, sh_jobs := J\<rparr>, cs_tasks = tasks\<rparr>"
  have vault: "?run h' (?J p' q)" if "?run h (?J p q)" "scheduled_call X http p h vault_addr = (p', h')" for h h' p p' q
    using job_step [where J = "?J p q" and a = vault_addr and http = http, OF that(1) _ ok] that(2) by (simp add: fun_upd_twist)
  have admin: "?run h' (?J p q')" if "?run h (?J p q)" "scheduled_call X http q h admin_addr = (q', h')" for h h' p q q'
    using job_step [where J = "?J p q" and a = admin_addr and http = http, OF that(1) _ ok] that(2) by simp
  have idle: "?J SIdle SIdle = (\<lambda>_. SIdle)" by auto
  have "?run ?h (?J SIdle SIdle)" using assms(1) unfolding idle .
  then have "?run ?h (?J (SFetch ?uv) SIdle)" by (rule vault) (simp add: scheduled_call_def)
  then have "?run ?h (?J (SFetch ?uv) (SFetch ?ua))" by (rule admin) (simp add: scheduled_call_def)
  then have "?run ?h (?J (SCheck j) (SFetch ?ua))" by (rule vault) (simp add: scheduled_call_def fetch)
  then have "?run ?h (?J (SCheck j) (SCheck j))" by (rule admin) (simp add: scheduled_call_def fetch)
  then have "?run ?h (?J (SStore j) (SCheck j))" by (rule vault) (simp add: scheduled_call_def check)
  then have "?run ?h (?J (SStore j) (SStore j))" by (rule admin) (simp add: scheduled_call_def check)
  then have "?run [vault_addr \<mapsto> ?v, admin_addr \<mapsto> a] (?J SIdle (SStore j))"
    by (rule vault) (simp add: scheduled_call_def jwks_store_def fun_upd_twist)
  then have "?run [vault_addr \<mapsto> ?v, admin_addr \<mapsto> ?a] (?J SIdle SIdle)"
    by (rule admin) (simp add: scheduled_call_def jwks_store_def)
  then show ?thesis unfolding idle .
qed

lemma demo_boot_contexts:
  assumes "bootstrap demo_init_ext demo_boot demo_disk = Returns (Inr b, log, s')"
  shows "\<exists>v a. bd_contexts b = [vault_addr \<mapsto> v, admin_addr \<mapsto> a] \<and> other v = Some admin_addr \<and> other a = Some vault_addr \<and>
    ctx_jwks v = demo_jwks ''k'' [1] \<and> ctx_jwks a = demo_jwks ''k'' [3] \<and> ctx_tag v = Vault \<and> ctx_tag a = Admin"
  using assms
proof (cases rule: bootstrap_cases)
  case (started cfg h st addr)
  then have "cfg = demo_config" using demo_boot_load by simp
  then have "init_contexts demo_init_ext demo_http demo_config = Returns (Inr (bd_contexts b))"
    using started by (simp add: demo_boot_def)
  then show ?thesis unfolding demo_init outcome.inject sum.inject by - (intro exI conjI, erule sym, simp_all)
qed auto

text \<open>
  C24. A running server can come to accept the same keys for both audiences. From a successful start-up with disjoint key
  sets, when both issuers deliver the same new key, the ticks of the two scheduled refresh tasks alone lead to a state in which
  both contexts have that key: each task checks against the other context before either stores.
\<close>

theorem server_refreshes_can_overlap:
  "\<exists>(b :: unit booted) log s' tr S v a. bootstrap demo_init_ext demo_boot demo_disk = Returns (Inr b, log, s') \<and>
     contexts_ok demo_init_ext (bd_contexts b) \<and>
     conc_run demo_init_ext demo_block_web (\<lambda>_ _. False) b (\<lambda>_ ev. \<exists>x. ev = EvRefreshKeys x (demo_http 2)) (conc_init b 0 s') tr S \<and>
     sh_contexts (cs_shared S) vault_addr = Some v \<and> sh_contexts (cs_shared S) admin_addr = Some a \<and>
     ctx_jwks v = ctx_jwks a \<and> \<not> contexts_ok demo_init_ext (sh_contexts (cs_shared S))"
proof -
  obtain b :: "unit booted" and log s' where boot: "bootstrap demo_init_ext demo_boot demo_disk = Returns (Inr b, log, s')" "bd_storage b = Some ''/data''"
    using demo_boot_run by fastforce
  have p: "probe_env_ok (be_probe demo_boot)" by (simp add: probe_env_ok_def demo_boot_def calm_probe_def)
  have start: "contexts_ok demo_init_ext (bd_contexts b)"
    using bootstrap_server_ok [OF boot(1) p] boot(2) demo_disk_ok by (simp add: server_ok_def booted_state_def contexts_fine_def)
  obtain v a where h: "bd_contexts b = [vault_addr \<mapsto> v, admin_addr \<mapsto> a]" "other v = Some admin_addr" "other a = Some vault_addr"
      "ctx_jwks v = demo_jwks ''k'' [1]" "ctx_jwks a = demo_jwks ''k'' [3]"
    using demo_boot_contexts [OF boot(1)] by blast
  let ?j = "demo_jwks ''k'' [2]" and ?X = demo_init_ext and ?S0 = "conc_init b 0 s' :: bytes conc_state"
  let ?v = "v\<lparr>ctx_jwks := ?j\<rparr>" and ?a = "a\<lparr>ctx_jwks := ?j\<rparr>" and ?ok = "\<lambda>_ ev. \<exists>x. ev = EvRefreshKeys x (demo_http 2)"
  have fetch: "fetch_jwks ?X (demo_http 2) u = Returns (Inr ?j)" for u using demo_fetch [of 2 u] by simp
  have check: "is_ok (install_check [vault_addr \<mapsto> v, admin_addr \<mapsto> a] v ?j)" "is_ok (install_check [vault_addr \<mapsto> v, admin_addr \<mapsto> a] a ?j)"
    using h demo_jwks_disjoint by (simp_all add: is_ok_unit install_check_def check_disjoint_jwks_iff jwks_disjoint_sym)
  have "\<lparr>cs_shared = (cs_shared ?S0)\<lparr>sh_contexts := [vault_addr \<mapsto> v, admin_addr \<mapsto> a], sh_jobs := (\<lambda>_. SIdle)\<rparr>, cs_tasks = Map.empty\<rparr> = ?S0"
    by (simp add: conc_init_def h(1))
  then have "\<exists>tr. conc_run ?X demo_block_web (\<lambda>_ _. False) b ?ok ?S0 tr
      \<lparr>cs_shared = (cs_shared ?S0)\<lparr>sh_contexts := [vault_addr \<mapsto> v, admin_addr \<mapsto> a], sh_jobs := (\<lambda>_. SIdle)\<rparr>, cs_tasks = Map.empty\<rparr>"
    using conc_nil by metis
  from jobs_overlap [OF this _ fetch check] obtain tr S where
    run: "conc_run ?X demo_block_web (\<lambda>_ _. False) b ?ok ?S0 tr S" "sh_contexts (cs_shared S) = [vault_addr \<mapsto> ?v, admin_addr \<mapsto> ?a]"
    by fastforce
  have "\<not> jwks_disjoint ?j ?j" by (simp add: jwks_disjoint_def demo_jwks_thumbprints)
  then have "\<not> contexts_ok ?X (sh_contexts (cs_shared S))" by (auto simp: run(2) contexts_ok_def)
  with boot(1) start run show ?thesis
    by (intro exI [of _ b] exI [of _ log] exI [of _ s'] exI [of _ tr] exI [of _ S] exI [of _ ?v] exI [of _ ?a]) simp
qed

subsection \<open>The rate of on-demand refreshes\<close>

lemma run_slot_inv:
  assumes "conc_run X W nc b ok (conc_init b now s) tr S" and "bd_contexts b a = Some c"
  shows "slot_inv a (on_demand_refresh_min_interval_secs (ctx_auth_config c)) tr S" and "fetch_inv a tr S"
  by (rule slot_runs.inv_run [OF assms(1)] fetch_runs.inv_run [OF assms(1)],
      simp add: assms(2) slot_inv_def fetch_inv_def slot_claims_def slot_fetches_def conc_init_def slot_def map_filter_simps)+

text \<open>
  C32. However many requests of a running server need new keys of one context, however their steps interleave with each other and with the
  background tasks, and whoever disconnects: each request asks the issuer at most once, and only after it has won a claim of the
  refresh slot; and any two claims are at least the configured interval apart in the wall-clock
  values that the claiming requests read (unless the clock reads the largest 64-bit value).
\<close>

theorem issuer_asked_once_per_interval:
  assumes "conc_run X W nc b ok (conc_init b now s) tr S" and "bd_contexts b a = Some c"
  shows "distinct (map fst (slot_fetches a tr)) \<and> set (slot_fetches a tr) \<subseteq> set (slot_claims a tr) \<and>
    (\<forall>m n. m < n \<longrightarrow> n < length (slot_claims a tr) \<longrightarrow> snd (slot_claims a tr ! n) = - 1 \<or>
       unat (snd (slot_claims a tr ! m)) + unat (on_demand_refresh_min_interval_secs (ctx_auth_config c)) \<le>
       unat (snd (slot_claims a tr ! n)))"
proof -
  note inv = run_slot_inv [OF assms]
  have "sorted_wrt (\<lambda>x y. spaced (on_demand_refresh_min_interval_secs (ctx_auth_config c)) (snd y) (snd x)) (slot_claims a tr)"
    using inv by (simp add: slot_inv_def)
  from sorted_wrt_nth_less [OF this] show ?thesis using inv by (auto simp: fetch_inv_def spaced_def)
qed

text \<open>An example: a request with a token whose key identifier is not in the key set.\<close>

definition demo_rotated_header :: jose_header where
  "demo_rotated_header = \<lparr>hdr_typ = None, hdr_alg = ALG_PS256, hdr_kid = Some ''new'', hdr_jwk = None\<rparr>"

definition demo_rotated_ext :: "unit ext" where
  "demo_rotated_ext = demo_write_ext\<lparr>jwt_decode_header := (\<lambda>_. Inr demo_rotated_header)\<rparr>"

definition demo_step_env :: step_env where
  "demo_step_env = \<lparr>se_clock = Some 100, se_http = demo_http 2, se_call = the_call None, se_fault = None\<rparr>"

lemma own_step:
  assumes "\<exists>tr. conc_run X W nc b (\<lambda>_ _. True) S0 tr \<lparr>cs_shared = S, cs_tasks = tasks(k \<mapsto> T)\<rparr> \<and> slot_fetches a tr = F"
    and "request_step X W E T S = (T', S')"
  shows "\<exists>tr. conc_run X W nc b (\<lambda>_ _. True) S0 tr \<lparr>cs_shared = S', cs_tasks = tasks(k \<mapsto> T')\<rparr> \<and>
    slot_fetches a tr = F @ (case ct_pc T of
        AtRefresh c _ _ _ (RFetch now _) \<Rightarrow> if cr_addr c = a then [(k, now)] else []
      | _ \<Rightarrow> [])"
proof -
  let ?S = "\<lparr>cs_shared = S, cs_tasks = tasks(k \<mapsto> T)\<rparr>"
  obtain tr where run: "conc_run X W nc b (\<lambda>_ _. True) S0 tr ?S" "slot_fetches a tr = F" using assms(1) by blast
  have "conc_step X W nc b ?S (EvStep k E) \<lparr>cs_shared = S', cs_tasks = tasks(k \<mapsto> T')\<rparr>"
    using step_request [of ?S k T X W E T' S' nc b] assms(2) by simp
  from conc_snoc [OF run(1) TrueI this] show ?thesis
    using run(2) by (auto simp: claims_snoc(2) fetch_sent_def refresh_at_def split: request_pc.splits refresh_pc.splits)
qed

lemma demo_rotated_credentials:
  assumes "ea_scheme e = SchemeHttp"
  shows "\<exists>c. credentials_of demo_rotated_ext vault_addr demo_write_context (demo_write_request\<lparr>ext_effective_address := Some e\<rparr>) = Inr c \<and>
    cr_addr c = vault_addr \<and> cr_ctx c = demo_write_context"
proof -
  have "build_effective_uri demo_rotated_ext r = build_effective_uri demo_write_ext r" for r :: "bytes request"
    by (simp add: build_effective_uri_def demo_rotated_ext_def)
  then show ?thesis
    by (simp add: credentials_of_def demo_write_extract extract_proof_ext demo_write_uri [OF assms])
qed

lemma demo_rotated_token:
  assumes "h vault_addr = Some demo_write_context" and "cr_addr c = vault_addr" and "cr_ctx c = demo_write_context"
  shows "token_step demo_rotated_ext clock h c T = T\<lparr>ct_pc := AtRefresh c demo_rotated_header Ps256 TokenSignatureInvalid RLoad\<rparr>"
proof -
  have "lookup_candidates (ctx_jwks demo_write_context) (Some ''new'') = []"
    by (simp add: demo_write_context_def demo_context_def lookup_candidates_def demo_jwks_def add_key_def Let_def jwks_empty_def demo_rsa_key_def)
  then have "token_attempt demo_rotated_ext h c demo_rotated_header alg = Inl TokenSignatureInvalid" for alg
    using assms by (simp add: token_attempt_def try_decode_with_current_jwks_def demo_rotated_header_def)
  moreover have "jwt_decode_header demo_rotated_ext t = Inr demo_rotated_header" for t by (simp add: demo_rotated_ext_def)
  ultimately show ?thesis by (simp add: token_step_def allowlist_alg_def demo_rotated_header_def)
qed

text \<open>The first steps of a refresh that wins its claim.\<close>

lemma demo_rotated_calls:
  assumes "h a = Some c" and "last_on_demand_refresh c = 0" and "on_demand_refresh_min_interval_secs (ctx_auth_config c) = 30"
  shows "refresh_call X (Some 100) http RLoad h a = Returns (Inl (RClaim 0 100), h)"
    and "\<exists>h1. refresh_call X (Some 100) http (RClaim 0 100) h a = Returns (Inl (RUri 100), h1) \<and>
      refresh_call X (Some 100) http (RUri 100) h1 a = Returns (Inl (RFetch 100 (jwks_uri (ctx_discovery c))), h1)"
  using assms by (simp_all add: refresh_call_def saturating_add_def claim_cas_def)

lemma quiet_step:
  assumes "\<exists>tr. conc_run X W nc b (\<lambda>_ _. True) S0 tr \<lparr>cs_shared = S, cs_tasks = tasks(k \<mapsto> T)\<rparr> \<and> slot_fetches a tr = F"
    and "request_step X W E T S = (T', S')" and "\<forall>c header alg f now uri. ct_pc T \<noteq> AtRefresh c header alg f (RFetch now uri)"
  shows "\<exists>tr. conc_run X W nc b (\<lambda>_ _. True) S0 tr \<lparr>cs_shared = S', cs_tasks = tasks(k \<mapsto> T')\<rparr> \<and> slot_fetches a tr = F"
  using own_step [OF assms(1,2)] assms(3) by (auto split: request_pc.splits refresh_pc.splits)

lemma demo_rotated_arrives:
  "\<exists>T c. (\<exists>tr. conc_run demo_rotated_ext demo_block_web (\<lambda>_ _. False) demo_write_boot (\<lambda>_ _. True) (conc_init demo_write_boot 0 demo_fs) tr
       \<lparr>cs_shared = cs_shared (conc_init demo_write_boot 0 demo_fs :: bytes conc_state), cs_tasks = Map.empty(0 \<mapsto> T)\<rparr> \<and> slot_fetches a tr = []) \<and>
     ct_pc T = AtToken c \<and> cr_addr c = vault_addr \<and> cr_ctx c = demo_write_context"
proof -
  let ?X = demo_rotated_ext and ?init = "conc_init demo_write_boot 0 demo_fs :: bytes conc_state"
  obtain e where e: "request_effective_address (\<lambda>_ _. False) (trusted_proxies (bd_config demo_write_boot)) demo_write_request = e"
      "ea_scheme e = SchemeHttp" using demo_write_effective by blast
  let ?r = "demo_write_request\<lparr>ext_effective_address := Some e\<rparr>"
  let ?T = "\<lparr>ct_route = route_of demo_block_web demo_write_boot ?r, ct_request = ?r, ct_pc = AtGuard, ct_gone = False, ct_accepted = None\<rparr>"
  obtain c where c: "credentials_of ?X vault_addr demo_write_context ?r = Inr c" "cr_addr c = vault_addr" "cr_ctx c = demo_write_context"
    using demo_rotated_credentials [OF e(2)] by blast
  have m: "req_method ?r \<in> set block_methods" by (simp add: demo_write_request_def demo_block_request_def block_methods_def)
  have "conc_step ?X demo_block_web (\<lambda>_ _. False) demo_write_boot ?init (EvArrive 0 demo_write_request)
      \<lparr>cs_shared = cs_shared ?init, cs_tasks = Map.empty(0 \<mapsto> ?T)\<rparr>"
    using step_arrive [where S = ?init and k = 0 and r = demo_write_request and r' = ?r and nc = "\<lambda>_ _. False" and b = demo_write_boot and
      X = ?X and W = demo_block_web] by (simp add: e(1) conc_init_def)
  from conc_snoc [OF conc_nil TrueI this]
  have arrived: "\<exists>tr. conc_run ?X demo_block_web (\<lambda>_ _. False) demo_write_boot (\<lambda>_ _. True) ?init tr
      \<lparr>cs_shared = cs_shared ?init, cs_tasks = Map.empty(0 \<mapsto> ?T)\<rparr> \<and> slot_fetches a tr = []"
    by (intro exI conjI) (assumption, simp add: slot_fetches_def fetch_sent_def refresh_at_def map_filter_simps)
  have guard: "request_step ?X demo_block_web demo_step_env ?T (cs_shared ?init) = (?T\<lparr>ct_pc := AtToken c\<rparr>, cs_shared ?init)"
    using c(1) m by (simp add: request_step_def guard_start_def demo_route)
  show ?thesis
    by (rule exI [of _ "?T\<lparr>ct_pc := AtToken c\<rparr>"], rule exI [of _ c], rule conjI, rule quiet_step [OF arrived guard]) (simp_all add: c)
qed

lemma demo_rotated_run:
  "\<exists>tr S. conc_run demo_rotated_ext demo_block_web (\<lambda>_ _. False) demo_write_boot (\<lambda>_ _. True) (conc_init demo_write_boot 0 demo_fs) tr S \<and>
     slot_fetches vault_addr tr = [(0, 100)]"
proof -
  let ?X = demo_rotated_ext and ?init = "conc_init demo_write_boot 0 demo_fs :: bytes conc_state" and ?E = demo_step_env
  let ?S = "cs_shared ?init" and ?h = "bd_contexts demo_write_boot"
  let ?run = "\<lambda>S T F. \<exists>tr. conc_run ?X demo_block_web (\<lambda>_ _. False) demo_write_boot (\<lambda>_ _. True) ?init tr
      \<lparr>cs_shared = S, cs_tasks = Map.empty(0 \<mapsto> T)\<rparr> \<and> slot_fetches vault_addr tr = F"
  let ?fetch = "RFetch 100 (jwks_uri (ctx_discovery demo_write_context))"
  obtain T c where start: "?run ?S T []" and T: "ct_pc T = AtToken c" and c: "cr_addr c = vault_addr" "cr_ctx c = demo_write_context"
    using demo_rotated_arrives by blast
  let ?U = "\<lambda>pc. T\<lparr>ct_pc := AtRefresh c demo_rotated_header Ps256 TokenSignatureInvalid pc\<rparr>"
  have h: "?h vault_addr = Some demo_write_context" "sh_contexts ?S = ?h" by (simp_all add: demo_boot_facts conc_init_def)
  have i: "last_on_demand_refresh demo_write_context = 0" "on_demand_refresh_min_interval_secs (ctx_auth_config demo_write_context) = 30"
    by (simp_all add: demo_write_context_def demo_context_def demo_wide_config_def auth_config_default_def)
  have E: "se_clock ?E = Some 100" "se_http ?E = demo_http 2" by (simp_all add: demo_step_env_def)
  obtain h1 where calls: "refresh_call ?X (Some 100) (demo_http 2) RLoad ?h vault_addr = Returns (Inl (RClaim 0 100), ?h)"
      "refresh_call ?X (Some 100) (demo_http 2) (RClaim 0 100) ?h vault_addr = Returns (Inl (RUri 100), h1)"
      "refresh_call ?X (Some 100) (demo_http 2) (RUri 100) h1 vault_addr = Returns (Inl ?fetch, h1)"
    using demo_rotated_calls [where h = ?h and a = vault_addr, OF h(1) i] by blast
  have same: "?S\<lparr>sh_contexts := ?h\<rparr> = ?S" using h(2) by (metis shared.surjective shared.update_convs(2))
  have call: "request_step ?X demo_block_web ?E (?U pc) S = (?U pc', S\<lparr>sh_contexts := h'\<rparr>)"
    if "refresh_call ?X (Some 100) (demo_http 2) pc (sh_contexts S) vault_addr = Returns (Inl pc', h')" for pc pc' S h'
    using that by (simp add: request_step_def on_demand_step_def E c(1))
  have "request_step ?X demo_block_web ?E T ?S = (?U RLoad, ?S)"
    using demo_rotated_token [where h = ?h, OF h(1) c] by (simp add: request_step_def T h(2))
  then have "?run ?S (?U RLoad) []" by (rule quiet_step [OF start]) (simp add: T)
  then have "?run (?S\<lparr>sh_contexts := ?h\<rparr>) (?U (RClaim 0 100)) []" by (rule quiet_step [OF _ call]) (simp_all add: calls h(2))
  then have "?run (?S\<lparr>sh_contexts := ?h, sh_contexts := h1\<rparr>) (?U (RUri 100)) []" by (rule quiet_step [OF _ call]) (simp_all add: calls)
  then have "?run (?S\<lparr>sh_contexts := ?h, sh_contexts := h1, sh_contexts := h1\<rparr>) (?U ?fetch) []"
    by (rule quiet_step [OF _ call]) (simp_all add: calls)
  from own_step [where E = ?E, OF this surjective_pairing] show ?thesis by (auto simp: c(1))
qed

text \<open>Witness: the request of the example claims the slot at time 100 and then asks the issuer.\<close>

theorem issuer_asked_once_per_interval_witness:
  "\<exists>tr S. conc_run demo_rotated_ext demo_block_web (\<lambda>_ _. False) demo_write_boot (\<lambda>_ _. True) (conc_init demo_write_boot 0 demo_fs) tr S \<and>
     slot_fetches vault_addr tr = [(0, 100)] \<and> (0, 100) \<in> set (slot_claims vault_addr tr)"
proof -
  obtain tr S where run: "conc_run demo_rotated_ext demo_block_web (\<lambda>_ _. False) demo_write_boot (\<lambda>_ _. True) (conc_init demo_write_boot 0 demo_fs) tr S"
    "slot_fetches vault_addr tr = [(0, 100)]" using demo_rotated_run by blast
  from issuer_asked_once_per_interval [OF run(1) demo_boot_facts(2)] run show ?thesis by auto
qed

end
