(* ===== verification/Concurrent_Runs.thy ===== *)
theory Concurrent_Runs
  imports Concurrent_Refresh
begin

section \<open>Sequential runs in the machine\<close>

text \<open>
  The started server is modelled twice: as runs of whole actions (\<open>System\<close>) and as the machine of atomic steps
  (\<open>Concurrent\<close>). Here every run of the first in which nothing interferes with an action is shown to be a run of the
  second, with the same answers and the same state at the end.
\<close>

text \<open>No other task interferes with the action, and the faults of a put are at calls that the put makes.\<close>

definition action_alone :: "'body web_ext \<Rightarrow> 'net booted \<Rightarrow> 'body action \<Rightarrow> bool" where
  "action_alone W b act = (case act of
      HandleRequest A E _ r \<Rightarrow> undisturbed (ae_refresh A) \<and>
        (\<forall>root i p. bd_storage b = Some root \<longrightarrow> request_block_id r = Some i \<longrightarrow>
           put_admits (web_to_bytes W) (block_size_bytes (bd_config b)) r = Some p \<longrightarrow> put_env_real E root i p)
    | RefreshKeys _ E \<Rightarrow> undisturbed E
    | RefreshDiscovery _ E \<Rightarrow> undisturbed E
    | CleanUp _ \<Rightarrow> True)"

definition action_time :: "'body action \<Rightarrow> instant option" where
  "action_time act = (case act of HandleRequest A _ _ _ \<Rightarrow> Some (ae_instant A) | CleanUp now \<Rightarrow> Some now | _ \<Rightarrow> None)"

definition run_times :: "('body action \<times> response option) list \<Rightarrow> instant list" where
  "run_times tr = List.map_filter (\<lambda>x. action_time (fst x)) tr"

lemma run_times_simps [simp]:
  "run_times [] = []"
  "run_times (tr @ [x]) = run_times tr @ (case action_time (fst x) of Some t \<Rightarrow> [t] | None \<Rightarrow> [])"
  by (simp_all add: run_times_def map_filter_def split: option.splits)

text \<open>
  The state of the machine after the actions of a run: nothing is half done, and request number \<open>n\<close> of the machine has the
  answer of the action number \<open>n\<close>.
\<close>

definition stands_for ::
    "instant \<Rightarrow> ('body action \<times> response option) list \<Rightarrow> 'body conc_state \<Rightarrow> fs server_state \<Rightarrow> bool" where
  "stands_for now tr S s \<longleftrightarrow> shared_state (cs_shared S) = s \<and> (\<forall>a. sh_jobs (cs_shared S) a = SIdle) \<and>
     sh_now (cs_shared S) = last (now # run_times tr) \<and> (\<forall>k. length tr \<le> k \<longrightarrow> cs_tasks S k = None) \<and>
     (\<forall>n resp. n < length tr \<longrightarrow> snd (tr ! n) = Some resp \<longrightarrow> (\<exists>T. cs_tasks S n = Some T \<and> ct_pc T = Answered resp))"

lemma stands_for_none:
  assumes "stands_for now tr S s" and "shared_state S1 = s1" and "\<forall>a. sh_jobs S1 a = SIdle"
    and "sh_now S1 = last (now # run_times (tr @ [(act, None)]))"
  shows "stands_for now (tr @ [(act, None)]) (S\<lparr>cs_shared := S1\<rparr>) s1"
  using assms by (auto simp: stands_for_def nth_append less_Suc_eq)

lemma stands_for_contexts:
  assumes "stands_for now tr S s" and "action_time act = None"
  shows "stands_for now (tr @ [(act, None)]) (S\<lparr>cs_shared := (cs_shared S)\<lparr>sh_contexts := h\<rparr>\<rparr>) (s\<lparr>ss_contexts := h\<rparr>)"
  by (rule stands_for_none [OF assms(1)]) (use assms in \<open>auto simp: stands_for_def shared_state_def\<close>)

subsection \<open>Each action\<close>

abbreviation conc_runs ::
    "'dk ext \<Rightarrow> 'body web_ext \<Rightarrow> ('net \<Rightarrow> ip_addr \<Rightarrow> bool) \<Rightarrow> 'net booted \<Rightarrow> 'body conc_state \<Rightarrow> 'body conc_state \<Rightarrow> bool" where
  "conc_runs X W nc b S0 S \<equiv> \<exists>tr. conc_run X W nc b (\<lambda>_ _. True) S0 tr S"

lemma runs_step: "conc_runs X W nc b S0 S \<Longrightarrow> conc_step X W nc b S ev S' \<Longrightarrow> conc_runs X W nc b S0 S'"
  using conc_snoc [of X W nc b "\<lambda>_ _. True"] by blast

lemma runs_time:
  "conc_runs X W nc b S0 S \<Longrightarrow> sh_now (cs_shared S) \<le> n \<Longrightarrow> conc_runs X W nc b S0 (S\<lparr>cs_shared := (cs_shared S)\<lparr>sh_now := n\<rparr>\<rparr>)"
  using runs_step [OF _ step_time] by blast

lemma runs_scheduled:
  assumes "(scheduled_next X http a)\<^sup>+\<^sup>+ (pc, h) (pc', h')"
    and "conc_runs X W nc b S0 \<lparr>cs_shared = S\<lparr>sh_contexts := h, sh_jobs := J(a := pc)\<rparr>, cs_tasks = tasks\<rparr>"
  shows "conc_runs X W nc b S0 \<lparr>cs_shared = S\<lparr>sh_contexts := h', sh_jobs := J(a := pc')\<rparr>, cs_tasks = tasks\<rparr>"
  using assms(1)
proof (induction rule: tranclp_induct2)
  case (base pc1 h1)
  then have "scheduled_call X http ((J(a := pc)) a) h a = (pc1, h1)" by (simp add: scheduled_next_def)
  from job_step [OF assms(2) this TrueI] show ?case by (simp only: fun_upd_upd)
next
  case (step pc1 h1 pc2 h2)
  then have "scheduled_call X http ((J(a := pc1)) a) h1 a = (pc2, h2)" by (simp add: scheduled_next_def)
  from job_step [OF step.IH this TrueI] show ?case by (simp only: fun_upd_upd)
qed

lemma runs_refresh_keys:
  assumes "do_scheduled_refresh X E (sh_contexts (cs_shared S)) a = Returns h'" and "undisturbed E"
    and "conc_runs X W nc b S0 S" and "\<forall>a. sh_jobs (cs_shared S) a = SIdle"
  shows "conc_runs X W nc b S0 (S\<lparr>cs_shared := (cs_shared S)\<lparr>sh_contexts := h'\<rparr>\<rparr>)"
proof -
  let ?S = "cs_shared S" and ?h = "sh_contexts (cs_shared S)"
  have idle: "S\<lparr>cs_shared := ?S\<lparr>sh_contexts := h\<rparr>\<rparr> =
      \<lparr>cs_shared = ?S\<lparr>sh_contexts := h, sh_jobs := (sh_jobs ?S)(a := SIdle)\<rparr>, cs_tasks = cs_tasks S\<rparr>" for h
    using assms(4) by (cases S; cases "cs_shared S") (auto simp: fun_eq_iff)
  have E: "E = alone_with (re_now E) (re_http E)" using assms(2) undisturbed_alone by blast
  show ?thesis
  proof (cases "?h a")
    case None
    then have "h' = ?h" using assms(1) by (simp add: do_scheduled_refresh_def fetch_and_install_def)
    then show ?thesis using assms(3) by simp
  next
    case (Some c)
    have start: "conc_runs X W nc b S0 (S\<lparr>cs_shared := ?S\<lparr>sh_contexts := ?h\<rparr>\<rparr>)" using assms(3) by simp
    have "(scheduled_next X (re_http E) a)\<^sup>+\<^sup>+ (SIdle, ?h) (SIdle, h')"
      by (rule scheduled_refresh_calls [where clock = "re_now E"]) (use assms(1) E Some in auto)
    from runs_scheduled [OF this start [unfolded idle]] show ?thesis unfolding idle .
  qed
qed

lemma runs_clean_up:
  assumes "conc_runs X W nc b S0 S" and "sh_now (cs_shared S) = now"
  shows "\<exists>R. conc_runs X W nc b S0 (S\<lparr>cs_shared := (cs_shared S)\<lparr>sh_replay := R\<rparr>\<rparr>) \<and>
    sys_store R = maintenance_tick (sys_store (sh_replay (cs_shared S))) now"
proof -
  let ?R = "sh_replay (cs_shared S)"
  obtain ks st where d: "tick_drain now (sys_store ?R) = (ks, st)" by fastforce
  show ?thesis
  proof (cases "ks = []")
    case True
    then have "store_step ?R (LDrain now) (?R\<lparr>sys_store := st\<rparr>)" using d drain_nothing by blast
    then have "conc_runs X W nc b S0 (S\<lparr>cs_shared := (cs_shared S)\<lparr>sh_replay := ?R\<lparr>sys_store := st\<rparr>\<rparr>\<rparr>)"
      using runs_step [OF assms(1) step_drain] assms(2) by blast
    then show ?thesis using d True by (intro exI [of _ "?R\<lparr>sys_store := st\<rparr>"]) (simp add: maintenance_tick_def)
  next
    case False
    let ?R1 = "?R\<lparr>sys_store := st, sys_removing := add_mset (now, ks) (sys_removing ?R)\<rparr>"
    let ?R2 = "?R1\<lparr>sys_store := tick_remove ks st, sys_removing := sys_removing ?R\<rparr>"
    have "store_step ?R (LDrain now) ?R1" using d False drain_queue by blast
    then have one: "conc_runs X W nc b S0 (S\<lparr>cs_shared := (cs_shared S)\<lparr>sh_replay := ?R1\<rparr>\<rparr>)"
      using runs_step [OF assms(1) step_drain] assms(2) by blast
    have "store_step ?R1 (LRemove now) ?R2" using remove_entries [of ?R1 now ks "sys_removing ?R"] by simp
    then have "conc_runs X W nc b S0 (S\<lparr>cs_shared := (cs_shared S)\<lparr>sh_replay := ?R2\<rparr>\<rparr>)"
      using runs_step [OF one step_remove, of now ?R2] by simp
    then show ?thesis using d False by (intro exI [of _ ?R2]) (simp add: maintenance_tick_def)
  qed
qed

lemma runs_handle_request:
  assumes act: "server_router X W nc b A E g r s = Returns (resp, log, s1)" "action_ok X (HandleRequest A E g r)"
      "action_alone W b (HandleRequest A E g r)" "server_ok X b s"
    and before: "conc_runs X W nc b S0 S" "stands_for now tr S s" and time: "sh_now (cs_shared S) \<le> ae_instant A"
  shows "\<exists>S'. conc_runs X W nc b S0 S' \<and> stands_for now (tr @ [(HandleRequest A E g r, Some resp)]) S' s1"
proof -
  have S: "shared_state (cs_shared S) = s" "\<forall>a. sh_jobs (cs_shared S) a = SIdle"
    using before(2) by (auto simp: stands_for_def)
  let ?S = "(cs_shared S)\<lparr>sh_now := ae_instant A\<rparr>"
  have timed: "\<exists>tr. conc_run X W nc b (\<lambda>_ _. True) S0 tr \<lparr>cs_shared = ?S, cs_tasks = cs_tasks S\<rparr>"
    using runs_time [OF before(1) time] by (cases S) simp
  then obtain tr0 where run0: "conc_run X W nc b (\<lambda>_ _. True) S0 tr0 \<lparr>cs_shared = ?S, cs_tasks = cs_tasks S\<rparr>" by blast
  have st: "shared_state ?S = s" "sh_now ?S = ae_instant A" using S(1) by (simp_all add: shared_state_def)
  have fresh: "cs_tasks S (length tr) = None" using before(2) by (simp add: stands_for_def)
  have env: "put_env_ok E" "undisturbed (ae_refresh A)" using act(2,3) by (simp_all add: action_ok_def action_alone_def)
  have root: "local_ok root (sh_fs ?S)" if "bd_storage b = Some root" for root
    using act(4) that S(1) by (auto simp: server_ok_def shared_state_def)
  have real: "put_env_real E root i p" if "bd_storage b = Some root" "request_block_id r = Some i"
      "put_admits (web_to_bytes W) (block_size_bytes (bd_config b)) r = Some p" for root i p
    using act(3) that by (simp add: action_alone_def)
  obtain tr' T S' where run: "conc_run X W nc b (\<lambda>_ _. True) S0 (tr0 @ tr') \<lparr>cs_shared = S', cs_tasks = (cs_tasks S)(length tr \<mapsto> T)\<rparr>"
      "ct_pc T = Answered resp" "shared_state S' = s1" "sh_now S' = ae_instant A" "sh_jobs S' = sh_jobs (cs_shared S)"
    using alone_run [OF act(1) [folded st(1)] refl fresh st(2) env root real TrueI TrueI run0] by auto
  have "stands_for now (tr @ [(HandleRequest A E g r, Some resp)]) \<lparr>cs_shared = S', cs_tasks = (cs_tasks S)(length tr \<mapsto> T)\<rparr> s1"
    using before(2) run(2-5) S(2) by (auto simp: stands_for_def nth_append less_Suc_eq action_time_def)
  then show ?thesis using run(1) by blast
qed

lemma runs_action:
  assumes act: "perform X W nc b act s = Returns (resp, s1)" "action_ok X act" "action_alone W b act" "server_ok X b s"
    and before: "conc_runs X W nc b S0 S" "stands_for now tr S s" and later: "sorted (now # run_times (tr @ [(act, resp)]))"
  shows "\<exists>S'. conc_runs X W nc b S0 S' \<and> stands_for now (tr @ [(act, resp)]) S' s1"
proof -
  have S: "shared_state (cs_shared S) = s" "\<forall>a. sh_jobs (cs_shared S) a = SIdle" "sh_now (cs_shared S) = last (now # run_times tr)"
    using before(2) by (auto simp: stands_for_def)
  have parts: "sh_contexts (cs_shared S) = ss_contexts s" "sys_store (sh_replay (cs_shared S)) = ss_replay s"
    using S(1) by (auto simp: shared_state_def)
  have time: "sh_now (cs_shared S) \<le> t" if "action_time act = Some t" for t
    using later that S(3) by (auto simp: sorted_append split: if_splits)
  show ?thesis
  proof (cases act)
    case (HandleRequest A E g r)
    then obtain log resp' where router: "server_router X W nc b A E g r s = Returns (resp', log, s1)" "resp = Some resp'"
      using act(1) by (auto simp: perform_def result_simps)
    then show ?thesis
      using runs_handle_request [OF router(1) act(2,3) [unfolded HandleRequest] act(4) before] time HandleRequest by (simp add: action_time_def)
  next
    case (RefreshKeys a E)
    then obtain h where h: "do_scheduled_refresh X E (sh_contexts (cs_shared S)) a = Returns h" "s1 = s\<lparr>ss_contexts := h\<rparr>" "resp = None"
      using act(1) parts(1) by (auto simp: perform_def result_simps)
    have "conc_runs X W nc b S0 (S\<lparr>cs_shared := (cs_shared S)\<lparr>sh_contexts := h\<rparr>\<rparr>)"
      using runs_refresh_keys [OF h(1) _ before(1) S(2)] act(3) RefreshKeys by (simp add: action_alone_def)
    then show ?thesis using stands_for_contexts [OF before(2), of act h] RefreshKeys h(2,3) by (auto simp: action_time_def)
  next
    case (RefreshDiscovery a E)
    then obtain h where h: "do_discovery_refresh X E (sh_contexts (cs_shared S)) a = Returns h" "s1 = s\<lparr>ss_contexts := h\<rparr>" "resp = None"
      using act(1) parts(1) by (auto simp: perform_def result_simps)
    have "E = alone_with (re_now E) (re_http E)" using act(3) RefreshDiscovery undisturbed_alone by (simp add: action_alone_def)
    then have "do_discovery_refresh X E (sh_contexts (cs_shared S)) a = do_discovery_refresh X (alone_with None (re_http E)) (sh_contexts (cs_shared S)) a"
      unfolding do_discovery_refresh_def by (metis alone_with_simps(2,4))
    then have "conc_runs X W nc b S0 (S\<lparr>cs_shared := (cs_shared S)\<lparr>sh_contexts := h\<rparr>\<rparr>)"
      using runs_step [OF before(1) step_discovery] h(1) by simp
    then show ?thesis using stands_for_contexts [OF before(2), of act h] RefreshDiscovery h(2,3) by (auto simp: action_time_def)
  next
    case (CleanUp t)
    then have h: "s1 = s\<lparr>ss_replay := maintenance_tick (ss_replay s) t\<rparr>" "resp = None" using act(1) by (auto simp: perform_def)
    let ?S = "S\<lparr>cs_shared := (cs_shared S)\<lparr>sh_now := t\<rparr>\<rparr>"
    have "conc_runs X W nc b S0 ?S" using runs_time [OF before(1) time] CleanUp by (simp add: action_time_def)
    from runs_clean_up [OF this, of t] obtain R where R: "conc_runs X W nc b S0 (S\<lparr>cs_shared := (cs_shared S)\<lparr>sh_now := t, sh_replay := R\<rparr>\<rparr>)"
        "sys_store R = maintenance_tick (ss_replay s) t"
      using parts(2) by auto
    have "stands_for now (tr @ [(act, resp)]) (S\<lparr>cs_shared := (cs_shared S)\<lparr>sh_now := t, sh_replay := R\<rparr>\<rparr>) s1"
      unfolding h(2) by (rule stands_for_none [OF before(2)]) (use S h(1) R(2) CleanUp in \<open>auto simp: shared_state_def action_time_def\<close>)
    then show ?thesis using R(1) by blast
  qed
qed

subsection \<open>Whole runs\<close>

text \<open>
  The two models of the started server agree. Every run of whole actions, requests and ticks of the background tasks in the order
  of their times and without interference, is a run of the machine of atomic steps: it ends in the same contexts, replay store
  and file system, and every request has the same answer.
\<close>

theorem sequential_runs_are_concurrent:
  assumes "server_run X W nc b (booted_state b s) tr s'" and "server_ok X b (booted_state b s)"
    and "to_bytes_documented (web_to_bytes W) body_data"
    and "\<forall>x \<in> set tr. action_alone W b (fst x)" and "sorted (now # run_times tr)"
  shows "\<exists>ctr S. conc_run X W nc b (\<lambda>_ _. True) (conc_init b now s) ctr S \<and> shared_state (cs_shared S) = s' \<and>
    (\<forall>n resp. n < length tr \<longrightarrow> snd (tr ! n) = Some resp \<longrightarrow> (\<exists>T. cs_tasks S n = Some T \<and> ct_pc T = Answered resp))"
proof -
  have "\<exists>S. conc_runs X W nc b (conc_init b now s) S \<and> stands_for now tr S s'"
    using assms(1,4,5)
  proof (induction tr arbitrary: s' rule: rev_induct)
    case Nil
    then have "s' = booted_state b s" by (simp add: server_run_nil_iff)
    then have "stands_for now [] (conc_init b now s) s'"
      by (simp add: stands_for_def conc_init_def shared_state_def booted_state_def)
    then show ?case using conc_nil by metis
  next
    case (snoc x tr)
    obtain act resp where x: "x = (act, resp)" by fastforce
    from snoc.prems(1) obtain s1 where run: "server_run X W nc b (booted_state b s) tr s1" and
      act: "action_ok X act" "perform X W nc b act s1 = Returns (resp, s')"
      by (auto simp: server_run_append x server_run_cons_iff server_run_nil_iff)
    have "sorted (now # run_times tr)" using snoc.prems(3) by (simp add: sorted_append)
    then obtain S where "conc_runs X W nc b (conc_init b now s) S" "stands_for now tr S s1"
      using snoc.IH [OF run] snoc.prems(2) by auto
    from runs_action [OF act(2,1) _ server_run_ok [OF run assms(2,3)] this] show ?case
      using snoc.prems(2,3) by (simp add: x)
  qed
  then show ?thesis by (auto simp: stands_for_def)
qed

text \<open>Witness: the write of the example.\<close>

theorem sequential_runs_are_concurrent_witness:
  "\<exists>ctr S T. conc_run demo_write_ext demo_block_web (\<lambda>_ _. False) demo_write_boot (\<lambda>_ _. True) (conc_init demo_write_boot 0 demo_fs) ctr S \<and>
     cs_tasks S 0 = Some T \<and> ct_pc T = Answered respond_block_204"
proof -
  obtain s1 where s1: "demo_perform (booted_state demo_write_boot demo_fs) = Returns (Some respond_block_204, s1)"
    using demo_write_first by blast
  have w: "to_bytes_documented (web_to_bytes demo_block_web) Some" using demo_to_bytes_documented by (simp add: demo_block_web_def)
  have act: "action_ok demo_write_ext demo_write"
    by (simp add: action_ok_def demo_write_def env_fine_def env_keeps_def demo_auth_env_def demo_refresh_env_def calm_put_ok)
  have run: "server_run demo_write_ext demo_block_web (\<lambda>_ _. False) demo_write_boot (booted_state demo_write_boot demo_fs)
      [(demo_write, Some respond_block_204)] s1"
    using server_run.run_step [OF act s1 server_run.run_nil] .
  have alone: "action_alone demo_block_web demo_write_boot demo_write"
    by (simp add: action_alone_def demo_write_def undisturbed_def demo_auth_env_def demo_refresh_env_def demo_put_env_real)
  have "sorted (0 # run_times [(demo_write, Some respond_block_204)])"
    by (simp add: run_times_def demo_write_def demo_auth_env_def action_time_def map_filter_simps)
  from sequential_runs_are_concurrent [OF run demo_write_ok w _ this] alone show ?thesis by fastforce
qed

end
