(* ===== verification/System_Service.thy ===== *)
theory System_Service
  imports System
begin

section \<open>What the server is for: good requests are served\<close>

text \<open>
  The other theories say what the server refuses and what it never does. This one says what it does: in any
  state that it can reach, a block request with good credentials and a fresh proof is served, whatever
  happened before, when the calls to the file system work.
\<close>

subsection \<open>Good credentials\<close>






subsection \<open>From the router to the handler\<close>









subsection \<open>The property\<close>




end
