(* ===== verification/Test_Support.thy ===== *)
theory Test_Support
  imports Guard
begin

section \<open>Minting of credentials and the mock issuer (auth/testing.rs)\<close>

text \<open>
  The repository's own client side: the helpers that mint access tokens and DPoP proofs, and the in-process
  issuer that serves discovery document and key set. JSON documents are built as the \<^verbatim>\<open>json!\<close> macros
  build them; keys, their encodings and the encoder of \<^verbatim>\<open>jsonwebtoken\<close> are parameters. An \<open>expect\<close> that
  fails is a panic. With the helpers as the client, the theory shows that the guard accepts what is minted with the right
  values and refuses each defective variant with its own category.
\<close>

subsection \<open>JSON documents\<close>

datatype json = JStr string | JNum u64 | JObj "(string \<times> json) list" | JArr "json list"

definition json_insert :: "string \<Rightarrow> json \<Rightarrow> json \<Rightarrow> json" where
  "json_insert k v j = (case j of JObj ms \<Rightarrow> JObj (AList.update k v ms) | _ \<Rightarrow> j)"

definition json_member :: "json \<Rightarrow> string \<Rightarrow> json option" where
  "json_member j k = (case j of JObj ms \<Rightarrow> map_of ms k | _ \<Rightarrow> None)"

definition json_str :: "json \<Rightarrow> string option" where
  "json_str j = (case j of JStr s \<Rightarrow> Some s | _ \<Rightarrow> None)"

definition json_num :: "json \<Rightarrow> u64 option" where
  "json_num j = (case j of JNum n \<Rightarrow> Some n | _ \<Rightarrow> None)"

lemma json_simps [simp]:
  "json_member (JObj ms) k = map_of ms k" "json_insert k v (JObj ms) = JObj (AList.update k v ms)"
  "json_str (JStr s) = Some s" "json_num (JNum n) = Some n"
  by (simp_all add: json_member_def json_insert_def json_str_def json_num_def)

subsection \<open>What other crates contribute\<close>

record ('sk, 'vk, 'ek) mint_ext =
  sk_verifying_key :: "'sk \<Rightarrow> 'vk"
  vk_x :: "'vk \<Rightarrow> bytes option"
  vk_y :: "'vk \<Rightarrow> bytes option"
  sk_to_pkcs8_pem :: "'sk \<Rightarrow> string + string"
  ek_from_ec_pem :: "string \<Rightarrow> string + 'ek"
  jose_header_new :: "jwt_algorithm \<Rightarrow> jose_header"
  jwt_encode :: "jose_header \<Rightarrow> json \<Rightarrow> 'ek \<Rightarrow> string + string"
  jwk_from_value :: "json \<Rightarrow> string + raw_jwk"
  json_to_vec :: "json \<Rightarrow> bytes"
  url_join :: "url \<Rightarrow> string \<Rightarrow> string + url"

definition expect :: "'e + 'a \<Rightarrow> 'a outcome" where
  "expect r = (case r of Inl _ \<Rightarrow> Panics | Inr x \<Rightarrow> Returns x)"

definition expect_some :: "'a option \<Rightarrow> 'a outcome" where
  "expect_some x = (case x of None \<Rightarrow> Panics | Some y \<Rightarrow> Returns y)"

lemma expect_simps [simp]:
  "expect (Inl e) = Panics" "expect (Inr x) = Returns x" "expect_some None = Panics" "expect_some (Some y) = Returns y"
  by (simp_all add: expect_def expect_some_def)

subsection \<open>Keys\<close>

definition es256_public_jwk :: "'a crypto_ext_scheme \<Rightarrow> ('sk, 'vk, 'ek) mint_ext \<Rightarrow> 'vk \<Rightarrow> string option \<Rightarrow> json outcome" where
  "es256_public_jwk X M verifying_key kid =
     bind_outcome (expect_some (vk_x M verifying_key)) (\<lambda>x.
     bind_outcome (expect_some (vk_y M verifying_key)) (\<lambda>y.
     let jwk = JObj [(''kty'', JStr ''EC''), (''crv'', JStr ''P-256''), (''alg'', JStr ''ES256''), (''use'', JStr ''sig''),
                     (''x'', JStr (b64_encode X x)), (''y'', JStr (b64_encode X y))] in
     Returns (case kid of Some k \<Rightarrow> json_insert ''kid'' (JStr k) jwk | None \<Rightarrow> jwk)))"

text \<open>\<^verbatim>\<open>copy_from_slice\<close> into an array of 32 bytes panics for any other length.\<close>

definition es256_thumbprint_b64url :: "'a crypto_ext_scheme \<Rightarrow> ('sk, 'vk, 'ek) mint_ext \<Rightarrow> 'vk \<Rightarrow> string outcome" where
  "es256_thumbprint_b64url X M verifying_key =
     bind_outcome (expect_some (vk_x M verifying_key)) (\<lambda>x.
     bind_outcome (expect_some (vk_y M verifying_key)) (\<lambda>y.
     if length x \<noteq> 32 \<or> length y \<noteq> 32 then Panics
     else Returns (jwk_thumbprint_b64url X (EcP256 x y))))"

definition compute_ath_for_test :: "'a crypto_ext_scheme \<Rightarrow> string \<Rightarrow> string" where
  "compute_ath_for_test X raw_token = (let digest = sha256 X (as_bytes raw_token) in b64_encode X digest)"

subsection \<open>Tokens and proofs\<close>

record mint_token_claims =
  mt_sub :: string
  mt_aud :: string
  mt_iss :: string
  mt_iat :: u64
  mt_exp :: u64
  mt_nbf :: "u64 option"
  mt_cnf_jkt :: string

definition token_header :: "('sk, 'vk, 'ek) mint_ext \<Rightarrow> string option \<Rightarrow> jose_header" where
  "token_header M kid = (let header = jose_header_new M ALG_ES256 in
     case kid of Some k \<Rightarrow> header\<lparr>hdr_kid := Some k\<rparr> | None \<Rightarrow> header)"

definition token_payload :: "mint_token_claims \<Rightarrow> bool \<Rightarrow> json" where
  "token_payload claims omit_cnf_jkt =
     (let j0 = JObj [(''sub'', JStr (mt_sub claims)), (''aud'', JStr (mt_aud claims)), (''iss'', JStr (mt_iss claims)),
                     (''iat'', JNum (mt_iat claims)), (''exp'', JNum (mt_exp claims))];
          j1 = (case mt_nbf claims of Some nbf \<Rightarrow> json_insert ''nbf'' (JNum nbf) j0 | None \<Rightarrow> j0)
      in if \<not> omit_cnf_jkt then json_insert ''cnf'' (JObj [(''jkt'', JStr (mt_cnf_jkt claims))]) j1 else j1)"

definition sign_and_encode :: "('sk, 'vk, 'ek) mint_ext \<Rightarrow> jose_header \<Rightarrow> json \<Rightarrow> 'sk \<Rightarrow> string outcome" where
  "sign_and_encode M header payload signing_key =
     bind_outcome (expect (sk_to_pkcs8_pem M signing_key)) (\<lambda>pem.
     bind_outcome (expect (ek_from_ec_pem M pem)) (\<lambda>key.
     expect (jwt_encode M header payload key)))"

definition mint_es256_token ::
    "('sk, 'vk, 'ek) mint_ext \<Rightarrow> mint_token_claims \<Rightarrow> 'sk \<Rightarrow> string option \<Rightarrow> bool \<Rightarrow> string outcome" where
  "mint_es256_token M claims signing_key kid omit_cnf_jkt =
     sign_and_encode M (token_header M kid) (token_payload claims omit_cnf_jkt) signing_key"

definition proof_header ::
    "'a crypto_ext_scheme \<Rightarrow> ('sk, 'vk, 'ek) mint_ext \<Rightarrow> 'sk \<Rightarrow> jose_header outcome" where
  "proof_header X M signing_key =
     bind_outcome (es256_public_jwk X M (sk_verifying_key M signing_key) None) (\<lambda>public_jwk_value.
     bind_outcome (expect (jwk_from_value M public_jwk_value)) (\<lambda>jwk.
     Returns ((jose_header_new M ALG_ES256)\<lparr>hdr_typ := Some ''dpop+jwt'', hdr_jwk := Some jwk\<rparr>)))"

definition proof_payload ::
    "'a crypto_ext_scheme \<Rightarrow> string \<Rightarrow> string \<Rightarrow> u64 \<Rightarrow> string \<Rightarrow> string option \<Rightarrow> json" where
  "proof_payload X htm htu iat jti ath_for =
     (let claims = JObj [(''htm'', JStr htm), (''htu'', JStr htu), (''iat'', JNum iat), (''jti'', JStr jti)] in
      case ath_for of
        Some raw_token \<Rightarrow> json_insert ''ath'' (JStr (compute_ath_for_test X raw_token)) claims
      | None \<Rightarrow> claims)"

definition mint_es256_dpop_proof ::
    "'a crypto_ext_scheme \<Rightarrow> ('sk, 'vk, 'ek) mint_ext \<Rightarrow> 'sk \<Rightarrow> string \<Rightarrow> string \<Rightarrow> u64 \<Rightarrow> string \<Rightarrow> string option \<Rightarrow>
     string outcome" where
  "mint_es256_dpop_proof X M signing_key htm htu iat jti ath_for =
     bind_outcome (proof_header X M signing_key) (\<lambda>header.
     sign_and_encode M header (proof_payload X htm htu iat jti ath_for) signing_key)"

definition now_unix_secs :: "u64 option \<Rightarrow> u64 outcome" where
  "now_unix_secs clock = expect_some clock"

subsection \<open>The mock issuer\<close>

record mock_state =
  ms_jwks :: json
  ms_discovery_fetches :: u64
  ms_jwks_fetches :: u64
  ms_jwks_v2_fetches :: u64
  ms_base_url :: url
  ms_discovery_jwks_uri :: string
  ms_jwks_status_override :: u16

text \<open>The provider with its background server: \<open>mo_serving\<close> until the task is aborted.\<close>

record mock_oidc_provider =
  mo_state :: mock_state
  mo_serving :: bool
  mo_port :: u16

definition mock_start :: "'dk ext \<Rightarrow> u16 \<Rightarrow> json \<Rightarrow> mock_oidc_provider outcome" where
  "mock_start X port jwks =
     bind_outcome (expect (url_parse X (''http://127.0.0.1:'' @ show_nat (unat port)))) (\<lambda>base_url.
     Returns \<lparr>mo_state = \<lparr>ms_jwks = jwks, ms_discovery_fetches = 0, ms_jwks_fetches = 0, ms_jwks_v2_fetches = 0,
                ms_base_url = base_url, ms_discovery_jwks_uri = ''/jwks.json'', ms_jwks_status_override = 0\<rparr>,
              mo_serving = True, mo_port = port\<rparr>)"

definition mock_issuer_url :: "mock_oidc_provider \<Rightarrow> url" where
  "mock_issuer_url P = ms_base_url (mo_state P)"

definition discovery_fetch_count :: "mock_oidc_provider \<Rightarrow> u64" where
  "discovery_fetch_count P = ms_discovery_fetches (mo_state P)"

definition jwks_fetch_count :: "mock_oidc_provider \<Rightarrow> u64" where
  "jwks_fetch_count P = ms_jwks_fetches (mo_state P)"

definition jwks_v2_fetch_count :: "mock_oidc_provider \<Rightarrow> u64" where
  "jwks_v2_fetch_count P = ms_jwks_v2_fetches (mo_state P)"

definition mock_shutdown :: "mock_oidc_provider \<Rightarrow> mock_oidc_provider" where
  "mock_shutdown P = P\<lparr>mo_serving := False\<rparr>"

definition set_jwks :: "json \<Rightarrow> mock_oidc_provider \<Rightarrow> mock_oidc_provider" where
  "set_jwks new_jwks P = P\<lparr>mo_state := (mo_state P)\<lparr>ms_jwks := new_jwks\<rparr>\<rparr>"

definition set_jwks_status_override :: "u16 \<Rightarrow> mock_oidc_provider \<Rightarrow> mock_oidc_provider" where
  "set_jwks_status_override status P = P\<lparr>mo_state := (mo_state P)\<lparr>ms_jwks_status_override := status\<rparr>\<rparr>"

definition set_discovery_jwks_uri :: "string \<Rightarrow> mock_oidc_provider \<Rightarrow> mock_oidc_provider" where
  "set_discovery_jwks_uri path P = P\<lparr>mo_state := (mo_state P)\<lparr>ms_discovery_jwks_uri := path\<rparr>\<rparr>"

text \<open>The handlers: status and body of the answer, and the counters.\<close>

definition serve_discovery :: "('sk, 'vk, 'ek) mint_ext \<Rightarrow> mock_state \<Rightarrow> (u16 \<times> bytes) outcome \<times> mock_state" where
  "serve_discovery M s =
     (let s' = s\<lparr>ms_discovery_fetches := ms_discovery_fetches s + 1\<rparr> in
      (bind_outcome (expect (url_join M (ms_base_url s') (ms_discovery_jwks_uri s'))) (\<lambda>jwks_uri.
       Returns (200, json_to_vec M (JObj
         [(''issuer'', JStr (url_as_str (ms_base_url s'))), (''jwks_uri'', JStr (url_as_str jwks_uri)),
          (''response_types_supported'', JArr [JStr ''code'']), (''subject_types_supported'', JArr [JStr ''public'']),
          (''id_token_signing_alg_values_supported'', JArr [JStr ''ES256'', JStr ''PS256''])]))), s'))"

definition serve_jwks :: "('sk, 'vk, 'ek) mint_ext \<Rightarrow> mock_state \<Rightarrow> (u16 \<times> bytes) outcome \<times> mock_state" where
  "serve_jwks M s =
     (let s' = s\<lparr>ms_jwks_fetches := ms_jwks_fetches s + 1\<rparr>; override_status = ms_jwks_status_override s' in
      (if override_status \<noteq> 0 then
         (let code = (if 100 \<le> override_status \<and> override_status \<le> 999 then override_status else 500) in
          Returns (code, as_bytes ''mock /jwks.json status override''))
       else Returns (200, json_to_vec M (ms_jwks s')), s'))"

definition serve_jwks_v2 :: "('sk, 'vk, 'ek) mint_ext \<Rightarrow> mock_state \<Rightarrow> (u16 \<times> bytes) outcome \<times> mock_state" where
  "serve_jwks_v2 M s =
     (let s' = s\<lparr>ms_jwks_v2_fetches := ms_jwks_v2_fetches s + 1\<rparr> in
      (Returns (200, json_to_vec M (ms_jwks s')), s'))"

text \<open>
  What a client's GET for a path gets, and the provider afterwards: a refused connection once the task is
  aborted, a broken one when the handler panics.
\<close>

definition mock_get :: "('sk, 'vk, 'ek) mint_ext \<Rightarrow> mock_oidc_provider \<Rightarrow> string \<Rightarrow> http_reply \<times> mock_oidc_provider" where
  "mock_get M P path =
     (if \<not> mo_serving P then (HttpError ''connection refused'', P)
      else (let (answer, s') =
                  (if path = ''/.well-known/openid-configuration'' then serve_discovery M (mo_state P)
                   else if path = ''/jwks.json'' then serve_jwks M (mo_state P)
                   else if path = ''/jwks-v2.json'' then serve_jwks_v2 M (mo_state P)
                   else (Returns (404, []), mo_state P)) in
            (case answer of
               Panics \<Rightarrow> HttpError ''connection closed''
             | Returns (status, body) \<Rightarrow> HttpResponse status (Inr body),
             P\<lparr>mo_state := s'\<rparr>)))"

text \<open>
  A test drives the provider by a sequence of operations: the server under test asks for a path, the test
  sets one of the three settings, or the provider is shut down. Each works on the state that the ones before it have left.
\<close>

datatype mock_op =
    MockGet string
  | SetJwks json
  | SetStatusOverride u16
  | SetDiscoveryUri string
  | MockShutdown

fun mock_op_step :: "('sk, 'vk, 'ek) mint_ext \<Rightarrow> mock_op \<Rightarrow> mock_oidc_provider \<Rightarrow> mock_oidc_provider" where
  "mock_op_step M (MockGet path) P = snd (mock_get M P path)"
| "mock_op_step M (SetJwks new_jwks) P = set_jwks new_jwks P"
| "mock_op_step M (SetStatusOverride status) P = set_jwks_status_override status P"
| "mock_op_step M (SetDiscoveryUri path) P = set_discovery_jwks_uri path P"
| "mock_op_step M MockShutdown P = mock_shutdown P"

definition mock_run :: "('sk, 'vk, 'ek) mint_ext \<Rightarrow> mock_op list \<Rightarrow> mock_oidc_provider \<Rightarrow> mock_oidc_provider" where
  "mock_run M ops P = fold (mock_op_step M) ops P"

text \<open>
  What the provider should be after a history, read off the history alone: each setting is the one last
  set, and a path's counter is the number of requests for it until the shutdown.
\<close>

definition jwks_at :: "json \<Rightarrow> mock_op list \<Rightarrow> json" where
  "jwks_at initial ops = last (initial # concat (map (\<lambda>x. case x of SetJwks j \<Rightarrow> [j] | _ \<Rightarrow> []) ops))"

definition status_at :: "mock_op list \<Rightarrow> u16" where
  "status_at ops = last (0 # concat (map (\<lambda>x. case x of SetStatusOverride st \<Rightarrow> [st] | _ \<Rightarrow> []) ops))"

definition uri_at :: "mock_op list \<Rightarrow> string" where
  "uri_at ops = last (''/jwks.json'' # concat (map (\<lambda>x. case x of SetDiscoveryUri u \<Rightarrow> [u] | _ \<Rightarrow> []) ops))"

definition requests_for :: "string \<Rightarrow> mock_op list \<Rightarrow> nat" where
  "requests_for path ops = count_list (takeWhile (\<lambda>x. x \<noteq> MockShutdown) ops) (MockGet path)"

lemma history_snoc:
  "jwks_at j (ops @ [x]) = (case x of SetJwks k \<Rightarrow> k | _ \<Rightarrow> jwks_at j ops)"
  "status_at (ops @ [x]) = (case x of SetStatusOverride st \<Rightarrow> st | _ \<Rightarrow> status_at ops)"
  "uri_at (ops @ [x]) = (case x of SetDiscoveryUri u \<Rightarrow> u | _ \<Rightarrow> uri_at ops)"
  by (simp_all add: jwks_at_def status_at_def uri_at_def split: mock_op.splits)

lemma count_before_snoc:
  assumes "g \<noteq> e"
  shows "count_list (takeWhile (\<lambda>y. y \<noteq> e) (xs @ [x])) g =
     (if e \<notin> set xs \<and> x = g then Suc (count_list (takeWhile (\<lambda>y. y \<noteq> e) xs) g)
      else count_list (takeWhile (\<lambda>y. y \<noteq> e) xs) g)"
proof (induction xs)
  case Nil
  show ?case using assms by (cases "x = e") simp_all
next
  case (Cons a xs)
  show ?case
  proof (cases "a = e")
    case False
    then have "e \<notin> set (a # xs) \<longleftrightarrow> e \<notin> set xs" by auto
    then show ?thesis using Cons.IH False by (simp only: append_Cons takeWhile.simps count_list.simps if_True not_False_eq_True) simp
  qed simp
qed

lemma requests_for_snoc:
  "requests_for path (ops @ [x]) =
     (if MockShutdown \<notin> set ops \<and> x = MockGet path then Suc (requests_for path ops) else requests_for path ops)"
  unfolding requests_for_def by (rule count_before_snoc) simp

lemma mock_run_history:
  assumes "mock_start X port jwks = Returns P"
  shows "mock_run M ops P = \<lparr>mo_state = \<lparr>ms_jwks = jwks_at jwks ops,
      ms_discovery_fetches = of_nat (requests_for ''/.well-known/openid-configuration'' ops),
      ms_jwks_fetches = of_nat (requests_for ''/jwks.json'' ops),
      ms_jwks_v2_fetches = of_nat (requests_for ''/jwks-v2.json'' ops),
      ms_base_url = mock_issuer_url P, ms_discovery_jwks_uri = uri_at ops, ms_jwks_status_override = status_at ops\<rparr>,
    mo_serving = (MockShutdown \<notin> set ops), mo_port = port\<rparr>"
proof (induction ops rule: rev_induct)
  case Nil
  show ?case
    using assms by (auto simp: mock_start_def mock_run_def mock_issuer_url_def jwks_at_def status_at_def uri_at_def
        requests_for_def result_simps)
next
  case (snoc x ops)
  have run: "mock_run M (ops @ [x]) P = mock_op_step M x (mock_run M ops P)" by (simp add: mock_run_def)
  show ?case
    unfolding run snoc.IH
    by (cases x) (auto simp: history_snoc requests_for_snoc mock_get_def serve_jwks_def serve_jwks_v2_def serve_discovery_def
        set_jwks_def set_jwks_status_override_def set_discovery_jwks_uri_def mock_shutdown_def Let_def)
qed

subsection \<open>Laws of the other crates\<close>

text \<open>The public key of a signing key, and its JWK as \<^verbatim>\<open>jsonwebtoken\<close> reads it.\<close>

definition es256_point :: "('sk, 'vk, 'ek) mint_ext \<Rightarrow> 'sk \<Rightarrow> bytes \<Rightarrow> bytes \<Rightarrow> bool" where
  "es256_point M sk x y \<longleftrightarrow> vk_x M (sk_verifying_key M sk) = Some x \<and> vk_y M (sk_verifying_key M sk) = Some y \<and>
     length x = 32 \<and> length y = 32"

definition ec_jwk :: "'a crypto_ext_scheme \<Rightarrow> bytes \<Rightarrow> bytes \<Rightarrow> string option \<Rightarrow> raw_jwk" where
  "ec_jwk X x y kid = \<lparr>raw_key_algorithm = Some KA_ES256, raw_key_id = kid,
     raw_algorithm = EllipticCurve P256 (b64_encode X x) (b64_encode X y)\<rparr>"

text \<open>
  \<^verbatim>\<open>serde\<close> reads the members of a JWK by name; \<^verbatim>\<open>Header::new\<close> sets the algorithm and no key identifier;
  \<^verbatim>\<open>Validation::new\<close> allows one algorithm; a P-256 JWK is usable as a decoding key.
\<close>

definition mint_laws :: "'dk ext \<Rightarrow> ('sk, 'vk, 'ek) mint_ext \<Rightarrow> bool" where
  "mint_laws X M \<longleftrightarrow> subtle_decides_eq X \<and> sha256_len32 X \<and> base64_roundtrip X \<and>
     (\<forall>vk kid v x y. es256_public_jwk X M vk kid = Returns v \<longrightarrow> vk_x M vk = Some x \<longrightarrow> vk_y M vk = Some y \<longrightarrow>
        jwk_from_value M v = Inr (ec_jwk X x y kid)) \<and>
     (\<forall>a. hdr_alg (jose_header_new M a) = a \<and> hdr_kid (jose_header_new M a) = None) \<and>
     (\<forall>a. v_algorithms (validation_new X a) = [a]) \<and>
     (\<forall>x y kid. length x = 32 \<longrightarrow> length y = 32 \<longrightarrow> (\<exists>dk. decoding_key_from_jwk X (ec_jwk X x y kid) = Inr dk))"

text \<open>The claim structs that are read from a JSON object whose members have the declared types.\<close>

definition token_claims_of :: "json \<Rightarrow> token_claims" where
  "token_claims_of j = \<lparr>tc_sub = Option.bind (json_member j ''sub'') json_str,
     tc_aud = map_option Single (Option.bind (json_member j ''aud'') json_str),
     tc_iss = Option.bind (json_member j ''iss'') json_str, tc_exp = Option.bind (json_member j ''exp'') json_num,
     tc_iat = Option.bind (json_member j ''iat'') json_num, tc_nbf = Option.bind (json_member j ''nbf'') json_num,
     tc_cnf = map_option (\<lambda>c. \<lparr>cnf_jkt_claim = Option.bind (json_member c ''jkt'') json_str\<rparr>) (json_member j ''cnf'')\<rparr>"

definition dpop_claims_of :: "json \<Rightarrow> dpop_claims" where
  "dpop_claims_of j = \<lparr>dc_htm = Option.bind (json_member j ''htm'') json_str, dc_htu = Option.bind (json_member j ''htu'') json_str,
     dc_iat = Option.bind (json_member j ''iat'') json_num, dc_jti = Option.bind (json_member j ''jti'') json_str,
     dc_ath = Option.bind (json_member j ''ath'') json_str\<rparr>"

definition claims_plain :: "validation \<Rightarrow> jwt_algorithm \<Rightarrow> bool" where
  "claims_plain v alg \<longleftrightarrow> v_algorithms v = [alg] \<and> \<not> v_validate_exp v \<and> \<not> v_validate_nbf v \<and> \<not> v_validate_aud v \<and>
     v_required_spec_claims v = []"

text \<open>
  What is encoded under a signing key decodes: the header as it was, and, without further claim checks, the claims of
  the payload under the public key of the signing key; no key gives other claims. A JWS is visible ASCII.
\<close>

definition jws_law :: "'dk ext \<Rightarrow> ('sk, 'vk, 'ek) mint_ext \<Rightarrow> 'sk \<Rightarrow> jose_header \<Rightarrow> json \<Rightarrow> bool" where
  "jws_law X M sk header payload \<longleftrightarrow> (\<forall>tok. sign_and_encode M header payload sk = Returns tok \<longrightarrow>
     jwt_decode_header X tok = Inr header \<and> tok \<noteq> [] \<and> trim tok = tok \<and>
     (\<forall>v dk. claims_plain v (hdr_alg header) \<longrightarrow>
        (\<forall>c. jwt_decode_token X tok dk v = Inr c \<longrightarrow> c = token_claims_of payload) \<and>
        (\<forall>x y kid. es256_point M sk x y \<longrightarrow> decoding_key_from_jwk X (ec_jwk X x y kid) = Inr dk \<longrightarrow>
           jwt_decode_token X tok dk v = Inr (token_claims_of payload) \<and>
           jwt_decode_proof X tok dk v = Inr (dpop_claims_of payload))))"

subsection \<open>What the validators make of minted credentials\<close>

lemma mint_laws_dest:
  assumes "mint_laws X M"
  shows "subtle_decides_eq X" "sha256_len32 X" "base64_roundtrip X" "b64_decode X (b64_encode X bs) = Inr bs"
    "hdr_alg (jose_header_new M al) = al" "hdr_kid (jose_header_new M al) = None"
  using assms by (auto simp: mint_laws_def base64_roundtrip_def)

lemma jws_lawD:
  assumes "jws_law X M sk header payload" and "sign_and_encode M header payload sk = Returns tok"
  shows "jwt_decode_header X tok = Inr header" "tok \<noteq> []" "trim tok = tok"
    and "claims_plain v (hdr_alg header) \<Longrightarrow> jwt_decode_token X tok dk v = Inr c \<Longrightarrow> c = token_claims_of payload"
    and "claims_plain v (hdr_alg header) \<Longrightarrow> es256_point M sk x y \<Longrightarrow> decoding_key_from_jwk X (ec_jwk X x y kid) = Inr dk \<Longrightarrow>
      jwt_decode_token X tok dk v = Inr (token_claims_of payload)"
    and "claims_plain v (hdr_alg header) \<Longrightarrow> es256_point M sk x y \<Longrightarrow> decoding_key_from_jwk X (ec_jwk X x y kid) = Inr dk \<Longrightarrow>
      jwt_decode_proof X tok dk v = Inr (dpop_claims_of payload)"
  using assms unfolding jws_law_def by blast+

lemma mint_validation:
  assumes "mint_laws X M"
  shows "claims_plain (token_validation X alg skew) (to_jwt_algorithm alg)" "claims_plain (proof_validation X alg) (to_jwt_algorithm alg)"
  using assms by (simp_all add: mint_laws_def claims_plain_def token_validation_def proof_validation_def)

lemma ec_key_usable:
  assumes "mint_laws X M" and "es256_point M sk x y"
  obtains dk where "decoding_key_from_jwk X (ec_jwk X x y kid) = Inr dk"
  using assms unfolding mint_laws_def es256_point_def by metis

lemma ec_thumbprint:
  assumes "mint_laws X M" and "length x = 32" and "length y = 32"
  shows "compute_jwk_thumbprint X (ec_jwk X x y kid) = Inr (jwk_thumbprint X (EcP256 x y))"
    and "compute_thumbprint X (ec_jwk X x y kid) = Returns (Inr (jwk_thumbprint X (EcP256 x y)))"
  using assms by (simp_all add: compute_jwk_thumbprint_def compute_thumbprint_def ec_jwk_def mint_laws_dest)

lemma token_header_sel:
  assumes "mint_laws X M"
  shows "hdr_alg (token_header M kid) = ALG_ES256" "hdr_kid (token_header M kid) = kid"
  using assms by (auto simp: token_header_def Let_def mint_laws_dest split: option.splits)

lemma try_candidates_only:
  assumes "\<And>dk c'. jwt_decode_token X raw dk v = Inr c' \<Longrightarrow> c' = claims"
    and "c \<in> set cands" and "decoding_key_from_jwk X (jwk_raw c) = Inr dk" and "jwt_decode_token X raw dk v = Inr claims"
  shows "try_candidates X raw v cands le = Inr claims"
proof -
  obtain td where td: "try_candidates X raw v cands le = Inr td" using try_candidates_complete [OF assms(2-4)] by blast
  then show ?thesis using try_candidates_Inr [OF td] assms(1) by auto
qed

text \<open>The token is decided by its claims, without a refresh, when the issuer's key is among the cached candidates.\<close>

lemma minted_token_decided:
  assumes laws: "mint_laws X M" and point: "es256_point M sk x y"
    and mint: "mint_es256_token M claims sk kid omit = Returns tok"
    and law: "jws_law X M sk (token_header M kid) (token_payload claims omit)"
    and key: "c \<in> set (lookup_candidates (current_keys h a ctx) kid)" "jwk_raw c = ec_jwk X x y kid'"
  shows "validate_token X E clock h a ctx tok =
    Returns (check_token_claims X clock ctx (token_claims_of (token_payload claims omit)), h)"
proof -
  let ?v = "token_validation X Es256 (clock_skew_secs (ctx_auth_config ctx))"
  note tok = jws_lawD [OF law mint [unfolded mint_es256_token_def]]
  have v: "claims_plain ?v (hdr_alg (token_header M kid))"
    using mint_validation(1) [OF laws, of Es256] token_header_sel(1) [OF laws] by (simp add: to_jwt_algorithm_def)
  obtain dk where dk: "decoding_key_from_jwk X (jwk_raw c) = Inr dk"
    unfolding key(2) by (rule ec_key_usable [OF laws point])
  have "try_decode_with_current_jwks X tok (token_header M kid) ?v (current_keys h a ctx) = Inr (token_claims_of (token_payload claims omit))"
    using try_candidates_only [OF tok(4) [OF v] key(1) dk tok(5) [OF v point dk [unfolded key(2)]]] key(1) token_header_sel(2) [OF laws]
    by (auto simp: try_decode_with_current_jwks_def Let_def)
  then show ?thesis
    using tok(1) token_header_sel(1) [OF laws, of kid]
    by (simp add: validate_token_def allowlist_alg_def Let_def current_keys_def)
qed

lemma compute_ath_for_test_eq: "compute_ath_for_test X raw_token = compute_ath X raw_token"
  by (simp add: compute_ath_for_test_def compute_ath_def)

lemma proof_header_minted:
  assumes "mint_laws X M" and "es256_point M sk x y"
  shows "proof_header X M sk = Returns ((jose_header_new M ALG_ES256)\<lparr>hdr_typ := Some ''dpop+jwt'', hdr_jwk := Some (ec_jwk X x y None)\<rparr>)"
proof -
  obtain v where v: "es256_public_jwk X M (sk_verifying_key M sk) None = Returns v"
    using assms(2) by (simp add: es256_public_jwk_def es256_point_def)
  then have "jwk_from_value M v = Inr (ec_jwk X x y None)"
    using assms unfolding mint_laws_def es256_point_def by blast
  with v show ?thesis by (simp add: proof_header_def)
qed

lemma dpop_claims_of_payload:
  "dpop_claims_of (proof_payload X htm htu iat jti ath_for) =
    \<lparr>dc_htm = Some htm, dc_htu = Some htu, dc_iat = Some iat, dc_jti = Some jti, dc_ath = map_option (compute_ath X) ath_for\<rparr>"
  by (simp add: dpop_claims_of_def proof_payload_def Let_def compute_ath_for_test_eq split: option.splits)

text \<open>The verdict on a proof, rule by rule in the order of the validator.\<close>

lemma minted_proof_decided:
  assumes laws: "mint_laws X M" and point: "es256_point M sk x y"
    and mint: "mint_es256_dpop_proof X M sk htm htu iat jti ath_for = Returns prf"
    and law: "\<And>header. proof_header X M sk = Returns header \<Longrightarrow> jws_law X M sk header (proof_payload X htm htu iat jti ath_for)"
    and htu: "url_parse X htu = Inr u" and len: "length (cnf_jkt at) = 32"
  shows "prf \<noteq> [] \<and> trim prf = prf \<and> check_proof X clock ctx prf m uri at tok =
    (if htm \<noteq> m then Inl ProofHtmMismatch
     else if \<not> url_match u uri then Inl ProofHtuMismatch
     else if \<not> iat_in_window (ctx_auth_config ctx) (unwrap_or clock 0) iat then Inl ProofIatStale
     else if jwk_thumbprint X (EcP256 x y) \<noteq> cnf_jkt at then Inl ProofJktMismatch
     else (case ath_for of
             None \<Rightarrow> Inl (ProofMissingClaim ''ath'')
           | Some t \<Rightarrow> if compute_ath X t \<noteq> compute_ath X tok then Inl ProofAthMismatch
                       else Inr \<lparr>dp_alg = Es256, dp_htm = htm, dp_htu = htu, dp_iat = iat, dp_jti = jti,
                              dp_thumbprint = jwk_thumbprint X (EcP256 x y), dp_ath = compute_ath X tok\<rparr>))"
proof -
  let ?h = "(jose_header_new M ALG_ES256)\<lparr>hdr_typ := Some ''dpop+jwt'', hdr_jwk := Some (ec_jwk X x y None)\<rparr>"
  note hd = proof_header_minted [OF laws point]
  have "sign_and_encode M ?h (proof_payload X htm htu iat jti ath_for) sk = Returns prf"
    using mint hd by (simp add: mint_es256_dpop_proof_def)
  note pf = jws_lawD [OF law [OF hd] this]
  have "claims_plain (proof_validation X Es256) (hdr_alg ?h)"
    using mint_validation(2) [OF laws, of Es256] mint_laws_dest(5) [OF laws] by (simp add: to_jwt_algorithm_def)
  moreover obtain dk where dk: "decoding_key_from_jwk X (ec_jwk X x y None) = Inr dk" by (rule ec_key_usable [OF laws point])
  ultimately have dec: "jwt_decode_proof X prf dk (proof_validation X Es256) = Inr (dpop_claims_of (proof_payload X htm htu iat jti ath_for))"
    using pf(6) point by blast
  have tp: "compute_jwk_thumbprint X (ec_jwk X x y None) = Inr (jwk_thumbprint X (EcP256 x y))"
    using ec_thumbprint(1) [OF laws] point by (simp add: es256_point_def)
  have eq: "ct_eq_32 X (jwk_thumbprint X (EcP256 x y)) (cnf_jkt at) \<longleftrightarrow> jwk_thumbprint X (EcP256 x y) = cnf_jkt at"
    using ct_eq_32_iff [OF mint_laws_dest(1) [OF laws]] length_jwk_thumbprint [OF mint_laws_dest(2) [OF laws]] len by blast
  have "check_proof X clock ctx prf m uri at tok =
    (if htm \<noteq> m then Inl ProofHtmMismatch
     else if \<not> url_match u uri then Inl ProofHtuMismatch
     else if \<not> iat_in_window (ctx_auth_config ctx) (unwrap_or clock 0) iat then Inl ProofIatStale
     else if jwk_thumbprint X (EcP256 x y) \<noteq> cnf_jkt at then Inl ProofJktMismatch
     else (case ath_for of
             None \<Rightarrow> Inl (ProofMissingClaim ''ath'')
           | Some t \<Rightarrow> if compute_ath X t \<noteq> compute_ath X tok then Inl ProofAthMismatch
                       else Inr \<lparr>dp_alg = Es256, dp_htm = htm, dp_htu = htu, dp_iat = iat, dp_jti = jti,
                              dp_thumbprint = jwk_thumbprint X (EcP256 x y), dp_ath = compute_ath X tok\<rparr>))"
    using htu dk dec
    by (simp add: check_proof_def pf(1) mint_laws_dest [OF laws] allowlist_alg_def dpop_claims_of_payload tp eq
        ct_eq_str_iff [OF mint_laws_dest(1) [OF laws]] urls_equivalent_ct_iff [OF mint_laws_dest(1) [OF laws]] Let_def
        split: option.splits)
  with pf(2,3) show ?thesis by blast
qed

definition minted_access_token :: "mint_token_claims \<Rightarrow> bytes \<Rightarrow> access_token" where
  "minted_access_token claims jkt = \<lparr>at_sub = mt_sub claims, at_aud = mt_aud claims, at_iss = mt_iss claims,
     at_exp = mt_exp claims, at_iat = mt_iat claims, at_nbf = mt_nbf claims, cnf_jkt = jkt\<rparr>"

lemma token_claims_of_payload:
  "token_claims_of (token_payload claims omit) =
    \<lparr>tc_sub = Some (mt_sub claims), tc_aud = Some (Single (mt_aud claims)), tc_iss = Some (mt_iss claims), tc_exp = Some (mt_exp claims),
     tc_iat = Some (mt_iat claims), tc_nbf = mt_nbf claims,
     tc_cnf = (if omit then None else Some \<lparr>cnf_jkt_claim = Some (mt_cnf_jkt claims)\<rparr>)\<rparr>"
  by (simp add: token_claims_of_def token_payload_def Let_def split: option.splits)

lemma minted_claims_decided:
  assumes "subtle_decides_eq X"
  shows "check_token_claims X clock ctx (token_claims_of (token_payload claims omit)) =
    (if omit then Inl (TokenMissingClaim ''cnf'')
     else if mt_iss claims \<noteq> trim_end_matches CHR ''/'' (url_as_str (issuer_url ctx)) then Inl TokenIssuerMismatch
     else if mt_aud claims \<noteq> audience ctx then Inl TokenAudienceMismatch
     else if saturating_add (mt_exp claims) (clock_skew_secs (ctx_auth_config ctx)) \<le> unwrap_or clock 0 then Inl TokenExpired
     else if (\<exists>nbf. mt_nbf claims = Some nbf \<and> saturating_add (unwrap_or clock 0) (clock_skew_secs (ctx_auth_config ctx)) < nbf)
     then Inl TokenNotYetValid
     else (case b64_decode X (mt_cnf_jkt claims) of
             Inl _ \<Rightarrow> Inl (TokenMissingClaim ''cnf.jkt'')
           | Inr jkt \<Rightarrow> if length jkt \<noteq> 32 then Inl (TokenMissingClaim ''cnf.jkt'')
                        else Inr (minted_access_token claims jkt)))"
  by (simp add: check_token_claims_def token_claims_of_payload Let_def ct_eq_str_iff [OF assms] minted_access_token_def
      map_err_def split: option.splits sum.splits)

text \<open>A request that presents the credentials.\<close>

definition presents :: "'body request \<Rightarrow> string \<Rightarrow> string \<Rightarrow> bool" where
  "presents r tok dpop \<longleftrightarrow> header_str r ''authorization'' = Some (''DPoP '' @ tok) \<and> header_str r ''dpop'' = Some dpop"

lemma presents_extract:
  assumes "presents r tok dpop" and "tok \<noteq> []" "trim tok = tok" "dpop \<noteq> []" "trim dpop = dpop"
  shows "extract_token r = Inr tok" "extract_proof r = Inr dpop"
proof -
  have "split_once CHR '' '' (''DPoP '' @ tok) = Some (''DPoP'', tok)" by (simp add: split_once_Some_iff)
  then show "extract_token r = Inr tok"
    using assms by (simp add: extract_token_def presents_def eq_ignore_ascii_case_def)
  show "extract_proof r = Inr dpop" using assms by (simp add: extract_proof_def presents_def)
qed

text \<open>
  The verdict that a test expects of a minted pair: a token for the key with thumbprint \<open>bound\<close>, and a proof by the key
  with thumbprint \<open>signer\<close> made for the token \<open>ath_for\<close>, or for none.
\<close>

definition minted_verdict ::
    "'dk ext \<Rightarrow> oidc_context \<Rightarrow> auth_env \<Rightarrow> mint_token_claims \<Rightarrow> bool \<Rightarrow> bytes \<Rightarrow> bytes \<Rightarrow> string \<Rightarrow> string \<Rightarrow> bool \<Rightarrow> u64 \<Rightarrow>
     string option \<Rightarrow> string \<Rightarrow> auth_failure option" where
  "minted_verdict X ctx A claims omit_cnf_jkt bound signer htm request_method same_uri iat ath_for tok =
     (let skew = clock_skew_secs (ctx_auth_config ctx); now = unwrap_or (ae_token_clock A) 0 in
      if omit_cnf_jkt then Some (TokenMissingClaim ''cnf'')
      else if mt_iss claims \<noteq> trim_end_matches CHR ''/'' (url_as_str (issuer_url ctx)) then Some TokenIssuerMismatch
      else if mt_aud claims \<noteq> audience ctx then Some TokenAudienceMismatch
      else if saturating_add (mt_exp claims) skew \<le> now then Some TokenExpired
      else if (\<exists>nbf. mt_nbf claims = Some nbf \<and> saturating_add now skew < nbf) then Some TokenNotYetValid
      else if htm \<noteq> request_method then Some ProofHtmMismatch
      else if \<not> same_uri then Some ProofHtuMismatch
      else if \<not> iat_in_window (ctx_auth_config ctx) (unwrap_or (ae_proof_clock A) 0) iat then Some ProofIatStale
      else if signer \<noteq> bound then Some ProofJktMismatch
      else (case ath_for of
              None \<Rightarrow> Some (ProofMissingClaim ''ath'')
            | Some t \<Rightarrow> if compute_ath X t \<noteq> compute_ath X tok then Some ProofAthMismatch else None))"

lemma es256_thumbprint_decodes:
  assumes "mint_laws X M" and "es256_point M sk x y" and "es256_thumbprint_b64url X M (sk_verifying_key M sk) = Returns b64"
  shows "b64_decode X b64 = Inr (jwk_thumbprint X (EcP256 x y))" "length (jwk_thumbprint X (EcP256 x y)) = 32"
  using assms by (auto simp: es256_thumbprint_b64url_def es256_point_def jwk_thumbprint_b64url_def mint_laws_dest length_jwk_thumbprint)

subsection \<open>Properties\<close>

text \<open>
  C13. Minted credentials get the verdict that they were minted for. For a token signed by a key that the context has
  cached and a DPoP proof, both made by the helpers with any claims, times, keys, method, URI and hash, the
  guard's authentication returns the failure category of the first rule that is violated, in the order of the
  validators, with contexts and replay store unchanged; and when none is violated it accepts, returns the minted subject
  and has recorded the proof's identifier, provided that the replay store takes it. No refresh of the keys happens.
\<close>

theorem minted_request_decided:
  assumes laws: "mint_laws X M"
    and token: "mint_es256_token M claims isk kid omit_cnf = Returns tok" "jws_law X M isk (token_header M kid) (token_payload claims omit_cnf)"
    and cached: "es256_point M isk ix iy" "c \<in> set (lookup_candidates (current_keys h a ctx) kid)" "jwk_raw c = ec_jwk X ix iy kid'"
    and bound: "es256_point M bsk bx by'" "es256_thumbprint_b64url X M (sk_verifying_key M bsk) = Returns (mt_cnf_jkt claims)"
    and dpop: "es256_point M csk x y" "mint_es256_dpop_proof X M csk htm htu iat jti ath_for = Returns dpop"
      "\<forall>header. proof_header X M csk = Returns header \<longrightarrow> jws_law X M csk header (proof_payload X htm htu iat jti ath_for)"
    and request: "presents r tok dpop" "url_parse X htu = Inr u" "build_effective_uri X r = Inr uri"
    and verdict: "verdict = minted_verdict X ctx A claims omit_cnf (jwk_thumbprint X (EcP256 bx by')) (jwk_thumbprint X (EcP256 x y))
      htm (req_method r) (url_match u uri) iat ath_for tok"
  shows "(\<forall>f. verdict = Some f \<longrightarrow> authenticate_common X A a ctx r h st = Returns (Inl f, h, st)) \<and>
    (\<forall>deadline st'. verdict = None \<longrightarrow> instant_checked_add (ae_instant A) (jti_replay_window_secs (ctx_auth_config ctx)) = Some deadline \<longrightarrow>
       try_insert st (jti_key_new X (as_jti_key_byte (ctx_tag ctx)) jti) deadline = (Inr (), st') \<longrightarrow>
       authenticate_common X A a ctx r h st = Returns (Inr (mt_sub claims), h, st'))"
proof -
  let ?jkt = "jwk_thumbprint X (EcP256 bx by')" and ?at = "minted_access_token claims (jwk_thumbprint X (EcP256 bx by'))"
  note jkt = es256_thumbprint_decodes [OF laws bound]
  have tok: "tok \<noteq> []" "trim tok = tok" using jws_lawD(2,3) [OF token(2) token(1) [unfolded mint_es256_token_def]] by blast+
  have at: "cnf_jkt ?at = ?jkt" "at_sub ?at = mt_sub claims" by (simp_all add: minted_access_token_def)
  note prove = minted_proof_decided [OF laws dpop(1,2) dpop(3) [rule_format] request(2),
      where at = ?at and clock = "ae_proof_clock A" and ctx = ctx and m = "req_method r" and uri = uri and tok = tok]
  have pf: "dpop \<noteq> []" "trim dpop = dpop" using prove jkt(2) at(1) by simp_all
  have claims: "validate_token X (ae_refresh A) (ae_token_clock A) h a ctx tok =
      Returns (check_token_claims X (ae_token_clock A) ctx (token_claims_of (token_payload claims omit_cnf)), h)"
    by (rule minted_token_decided [OF laws cached(1) token cached(2,3)])
  have auth: "authenticate_common X A a ctx r h st =
      (case check_token_claims X (ae_token_clock A) ctx (token_claims_of (token_payload claims omit_cnf)) of
         Inl e \<Rightarrow> Returns (Inl e, h, st)
       | Inr at \<Rightarrow> (let (res', st') = validate_proof X (ae_proof_clock A) (ae_instant A) ctx st dpop (req_method r) uri at tok in
                    Returns (map_sum id (\<lambda>_. at_sub at) res', h, st')))"
    using presents_extract [OF request(1) tok pf] request(3) claims by (simp add: authenticate_common_def split: sum.splits)
  show ?thesis
  proof (cases "check_token_claims X (ae_token_clock A) ctx (token_claims_of (token_payload claims omit_cnf))")
    case (Inl e)
    then have "verdict = Some e"
      unfolding verdict minted_verdict_def minted_claims_decided [OF mint_laws_dest(1) [OF laws]] jkt(1) Let_def
      using jkt(2) by (simp split: if_splits)
    with Inl auth show ?thesis by simp
  next
    case (Inr at)
    then have v: "at = ?at" "verdict = (case check_proof X (ae_proof_clock A) ctx dpop (req_method r) uri ?at tok of Inl e \<Rightarrow> Some e | Inr _ \<Rightarrow> None)"
      unfolding verdict minted_verdict_def minted_claims_decided [OF mint_laws_dest(1) [OF laws]] jkt(1) Let_def
      using jkt(2) prove at(1) by (auto split: if_splits option.splits)
    have "dp_jti p = jti" if "check_proof X (ae_proof_clock A) ctx dpop (req_method r) uri ?at tok = Inr p" for p
      using that prove jkt(2) at(1) by (auto split: if_splits option.splits)
    then show ?thesis
      unfolding auth Inr v
      by (auto simp: validate_proof_def Let_def at(2) split: sum.splits)
  qed
qed

text \<open>An instance: the issuer's key is \<open>False\<close>, the client's is \<open>True\<close>.\<close>

definition demo_mint :: "(bool, bool, bool) mint_ext" where
  "demo_mint = \<lparr>sk_verifying_key = id, vk_x = (\<lambda>k. Some (replicate 32 (if k then 1 else 2))), vk_y = (\<lambda>_. Some (replicate 32 3)),
     sk_to_pkcs8_pem = (\<lambda>k. Inr (if k then ''c'' else ''i'')), ek_from_ec_pem = (\<lambda>s. Inr (s = ''c'')),
     jose_header_new = (\<lambda>a. \<lparr>hdr_typ = Some ''JWT'', hdr_alg = a, hdr_kid = None, hdr_jwk = None\<rparr>),
     jwt_encode = (\<lambda>_ _ k. Inr (if k then ''prf'' else ''tok'')),
     jwk_from_value = (\<lambda>v. case (Option.bind (json_member v ''x'') json_str, Option.bind (json_member v ''y'') json_str) of
        (Some x, Some y) \<Rightarrow> Inr \<lparr>raw_key_algorithm = Some KA_ES256, raw_key_id = Option.bind (json_member v ''kid'') json_str,
                                 raw_algorithm = EllipticCurve P256 x y\<rparr>
      | _ \<Rightarrow> Inl ''missing field''),
     json_to_vec = (\<lambda>_. [1]), url_join = (\<lambda>u s. Inr u)\<rparr>"

abbreviation demo_client_point :: "bytes \<times> bytes" where
  "demo_client_point \<equiv> (replicate 32 1, replicate 32 3)"

definition demo_mint_claims :: mint_token_claims where
  "demo_mint_claims = \<lparr>mt_sub = ''u'', mt_aud = ''vault'', mt_iss = ''i'', mt_iat = 5, mt_exp = 1000, mt_nbf = Some 10,
     mt_cnf_jkt = jwk_thumbprint_b64url demo_crypto (EcP256 (replicate 32 1) (replicate 32 3))\<rparr>"

definition demo_mint_header :: jose_header where
  "demo_mint_header = \<lparr>hdr_typ = Some ''dpop+jwt'', hdr_alg = ALG_ES256, hdr_kid = None,
     hdr_jwk = Some (ec_jwk demo_crypto (replicate 32 1) (replicate 32 3) None)\<rparr>"

definition demo_mint_payload :: "bool \<Rightarrow> string \<Rightarrow> json" where
  "demo_mint_payload omit s = (if s = ''prf'' then proof_payload demo_crypto ''GET'' ''http://h/x'' 100 ''j'' (Some ''tok'')
     else token_payload demo_mint_claims omit)"

definition demo_mint_crates :: "bool \<Rightarrow> unit ext" where
  "demo_mint_crates omit = demo_ext
     \<lparr>jwt_decode_header := (\<lambda>s. Inr (if s = ''prf'' then demo_mint_header else token_header demo_mint (Some ''k''))),
      jwt_decode_token := (\<lambda>s _ _. Inr (token_claims_of (demo_mint_payload omit s))),
      jwt_decode_proof := (\<lambda>s _ _. Inr (dpop_claims_of (demo_mint_payload omit s))),
      json_jwk_set := (\<lambda>_. Inr [ec_jwk demo_crypto (replicate 32 2) (replicate 32 3) (Some ''k'')])\<rparr>"

lemma demo_mint_crates_sel [simp]:
  "crypto_ext.truncate (demo_mint_crates omit) = demo_crypto"
  "url_parse (demo_mint_crates omit) = (\<lambda>s. Inr (demo_url s))" "decoding_key_from_jwk (demo_mint_crates omit) = (\<lambda>_. Inr ())"
  "b64_encode (demo_mint_crates omit) = hex_encode" "b64_decode (demo_mint_crates omit) = hex_decode" "sha256 (demo_mint_crates omit) = pad32"
  by (simp_all add: demo_mint_crates_def demo_ext_def crypto_ext.defs demo_crypto_def)

lemma demo_mint_crypto:
  "jwk_thumbprint (demo_mint_crates omit) = jwk_thumbprint demo_crypto"
  "ec_jwk (demo_mint_crates omit) = ec_jwk demo_crypto" "proof_payload (demo_mint_crates omit) = proof_payload demo_crypto"
proof -
  have "compute_ath_for_test (demo_mint_crates omit) = compute_ath_for_test demo_crypto"
    by (simp add: fun_eq_iff compute_ath_for_test_def) (simp add: demo_crypto_def)
  then show "proof_payload (demo_mint_crates omit) = proof_payload demo_crypto" by (intro ext) (simp add: proof_payload_def Let_def split: option.split)
  show "ec_jwk (demo_mint_crates omit) = ec_jwk demo_crypto" by (simp add: fun_eq_iff ec_jwk_def) (simp add: demo_crypto_def)
  show "jwk_thumbprint (demo_mint_crates omit) = jwk_thumbprint demo_crypto"
    using jwk_thumbprint_truncate [of "demo_mint_crates omit"] by simp
qed

lemma demo_point_iff:
  "es256_point demo_mint k x y \<longleftrightarrow> x = replicate 32 (if k then 1 else 2) \<and> y = replicate 32 3"
  by (auto simp: es256_point_def demo_mint_def)

lemma demo_mint_laws: "mint_laws (demo_mint_crates omit) demo_mint"
proof -
  have "jwk_from_value demo_mint v = Inr (ec_jwk (demo_mint_crates omit) x y kid)"
    if "es256_public_jwk (demo_mint_crates omit) demo_mint vk kid = Returns v" "vk_x demo_mint vk = Some x" "vk_y demo_mint vk = Some y" for vk kid v x y
    using that by (cases kid) (auto simp: es256_public_jwk_def ec_jwk_def demo_mint_def Let_def)
  then show ?thesis
    by (simp add: mint_laws_def subtle_decides_eq_def sha256_len32_def base64_roundtrip_def hex_decode_encode pad32_def min_def)
      (simp add: demo_mint_def demo_mint_crates_def demo_ext_def crypto_ext.defs demo_crypto_def)
qed

lemma demo_proof_header: "proof_header (demo_mint_crates omit) demo_mint True = Returns demo_mint_header"
proof -
  have "es256_point demo_mint True (replicate 32 1) (replicate 32 3)" by (simp add: demo_point_iff)
  from proof_header_minted [OF demo_mint_laws this] show ?thesis
    by (simp add: demo_mint_header_def demo_mint_crypto) (simp add: demo_mint_def)
qed

lemma demo_jws_laws:
  "jws_law (demo_mint_crates omit) demo_mint False (token_header demo_mint (Some ''k'')) (token_payload demo_mint_claims omit)"
  "jws_law (demo_mint_crates omit) demo_mint True demo_mint_header (proof_payload demo_crypto ''GET'' ''http://h/x'' 100 ''j'' (Some ''tok''))"
proof -
  have t: "trim ''tok'' = ''tok''" "trim ''prf'' = ''prf''" by (rule trim_visible, simp)+
  have s: "sign_and_encode demo_mint hd pl k = Returns (if k then ''prf'' else ''tok'')" for hd pl k
    by (simp add: sign_and_encode_def demo_mint_def)
  show "jws_law (demo_mint_crates omit) demo_mint False (token_header demo_mint (Some ''k'')) (token_payload demo_mint_claims omit)"
    "jws_law (demo_mint_crates omit) demo_mint True demo_mint_header (proof_payload demo_crypto ''GET'' ''http://h/x'' 100 ''j'' (Some ''tok''))"
    by (simp_all add: jws_law_def s t) (simp_all add: demo_mint_crates_def demo_mint_payload_def)
qed

definition demo_mint_context :: oidc_context where
  "demo_mint_context = demo_context Vault admin_addr
     (add_key (ec_jwk demo_crypto (replicate 32 2) (replicate 32 3) (Some ''k'')) Es256 [] jwks_empty)"

lemma demo_minted:
  assumes "v = minted_verdict (demo_mint_crates omit) demo_mint_context demo_auth_env demo_mint_claims omit
      (jwk_thumbprint demo_crypto (EcP256 (replicate 32 1) (replicate 32 3))) (jwk_thumbprint demo_crypto (EcP256 (replicate 32 1) (replicate 32 3)))
      ''GET'' ''GET'' True 100 (Some ''tok'') ''tok''"
  shows "v = (if omit then Some (TokenMissingClaim ''cnf'') else None)"
proof -
  have "iat_in_window auth_config_default 100 100" by (simp add: iat_in_window_def auth_config_default_def saturating_sub_def)
  then show ?thesis
    unfolding assms by (simp add: minted_verdict_def demo_mint_context_def demo_context_def demo_mint_claims_def demo_url_def trim_end_matches_def
        audience_name_def demo_auth_env_def auth_config_default_def saturating_add_def)
qed

text \<open>Witness: a token and a proof that fit are accepted; the same token without its confirmation claim is not.\<close>

theorem minted_request_decided_witness:
  "(\<exists>st'. authenticate_common (demo_mint_crates False) demo_auth_env vault_addr demo_mint_context (demo_request ''GET'' ''/x'') Map.empty
       (replay_store_new auth_config_default) = Returns (Inr ''u'', Map.empty, st')) \<and>
   authenticate_common (demo_mint_crates True) demo_auth_env vault_addr demo_mint_context (demo_request ''GET'' ''/x'') Map.empty
     (replay_store_new auth_config_default) = Returns (Inl (TokenMissingClaim ''cnf''), Map.empty, replay_store_new auth_config_default)"
proof -
  let ?r = "demo_request ''GET'' ''/x''" and ?p = "replicate 32 1 :: bytes" and ?q = "replicate 32 3 :: bytes"
  let ?st = "replay_store_new auth_config_default" and ?uri = "demo_url ''http://h/x''"
  let ?c = "\<lparr>jwk_kid = Some ''k'', jwk_alg = Es256, jwk_thumbprint_field = [], jwk_raw = ec_jwk demo_crypto (replicate 32 2) ?q (Some ''k'')\<rparr>"
  have mint: "mint_es256_token demo_mint demo_mint_claims False (Some ''k'') omit = Returns ''tok''"
    "mint_es256_dpop_proof (demo_mint_crates omit) demo_mint True ''GET'' ''http://h/x'' 100 ''j'' (Some ''tok'') = Returns ''prf''" for omit
    by (simp_all add: mint_es256_token_def mint_es256_dpop_proof_def demo_proof_header) (simp_all add: sign_and_encode_def demo_mint_def)
  have point: "es256_point demo_mint False (replicate 32 2) ?q" "es256_point demo_mint True ?p ?q" by (simp_all add: demo_point_iff)
  have key: "?c \<in> set (lookup_candidates (current_keys Map.empty vault_addr demo_mint_context) (Some ''k''))"
    by (simp add: current_keys_def demo_mint_context_def demo_context_def lookup_candidates_def add_key_def Let_def jwks_empty_def ec_jwk_def)
  have sub: "mt_sub demo_mint_claims = ''u''" by (simp add: demo_mint_claims_def)
  have crypto: "b64_encode demo_crypto = hex_encode" by (simp add: demo_crypto_def)
  have bound: "es256_thumbprint_b64url (demo_mint_crates omit) demo_mint (sk_verifying_key demo_mint True) = Returns (mt_cnf_jkt demo_mint_claims)" for omit
    by (simp add: es256_thumbprint_b64url_def demo_mint_claims_def jwk_thumbprint_b64url_def demo_mint_crypto crypto demo_mint_def)
  have req: "presents ?r ''tok'' ''prf''" "build_effective_uri (demo_mint_crates omit) ?r = Inr ?uri" "req_method ?r = ''GET''" "url_match ?uri ?uri" for omit
    by (simp_all add: presents_def demo_request_def header_str_def build_effective_uri_def url_match_def demo_url_def Let_def)
  note decided = minted_request_decided [OF demo_mint_laws mint(1) demo_jws_laws(1) point(1) key _ point(2) bound point(2) mint(2) _ req(1) _ req(2) refl,
      where A = demo_auth_env and st = ?st and kid' = "Some ''k''" and u = ?uri]
  have "instant_checked_add (ae_instant demo_auth_env) (jti_replay_window_secs (ctx_auth_config demo_mint_context)) = Some (90 * nanos_per_sec)"
    by (simp add: instant_checked_add_def demo_auth_env_def demo_mint_context_def demo_context_def auth_config_default_def nanos_per_sec_def)
  moreover obtain st' where "try_insert ?st (jti_key_new (demo_mint_crates False) (as_jti_key_byte (ctx_tag demo_mint_context)) ''j'')
      (90 * nanos_per_sec) = (Inr (), st')"
    by (simp add: try_insert_def try_insert_entries_def replay_store_new_def auth_config_default_def)
  ultimately show ?thesis
    using decided [of False] decided [of True] demo_jws_laws(2)
    by (auto simp: demo_mint_crypto demo_proof_header req demo_minted [OF refl] sub)
qed

text \<open>The mock issuer: what a client that asks for a path learns of the provider.\<close>

definition mock_http :: "('sk, 'vk, 'ek) mint_ext \<Rightarrow> mock_oidc_provider \<Rightarrow> (string \<Rightarrow> string) \<Rightarrow> string \<Rightarrow> http_reply" where
  "mock_http M P path_of u = fst (mock_get M P (path_of u))"

lemma fetch_mock_jwks:
  assumes "mo_serving P" and "path_of (url_as_str uri) = ''/jwks.json''" and "ms_jwks_status_override (mo_state P) = 0"
  shows "fetch_jwks X (mock_http M P path_of) uri =
    (case json_jwk_set X (json_to_vec M (ms_jwks (mo_state P))) of Inl e \<Rightarrow> Returns (Inl (JwksParse e)) | Inr raw \<Rightarrow> parse_jwks X raw)"
  using assms by (simp add: fetch_jwks_def mock_http_def mock_get_def serve_jwks_def is_success_def)

lemma fetch_mock_override:
  assumes "mo_serving P" and "path_of (url_as_str uri) = ''/jwks.json''" and "ms_jwks_status_override (mo_state P) = st" and "st \<noteq> 0"
    and "\<not> is_success st"
  shows "fetch_jwks X (mock_http M P path_of) uri =
    Returns (Inl (JwksBadStatus (if 100 \<le> st \<and> st \<le> 999 then st else 500)))"
  using assms by (auto simp: fetch_jwks_def mock_http_def mock_get_def serve_jwks_def Let_def is_success_def)

lemma parse_ec_jwk:
  assumes "mint_laws X M" and "length x = 32" and "length y = 32"
  shows "parse_jwks X [ec_jwk X x y kid] =
    Returns (Inr (add_key (ec_jwk X x y kid) Es256 (jwk_thumbprint X (EcP256 x y)) jwks_empty))"
proof -
  have "by_kid (add_key (ec_jwk X x y kid) Es256 tp jwks_empty) \<noteq> [] \<or> keyless (add_key (ec_jwk X x y kid) Es256 tp jwks_empty) \<noteq> []" for tp
    by (simp add: add_key_def ec_jwk_def Let_def jwks_empty_def split: option.splits)
  moreover have "Option.bind (raw_key_algorithm (ec_jwk X x y kid)) from_jwt_key_alg = Some Es256"
    by (simp add: ec_jwk_def from_jwt_key_alg_def)
  ultimately show ?thesis using ec_thumbprint(2) [OF assms] by (simp add: parse_jwks_def)
qed

text \<open>
  C34. The mock issuer follows the test that drives it. After any sequence of requests and settings from a
  start, every setting is the one last set (requests change none of them, so an override of the status lasts until it is
  set again or cleared by 0), and each counter is the number of requests for its path that
  came before the shutdown. So while the last override is a failing status, every fetch of the keys fails with it (with 500 for a number
  that is no status); when it is 0 and the document last set holds a key that the helper published, a fetch caches
  that key as the one candidate for its identifier, under the thumbprint that the helper computes for
  token binding; and from the shutdown on every connection is refused.
\<close>

theorem mock_issuer_serves_keys:
  assumes laws: "mint_laws X M" and point: "es256_point M sk x y"
    and public: "es256_public_jwk X M (sk_verifying_key M sk) kid = Returns v"
    and json: "json_jwk_set X (json_to_vec M (JObj [(''keys'', JArr [v])])) = bind_result (jwk_from_value M v) (\<lambda>j. Inr [j])"
    and thumb: "es256_thumbprint_b64url X M (sk_verifying_key M sk) = Returns b64"
    and start: "mock_start X port initial = Returns P"
    and path: "path_of (url_as_str uri) = ''/jwks.json''"
    and ran: "P' = mock_run M ops P"
  shows "ms_jwks (mo_state P') = jwks_at initial ops \<and> ms_jwks_status_override (mo_state P') = status_at ops \<and>
    ms_discovery_jwks_uri (mo_state P') = uri_at ops \<and> mock_issuer_url P' = mock_issuer_url P \<and>
    jwks_fetch_count P' = of_nat (requests_for ''/jwks.json'' ops) \<and>
    jwks_v2_fetch_count P' = of_nat (requests_for ''/jwks-v2.json'' ops) \<and>
    discovery_fetch_count P' = of_nat (requests_for ''/.well-known/openid-configuration'' ops) \<and>
    (MockShutdown \<notin> set ops \<longrightarrow> status_at ops \<noteq> 0 \<longrightarrow> \<not> is_success (status_at ops) \<longrightarrow>
       fetch_jwks X (mock_http M P' path_of) uri =
         Returns (Inl (JwksBadStatus (if 100 \<le> status_at ops \<and> status_at ops \<le> 999 then status_at ops else 500)))) \<and>
    (MockShutdown \<notin> set ops \<longrightarrow> status_at ops = 0 \<longrightarrow> jwks_at initial ops = JObj [(''keys'', JArr [v])] \<longrightarrow>
       (\<exists>J c. fetch_jwks X (mock_http M P' path_of) uri = Returns (Inr J) \<and> lookup_candidates J kid = [c] \<and>
          jwk_raw c = ec_jwk X x y kid \<and> iter_thumbprints J = [jwk_thumbprint_field c] \<and>
          b64_decode X b64 = Inr (jwk_thumbprint_field c))) \<and>
    (MockShutdown \<in> set ops \<longrightarrow>
       (\<exists>e. fetch_jwks X (mock_http M P' path_of) uri = Returns (Inl (JwksHttp e))))"
proof -
  note P' = mock_run_history [OF start, of M ops, folded ran]
  have keys: "\<exists>J c. fetch_jwks X (mock_http M P' path_of) uri = Returns (Inr J) \<and> lookup_candidates J kid = [c] \<and>
      jwk_raw c = ec_jwk X x y kid \<and> iter_thumbprints J = [jwk_thumbprint_field c] \<and> b64_decode X b64 = Inr (jwk_thumbprint_field c)"
    if "MockShutdown \<notin> set ops" "status_at ops = 0" "jwks_at initial ops = JObj [(''keys'', JArr [v])]"
  proof -
    have "jwk_from_value M v = Inr (ec_jwk X x y kid)" using laws public point unfolding mint_laws_def es256_point_def by blast
    then have raw: "json_jwk_set X (json_to_vec M (ms_jwks (mo_state P'))) = Inr [ec_jwk X x y kid]"
      using json that(3) by (simp add: P')
    let ?J = "add_key (ec_jwk X x y kid) Es256 (jwk_thumbprint X (EcP256 x y)) jwks_empty"
    let ?c = "\<lparr>jwk_kid = kid, jwk_alg = Es256, jwk_thumbprint_field = jwk_thumbprint X (EcP256 x y), jwk_raw = ec_jwk X x y kid\<rparr>"
    have "mo_serving P'" "ms_jwks_status_override (mo_state P') = 0" using that(1,2) by (simp_all add: P')
    then have fetch: "fetch_jwks X (mock_http M P' path_of) uri = Returns (Inr ?J)"
      using fetch_mock_jwks [where X = X and M = M and P = P' and path_of = path_of and uri = uri] path raw
        parse_ec_jwk [OF laws] point by (simp add: es256_point_def)
    have "lookup_candidates ?J kid = [?c]" "iter_thumbprints ?J = [jwk_thumbprint X (EcP256 x y)]"
      by (simp_all add: lookup_candidates_def iter_thumbprints_def add_key_def Let_def jwks_empty_def ec_jwk_def split: option.splits)
    then show ?thesis using fetch es256_thumbprint_decodes(1) [OF laws point thumb] by auto
  qed
  have bad: "fetch_jwks X (mock_http M P' path_of) uri =
      Returns (Inl (JwksBadStatus (if 100 \<le> status_at ops \<and> status_at ops \<le> 999 then status_at ops else 500)))"
    if "MockShutdown \<notin> set ops" "status_at ops \<noteq> 0" "\<not> is_success (status_at ops)"
    by (rule fetch_mock_override) (use that path in \<open>simp_all add: P'\<close>)
  have gone: "\<exists>e. fetch_jwks X (mock_http M P' path_of) uri = Returns (Inl (JwksHttp e))" if "MockShutdown \<in> set ops"
    using that by (simp add: fetch_jwks_def mock_http_def mock_get_def P')
  have "mock_issuer_url P' = mock_issuer_url P" by (subst mock_issuer_url_def) (simp add: P')
  then show ?thesis
    using keys bad gone
    by (intro conjI) (simp_all add: P' jwks_fetch_count_def jwks_v2_fetch_count_def discovery_fetch_count_def)
qed

text \<open>
  Witness: the example's key is set, the provider is made to fail with 503 and asked twice, the override is cleared and it is
  asked again. While it is set the fetch fails, also after the requests; in the end the key arrives and three requests are counted.
\<close>

theorem mock_issuer_serves_keys_witness:
  "\<exists>v P J c. es256_public_jwk (demo_mint_crates False) demo_mint False (Some ''k'') = Returns v \<and>
     mock_start (demo_mint_crates False) 8080 (JArr []) = Returns P \<and>
     fetch_jwks (demo_mint_crates False) (mock_http demo_mint (mock_run demo_mint [SetJwks (JObj [(''keys'', JArr [v])]),
         SetStatusOverride 503, MockGet ''/jwks.json'', MockGet ''/jwks.json''] P) (\<lambda>_. ''/jwks.json'')) (demo_url ''j'') =
       Returns (Inl (JwksBadStatus 503)) \<and>
     fetch_jwks (demo_mint_crates False) (mock_http demo_mint (mock_run demo_mint [SetJwks (JObj [(''keys'', JArr [v])]),
         SetStatusOverride 503, MockGet ''/jwks.json'', MockGet ''/jwks.json'', SetStatusOverride 0, MockGet ''/jwks.json''] P)
         (\<lambda>_. ''/jwks.json'')) (demo_url ''j'') = Returns (Inr J) \<and>
     lookup_candidates J (Some ''k'') = [c] \<and>
     jwks_fetch_count (mock_run demo_mint [SetJwks (JObj [(''keys'', JArr [v])]),
         SetStatusOverride 503, MockGet ''/jwks.json'', MockGet ''/jwks.json'', SetStatusOverride 0, MockGet ''/jwks.json''] P) = 3"
proof -
  let ?X = "demo_mint_crates False"
  have id: "sk_verifying_key demo_mint False = False" by (simp add: demo_mint_def)
  have point: "es256_point demo_mint False (replicate 32 2) (replicate 32 3)" by (simp add: demo_point_iff)
  obtain v where v: "es256_public_jwk ?X demo_mint (sk_verifying_key demo_mint False) (Some ''k'') = Returns v"
    using point by (simp add: es256_public_jwk_def es256_point_def)
  obtain P where P: "mock_start ?X 8080 (JArr []) = Returns P" by (simp add: mock_start_def)
  obtain b64 where t: "es256_thumbprint_b64url ?X demo_mint (sk_verifying_key demo_mint False) = Returns b64"
    using point by (simp add: es256_thumbprint_b64url_def es256_point_def)
  have "jwk_from_value demo_mint v = Inr (ec_jwk ?X (replicate 32 2) (replicate 32 3) (Some ''k''))"
    using demo_mint_laws v point unfolding mint_laws_def es256_point_def by blast
  then have j: "json_jwk_set ?X (json_to_vec demo_mint (JObj [(''keys'', JArr [v])])) = bind_result (jwk_from_value demo_mint v) (\<lambda>j. Inr [j])"
    by (simp add: demo_mint_crypto) (simp add: demo_mint_crates_def)
  let ?ops = "[SetJwks (JObj [(''keys'', JArr [v])]), SetStatusOverride 503, MockGet ''/jwks.json'', MockGet ''/jwks.json'']"
  let ?all = "?ops @ [SetStatusOverride 0, MockGet ''/jwks.json'']"
  note serves = mock_issuer_serves_keys [OF demo_mint_laws point v j t P, of "\<lambda>_. ''/jwks.json''" "demo_url ''j''", OF refl refl]
  have hist: "status_at ?ops = 503" "status_at ?all = 0" "jwks_at (JArr []) ?all = JObj [(''keys'', JArr [v])]"
    "requests_for ''/jwks.json'' ?all = 3"
    by (simp_all add: status_at_def jwks_at_def requests_for_def)
  have "fetch_jwks ?X (mock_http demo_mint (mock_run demo_mint ?ops P) (\<lambda>_. ''/jwks.json'')) (demo_url ''j'') = Returns (Inl (JwksBadStatus 503))"
    using serves [of ?ops] by (simp add: hist(1) is_success_def)
  moreover have "\<exists>J c. fetch_jwks ?X (mock_http demo_mint (mock_run demo_mint ?all P) (\<lambda>_. ''/jwks.json'')) (demo_url ''j'') = Returns (Inr J) \<and>
      lookup_candidates J (Some ''k'') = [c]"
    using serves [of ?all] hist(2,3) by auto
  moreover have "jwks_fetch_count (mock_run demo_mint ?all P) = 3" using serves [of ?all] hist(4) by simp
  ultimately show ?thesis using v P unfolding id by auto
qed

end
