(* ===== verification/Logging.thy ===== *)
theory Logging
  imports Lifecycle
begin

section \<open>Command line and subscriber (cli/mod.rs, logging/mod.rs, logging/events.rs, main.rs)\<close>

text \<open>
  What is seen of the log. Every event has a name and a level; the subscriber is installed once, before anything else
  runs, and shows the events that are not more detailed than its level. The level is the value of the one command-line flag.
\<close>

subsection \<open>The flag\<close>

text \<open>The values that the derived parser accepts are the names of the levels in upper case.\<close>

definition log_level_values :: "(string \<times> log_level) list" where
  "log_level_values = [(''TRACE'', LevelTrace), (''DEBUG'', LevelDebug), (''INFO'', LevelInfo), (''WARN'', LevelWarn), (''ERROR'', LevelError)]"

definition cli_log_level :: "string option \<Rightarrow> log_level option" where
  "cli_log_level arg = (case arg of None \<Rightarrow> Some LevelInfo | Some v \<Rightarrow> map_of log_level_values v)"

subsection \<open>Names and levels of events\<close>

definition event_name :: "log_event \<Rightarrow> string" where
  "event_name e = (case e of
      ServerStarted _ \<Rightarrow> ''server.started''
    | ServerShutdownInitiated _ _ \<Rightarrow> ''server.shutdown.initiated''
    | ServerShutdownCompleted _ \<Rightarrow> ''server.shutdown.completed''
    | RequestRejected _ _ _ \<Rightarrow> ''request.rejected''
    | StorageStartupReady _ \<Rightarrow> ''storage.startup.ready''
    | StorageStartupFailed _ _ _ \<Rightarrow> ''storage.startup.failed''
    | BlockPutOk _ _ _ _ \<Rightarrow> ''storage.put.ok''
    | BlockPutBackendFailed _ _ _ _ \<Rightarrow> ''storage.put.backend_failed''
    | BlockGetHit _ _ _ \<Rightarrow> ''storage.get.hit''
    | BlockGetMiss _ _ _ \<Rightarrow> ''storage.get.miss''
    | BlockGetBackendFailed _ _ _ _ \<Rightarrow> ''storage.get.backend_failed''
    | BlockDeleteOk _ _ _ \<Rightarrow> ''storage.delete.ok''
    | BlockDeleteBackendFailed _ _ _ _ \<Rightarrow> ''storage.delete.backend_failed''
    | AuthFailureEvent _ _ _ \<Rightarrow> ''auth.failure'')"

definition event_level :: "log_event \<Rightarrow> tracing_level" where
  "event_level e = (case e of
      RequestRejected _ _ _ \<Rightarrow> DEBUG
    | AuthFailureEvent _ _ _ \<Rightarrow> DEBUG
    | StorageStartupFailed _ _ _ \<Rightarrow> ERROR
    | BlockPutBackendFailed _ _ _ _ \<Rightarrow> WARN
    | BlockGetBackendFailed _ _ _ _ \<Rightarrow> WARN
    | BlockDeleteBackendFailed _ _ _ _ \<Rightarrow> WARN
    | _ \<Rightarrow> INFO)"

text \<open>How detailed a level is: a subscriber shows the events that are at most as detailed as its maximum.\<close>

definition verbosity :: "tracing_level \<Rightarrow> nat" where
  "verbosity l = (case l of ERROR \<Rightarrow> 1 | WARN \<Rightarrow> 2 | INFO \<Rightarrow> 3 | DEBUG \<Rightarrow> 4 | TRACE \<Rightarrow> 5)"

definition visible_log :: "tracing_level \<Rightarrow> log_event list \<Rightarrow> log_event list" where
  "visible_log max_level log = filter (\<lambda>e. verbosity (event_level e) \<le> verbosity max_level) log"

subsection \<open>The process\<close>

text \<open>The global subscriber, if there is one; setting it a second time panics.\<close>

definition install_global_subscriber :: "tracing_level \<Rightarrow> tracing_level option \<Rightarrow> tracing_level outcome" where
  "install_global_subscriber max_level installed = (case installed of None \<Rightarrow> Returns max_level | Some _ \<Rightarrow> Panics)"

definition main :: "string option \<Rightarrow> bool \<Rightarrow> 'dk ext \<Rightarrow> 'net boot_env \<Rightarrow> serve_env \<Rightarrow> fs \<Rightarrow> nat option outcome" where
  "main arg runtime_built X B V s = (case cli_log_level arg of
      None \<Rightarrow> Returns (Some 2)
    | Some level \<Rightarrow> bind_outcome (install_global_subscriber (as_tracing_level level) None) (\<lambda>_. main_exit runtime_built X B V s))"

lemmas level_defs = verbosity_def event_level_def event_name_def

lemma event_name_determines_level: "event_name e = event_name e' \<Longrightarrow> event_level e = event_level e'"
  by (cases e; cases e') (simp_all add: event_name_def event_level_def)

lemma main_cases:
  "main arg rt X B V s = (if \<exists>v. arg = Some v \<and> v \<notin> fst ` set log_level_values then Returns (Some 2) else main_exit rt X B V s)"
  by (cases arg) (auto simp: main_def cli_log_level_def log_level_values_def install_global_subscriber_def)

text \<open>
  What an operator sees of the log. Under DEBUG and TRACE nothing of the log is lost; under the default level exactly rejected requests and failed
  authentications are missing; under WARN and ERROR only failures remain.
\<close>

theorem visible_log_levels:
  "visible_log DEBUG log = log \<and> visible_log TRACE log = log \<and>
   visible_log INFO log = filter (\<lambda>e. event_name e \<notin> {''request.rejected'', ''auth.failure''}) log \<and>
   visible_log WARN log = filter (\<lambda>e. event_name e \<in> {''storage.startup.failed'', ''storage.put.backend_failed'',
     ''storage.get.backend_failed'', ''storage.delete.backend_failed''}) log \<and>
   visible_log ERROR log = filter (\<lambda>e. event_name e = ''storage.startup.failed'') log"
proof -
  have "verbosity (event_level e) \<le> verbosity DEBUG" "verbosity (event_level e) \<le> verbosity TRACE" for e
    by (cases e; simp add: level_defs)+
  moreover have "verbosity (event_level e) \<le> verbosity INFO \<longleftrightarrow> event_name e \<notin> {''request.rejected'', ''auth.failure''}" for e
    by (cases e) (simp_all add: level_defs)
  moreover have "verbosity (event_level e) \<le> verbosity WARN \<longleftrightarrow> event_name e \<in> {''storage.startup.failed'', ''storage.put.backend_failed'',
     ''storage.get.backend_failed'', ''storage.delete.backend_failed''}" for e
    by (cases e) (simp_all add: level_defs)
  moreover have "verbosity (event_level e) \<le> verbosity ERROR \<longleftrightarrow> event_name e = ''storage.startup.failed''" for e
    by (cases e) (simp_all add: level_defs)
  ultimately show ?thesis by (simp add: visible_log_def)
qed

end
