(* ===== verification/Spec2Isabelle.thy ===== *)
theory Spec2Isabelle
  imports Concurrent_Runs System_Service Test_Support Logging
begin

text \<open>
  \<^bold>\<open>Apokryphos server: a verification development.\<close>

  The program (a Rust crate under \<^verbatim>\<open>src/server/src\<close>) stores opaque blocks of one fixed size for
  authenticated clients. A request passes the proxy-trust middleware, which decides the effective client
  address and scheme; the router, which picks a service; the guard of that service, which validates an OIDC
  access token against the key set of the guard's audience context and a DPoP proof against the token,
  the request and the replay store; and the handler, which for block routes calls the storage provider.
  Two contexts (vault and admin) keep key sets that must stay disjoint and that background tasks refresh. A
  bootstrap loads the configuration, builds the contexts, probes the storage and binds the listener; a
  shutdown signal starts a bounded drain.

  \<^bold>\<open>Theories and sources.\<close>
  \<^item> \<open>Prelude\<close>: words of 8, 16 and 64 bits with Rust's checked and saturating arithmetic, results
    as sums (\<open>Inl\<close> the error), \<open>outcome\<close> for code that may panic, Rust's string operations, hash maps as
    association lists, instants in nanoseconds.
  \<^item> \<open>Wire\<close>, \<open>Crypto\<close>: the record \<open>ext\<close> of what third-party crates compute (SHA-256, base64, URL
    and JSON parsing, JWT decoding), with the laws relied on as named predicates (\<open>subtle_decides_eq\<close>,
    \<open>sha256_len32\<close>, ...); \<^verbatim>\<open>auth/crypto.rs\<close>, thumbprints of RFC 7638.
  \<^item> \<open>Settings\<close>, \<open>Net\<close>, \<open>Config\<close>: \<^verbatim>\<open>config/\<close>: environment and file, their merge and the validation,
    with the standard library's parsers of numbers and socket addresses.
  \<^item> \<open>Replay\<close>, \<open>Replay_Interleaving\<close>: \<^verbatim>\<open>auth/replay.rs\<close>: the store with its map, expiry heap and
    counter, refined to a map with deadlines; then with its two locks as separate steps.
  \<^item> \<open>Jwks\<close>, \<open>Context\<close>, \<open>Refresh\<close>, \<open>Refresh_Steps\<close>, \<open>Tasks\<close>: \<^verbatim>\<open>auth/jwks.rs\<close>, \<^verbatim>\<open>auth/discovery.rs\<close>,
    \<^verbatim>\<open>auth/context.rs\<close> and the task loops: parsing and lookup of keys, start-up and disjointness of the
    contexts, scheduled and on-demand refresh with the interference of other tasks at their suspension
    points, the claim of the refresh slot as a step relation, the loops over sequences of wake-ups, at the ticks of intervals
    with the configured periods; then the refreshes
    one atomic action at a time, with the proof that a call alone does the same in both models.
  \<^item> \<open>Http\<close>, \<open>Failure\<close>, \<open>Token\<close>, \<open>Dpop\<close>, \<open>Guard\<close>: requests, responses and log events
    (\<^verbatim>\<open>logging/events.rs\<close>), the redaction wrapper (\<^verbatim>\<open>logging/sensitive.rs\<close>); \<^verbatim>\<open>auth/failure.rs\<close>, \<^verbatim>\<open>auth/token.rs\<close>, \<^verbatim>\<open>auth/dpop.rs\<close>, \<^verbatim>\<open>auth/middleware.rs\<close>,
    \<^verbatim>\<open>auth/subject.rs\<close>, step by step in the order of the code, every failure a branch.
  \<^item> \<open>Proxy\<close>: \<^verbatim>\<open>proxy_trust/\<close>.
  \<^item> \<open>Block_Id\<close>, \<open>Storage\<close>, \<open>Local_Fs\<close>, \<open>Put_Interleaving\<close>, \<open>Put_Sequential\<close>: \<^verbatim>\<open>storage/\<close>: identifiers with the
    branch-free byte test at its width, paths, the provider interface as a locale, the file-system provider
    on a model of files and directories in which any system call may fail, and its concurrent puts one
    system call at a time; the two models of a put agree when it runs alone.
  \<^item> \<open>Blocks\<close>, \<open>Routes\<close>: \<^verbatim>\<open>routes/\<close>: the handlers and the router.
  \<^item> \<open>Lifecycle\<close>, \<open>System\<close>, \<open>System_Service\<close>: \<^verbatim>\<open>app.rs\<close>, \<^verbatim>\<open>shutdown/mod.rs\<close>, \<^verbatim>\<open>main.rs\<close>, \<^verbatim>\<open>cli/mod.rs\<close>: bootstrap,
    serving and draining in time, exit code; the started server as runs of requests and task ticks; that it serves good requests.
  \<^item> \<open>Logging\<close>: \<^verbatim>\<open>cli/mod.rs\<close>, \<^verbatim>\<open>logging/mod.rs\<close>, \<^verbatim>\<open>main.rs\<close>: the flag, the subscriber and what its level shows.
  \<^item> \<open>Concurrent\<close>: any number of requests in flight. Each has a program counter; a step is the code between
    two points at which other tasks can run: the awaits of \<^verbatim>\<open>auth/middleware.rs\<close>, \<^verbatim>\<open>auth/token.rs\<close> and \<^verbatim>\<open>routes/\<close>,
    the locks of the replay store, every access to a context during a refresh, and the system calls of the blocking threads. The scheduled
    refreshes of both contexts, by the same atomic actions, the two halves of a
    clean-up, time and disconnecting clients are steps too. \<open>Concurrent_Safety\<close> has the invariants of the
    requests and the replay store, \<open>Concurrent_Blocks\<close> the commits and reads, \<open>Concurrent_Sequential\<close> the
    simulation of the sequential router, \<open>Concurrent_Types\<close> the typing of the answers, \<open>Concurrent_Progress\<close> the
    rank that every step decreases, \<open>Concurrent_Contexts\<close> the key sets on their way into the contexts, \<open>Concurrent_Claims\<close> the claims
    and fetches of a run, and \<open>Concurrent_Properties\<close> and \<open>Concurrent_Refresh\<close> the theorems; \<open>Concurrent_Runs\<close> embeds the runs of \<open>System\<close>.
  \<^item> \<open>Test_Support\<close>: \<^verbatim>\<open>auth/testing.rs\<close>: the helpers that mint tokens and proofs and the mock issuer, which serve
    as the client side: what they mint is accepted or refused for the right reason.

  Definitions keep the names of the code. State is passed explicitly (\<open>server_state\<close>: contexts, replay
  store, file system); what the environment does to an operation (clocks, replies of the issuer,
  faults, other tasks) is an argument of it.

  \<^bold>\<open>Interfaces.\<close> The locales \<open>replay_guard\<close> (what the proof validator needs of the store),
  \<open>storage_provider\<close> (what the handlers need of a provider), \<open>periodic_task\<close> (what a task loop needs of its
  work), \<open>run_invariant\<close> (what an invariant of the machine needs of its steps) and the others state contracts; each is interpreted on the model of the code, and the
  properties use the facts of these interpretations.

  \<^bold>\<open>What the theorems show.\<close>
  \<^item> Requests in flight together: the stored blocks are linearisable, no proof passes a guard twice, every commit is
    authenticated, every reachable state is in order, every answer has the type of its route and method,
    every request finishes after a bounded number of its own steps; the issuer is asked on
    demand at most once per interval. That the two models of the server agree where they speak of the same (a request alone can do
    what the router does, and a run of whole actions is one of the machine) is a check of the models, and no property of the code.
  \<^item> The whole system, one request at a time: every reachable state is in order; the stored blocks are those of an abstract map
    driven by the answers 204; no write is executed twice on one proof; a good request is served, in every reachable state;
    nothing is answered or changed without authentication; methods other than the three supported ones reveal nothing.
  \<^item> Authentication: an accepted token or proof satisfies every rule (and credentials that do are accepted),
    a proof goes with the key and the digest of one token; replays are refused, also when the store's operations interleave; failures are uniform.
  \<^item> Contexts: start-up and any refreshes, however interleaved, leave non-empty, well-formed key sets from https addresses; the two
    stay disjoint as long as no check of one context falls between check and store of the other.
  \<^item> Storage: a put is atomic under any fault, linearisable among concurrent puts and deletes, and
    succeeds when the system calls do; delete is idempotent; the start-up probe clobbers nothing.
  \<^item> Lifecycle: start-up is all or nothing and names the step that failed, the drain is bounded and starts with the signal, every background
    task does its work at each tick until the first stop and ends there, the clean-up keeps up with the deadlines, events are logged once and in order.
  \<^item> Theorems that exhibit a defect: the default replay window admits a replay, an octet key makes the key
    parser panic (and its task die), two tasks of a running server can install a common key, a loser of the refresh
    claim does not wait, a claim whose request is dropped blocks further refreshes, the completion time can decrease, an issuer with a final slash is refused.

  \<^bold>\<open>Bounds and termination.\<close> No definition needs fuel. Loops are structural, or have a termination proof
  (the drain of the expiry heap, by its size). What may run for ever, serving, returns an option whose
  \<open>None\<close> says so, and theorems state when it returns. A task's loop is a function of the finite
  sequence of wake-ups that it has had; when the ticks of its interval complete is an argument, about which \<open>interval_law\<close> says what
  \<^verbatim>\<open>tokio\<close> documents. Integers of the code have their width wherever they can wrap or saturate.

  \<^bold>\<open>Limits.\<close> In \<open>System\<close> a request is one action, and what other tasks do to the contexts meanwhile are functions of its environment,
  assumed to keep the contexts in order (\<open>env_fine\<close>) where a theorem speaks of them; in \<open>Concurrent\<close> these tasks are part of the machine
  and nothing is assumed about them. Atomic accesses are sequentially consistent there: the reorderings that acquire and release
  orderings would allow are not modelled. A wait for a notification may end at any time. The body of a
  request is read in one step, as if it had arrived: a client that stalls its upload is not modelled (the code awaits the body without a
  timeout of its own), so that a request finishes is said of requests whose body arrives. Log entries belong to the sequential handlers. An action that panics ends a run of
  \<open>System\<close> and a task of \<open>Concurrent\<close>.
  The drain timer is exact; \<^verbatim>\<open>tokio\<close>'s fall-back for a timeout beyond the clock's range is not modelled.

  \<^bold>\<open>Not modelled.\<close> Formatting and writing of log lines, and free-text log lines; the argument parser derived by
  \<^verbatim>\<open>clap\<close>, which is represented by the values that it accepts; that the redaction wrapper has no
  further trait implementations, a matter of the type checker; timing of constant-time comparisons; the generation of test
  keys (\<^verbatim>\<open>auth/testing.rs\<close>), calls into cryptographic crates; texts of errors (\<^verbatim>\<open>Display\<close>); module declarations (\<^verbatim>\<open>lib.rs\<close>,
  \<^verbatim>\<open>auth/mod.rs\<close>); the interiors of \<^verbatim>\<open>axum\<close>, \<^verbatim>\<open>tokio\<close>, \<^verbatim>\<open>serde\<close>, \<^verbatim>\<open>reqwest\<close>, \<^verbatim>\<open>jsonwebtoken\<close> and \<^verbatim>\<open>tempfile\<close>, which are
  parameters.
\<close>

end
